(* ===== verification/Credit_Prelude.thy ===== *)
theory Credit_Prelude
  imports Main "HOL-Library.Word" "HOL-Library.AList"
begin

text \<open>
  Vocabulary shared by every component of the development.

  \<^item> Machine integers keep their width: \<open>uint64\<close> and \<open>int64\<close> are both \<^typ>\<open>64 word\<close>
    (a Go conversion between them is the identity on the bits; signed readings use
    \<^const>\<open>sint\<close>), \<open>uint32\<close>/\<open>int32\<close> are \<^typ>\<open>32 word\<close>.
  \<^item> A \<open>[16]byte\<close> (UUIDs, TigerBeetle's \<open>Uint128\<close>) is a \<^typ>\<open>128 word\<close> read little-endian,
    so byte \<open>i\<close> of the array holds bits \<open>8*i .. 8*i+7\<close>.
  \<^item> A Go map is an association list with distinct keys, listed in the order a \<open>range\<close>
    loop visits it.  Go leaves that order open; theorems quantify over the lists.
  \<^item> A Go \<open>error\<close> result is a sum: \<^const>\<open>Inl\<close> the error, \<^const>\<open>Inr\<close> the value.
    \<open>fmt.Errorf("ctx: %w", err)\<close> is \<open>Wrap ''ctx'' err\<close>; a panic is an error value too.
\<close>

section \<open>Types\<close>

type_synonym byte = "8 word"
type_synonym uint16 = "16 word"
type_synonym uint32 = "32 word"
type_synonym int32 = "32 word"
type_synonym uint64 = "64 word"
type_synonym int64 = "64 word"
type_synonym bytes16 = "128 word"
type_synonym ('k, 'v) gomap = "('k \<times> 'v) list"

datatype error =
    Msg string
  | Wrap string error
  | ErrAt string nat
  | ErrNoRows
  | ErrCanceled
  | ErrAlreadyStarted
  | ErrPanic string

type_synonym 'a result = "error + 'a"

named_theorems go_simps \<open>unfolding rules for the shared Go vocabulary\<close>

section \<open>errors.Is over wrapped errors\<close>

fun errors_Is :: "error \<Rightarrow> error \<Rightarrow> bool" where
  "errors_Is (Wrap c e) t \<longleftrightarrow> Wrap c e = t \<or> errors_Is e t"
| "errors_Is e t \<longleftrightarrow> e = t"

section \<open>Little-endian byte strings\<close>

text \<open>\<open>binary.LittleEndian.PutUint64/PutUint32\<close> and the slice \<open>id[:]\<close> of a \<open>[16]byte\<close>.\<close>

definition le_bytes :: "nat \<Rightarrow> 'a::len word \<Rightarrow> byte list" where
  "le_bytes n w = map (\<lambda>i. ucast (drop_bit (8 * i) w)) [0..<n]"

text \<open>\<open>copy(id[:], b)\<close> into a zeroed \<open>[16]byte\<close>, and \<open>binary.LittleEndian.Uint64\<close>.\<close>

primrec le_word :: "byte list \<Rightarrow> 'a::len word" where
  "le_word [] = 0"
| "le_word (b # bs) = or (ucast b) (push_bit 8 (le_word bs))"

section \<open>Loops that may fail\<close>

text \<open>A \<open>for\<close> loop that appends one value per element and returns on the first error.\<close>

fun traverse :: "('a \<Rightarrow> 'b result) \<Rightarrow> 'a list \<Rightarrow> 'b list result" where
  "traverse f [] = Inr []"
| "traverse f (x # xs) =
     (case f x of
        Inl e \<Rightarrow> Inl e
      | Inr y \<Rightarrow> (case traverse f xs of Inl e \<Rightarrow> Inl e | Inr ys \<Rightarrow> Inr (y # ys)))"

text \<open>A \<open>for\<close> loop of effectful calls that returns on the first error.\<close>

fun foreach :: "('a \<Rightarrow> 's \<Rightarrow> 's \<times> unit result) \<Rightarrow> 'a list \<Rightarrow> 's \<Rightarrow> 's \<times> unit result" where
  "foreach f [] s = (s, Inr ())"
| "foreach f (x # xs) s =
     (case f x s of (s', Inl e) \<Rightarrow> (s', Inl e) | (s', Inr _) \<Rightarrow> foreach f xs s')"

text \<open>
  A call repeated while it fails, at most \<open>n\<close> more times: the retry policy
  \<open>MaximumAttempts = n + 1\<close> of an activity.
\<close>

fun with_retries :: "nat \<Rightarrow> ('s \<Rightarrow> 's \<times> 'a result) \<Rightarrow> 's \<Rightarrow> 's \<times> 'a result" where
  "with_retries 0 act s = act s"
| "with_retries (Suc n) act s =
     (case act s of (s', Inl e) \<Rightarrow> with_retries n act s' | (s', Inr x) \<Rightarrow> (s', Inr x))"

section \<open>Lemmas on byte strings\<close>

lemma length_le_bytes [simp]: "length (le_bytes n w) = n"
  by (simp add: le_bytes_def)

lemma nth_le_bytes: "i < n \<Longrightarrow> le_bytes n w ! i = ucast (drop_bit (8 * i) w)"
  by (simp add: le_bytes_def)

lemma bit_le_word:
  "bit (le_word bs :: 'a::len word) n \<longleftrightarrow>
     n < LENGTH('a) \<and> n div 8 < length bs \<and> bit (bs ! (n div 8)) (n mod 8)"
proof (induction bs arbitrary: n)
  case Nil
  then show ?case by simp
next
  case (Cons b bs)
  have eq: "bit (le_word (b # bs) :: 'a word) n \<longleftrightarrow>
      n < LENGTH('a) \<and> (bit b n \<or> 8 \<le> n \<and> bit (le_word bs :: 'a word) (n - 8))"
    by (auto simp: bit_simps)
  show ?case
  proof (cases "n < 8")
    case True
    then show ?thesis unfolding eq by simp
  next
    case False
    then obtain m where n: "n = m + 8"
      by (metis add.commute le_Suc_ex linorder_not_less)
    have "\<not> bit b n"
      using False by (auto dest: bit_imp_le_length)
    moreover have "(m + 8) div 8 = Suc (m div 8)" by simp
    ultimately show ?thesis
      unfolding eq using Cons.IH [of m] n by auto
  qed
qed

lemma le_bytes_inject:
  assumes "le_bytes n v = le_bytes n (w :: 'a::len word)" and "LENGTH('a) \<le> 8 * n"
  shows "v = w"
proof (rule bit_word_eqI)
  fix i assume i: "i < LENGTH('a)"
  with assms(2) have "i div 8 < n" by linarith
  with assms(1) have "bit (ucast (drop_bit (8 * (i div 8)) v) :: byte) (i mod 8) =
      bit (ucast (drop_bit (8 * (i div 8)) w) :: byte) (i mod 8)"
    by (metis nth_le_bytes)
  with i show "bit v i = bit w i"
    by (simp add: bit_simps)
qed

lemma le_word_le_bytes:
  assumes "LENGTH('a) \<le> 8 * n"
  shows "le_word (le_bytes n w) = (w :: 'a::len word)"
proof (rule bit_word_eqI)
  fix i assume i: "i < LENGTH('a)"
  with assms have "i div 8 < n" by linarith
  with i show "bit (le_word (le_bytes n w) :: 'a word) i = bit w i"
    by (simp add: bit_le_word nth_le_bytes bit_simps)
qed

lemma le_bytes_le_word:
  assumes "length bs = n" and "8 * n \<le> LENGTH('a)"
  shows "le_bytes n (le_word bs :: 'a::len word) = bs"
proof (rule nth_equalityI)
  show "length (le_bytes n (le_word bs :: 'a word)) = length bs"
    using assms by simp
next
  fix i assume "i < length (le_bytes n (le_word bs :: 'a word))"
  then have i: "i < n" by simp
  show "le_bytes n (le_word bs :: 'a word) ! i = bs ! i"
  proof (rule bit_word_eqI)
    fix k assume k: "k < LENGTH(8)"
    with i assms(2) have "8 * i + k < LENGTH('a)" by simp
    with k i assms(1) show "bit (le_bytes n (le_word bs :: 'a word) ! i) k = bit (bs ! i) k"
      by (simp add: nth_le_bytes bit_simps bit_le_word)
  qed
qed

lemma le_word_inject:
  assumes "(le_word bs :: 'a::len word) = le_word cs"
    and "length bs = n" and "length cs = n" and "8 * n \<le> LENGTH('a)"
  shows "bs = cs"
  by (metis assms le_bytes_le_word)

section \<open>Lemmas on failing loops\<close>

lemma traverse_Inr_iff:
  "traverse f xs = Inr ys \<longleftrightarrow> list_all2 (\<lambda>x y. f x = Inr y) xs ys"
proof (induction xs arbitrary: ys)
  case Nil
  then show ?case by auto
next
  case (Cons x xs)
  then show ?case
    by (cases "f x"; cases "traverse f xs") (auto simp: list_all2_Cons1 simp flip: Cons.IH)
qed

lemma traverse_map: "(\<And>x. x \<in> set xs \<Longrightarrow> f x = Inr (g x)) \<Longrightarrow> traverse f xs = Inr (map g xs)"
  by (induction xs) auto

lemma foreach_invariant:
  assumes "\<And>x s. x \<in> set xs \<Longrightarrow> I s \<Longrightarrow> I (fst (f x s))" and "I s"
  shows "I (fst (foreach f xs s))"
  using assms
proof (induction xs arbitrary: s)
  case (Cons x xs)
  have "I (fst (f x s))" using Cons.prems by simp
  then show ?case
    using Cons.IH [of "fst (f x s)"] Cons.prems(1) by (auto split: prod.splits sum.splits)
qed simp

lemma with_retries_invariant:
  assumes "\<And>s. I s \<Longrightarrow> I (fst (act s))" and "I s"
  shows "I (fst (with_retries n act s))"
  using assms(2)
proof (induction n arbitrary: s)
  case (Suc n)
  have "I (fst (act s))" using Suc.prems by (rule assms(1))
  then show ?case using Suc.IH by (auto split: prod.splits sum.splits)
qed (simp add: assms(1))

lemma with_retries_success: "act s = (s', Inr x) \<Longrightarrow> with_retries n act s = (s', Inr x)"
  by (cases n) simp_all

text \<open>A call that returned did so in its last attempt, after attempts that keep an invariant.\<close>

lemma with_retries_last:
  assumes "with_retries n act s = (s', r)" and "I s"
    and "\<And>s s' e. I s \<Longrightarrow> act s = (s', Inl e) \<Longrightarrow> I s'"
  shows "\<exists>s0. I s0 \<and> act s0 = (s', r)"
  using assms(1,2)
proof (induction n arbitrary: s)
  case (Suc n)
  obtain s1 r1 where act: "act s = (s1, r1)" by fastforce
  show ?case
  proof (cases r1)
    case (Inl e)
    then show ?thesis using Suc.IH [of s1] Suc.prems act assms(3) by simp
  next
    case (Inr x)
    then show ?thesis using Suc.prems act by auto
  qed
qed auto

lemma returned: "\<not> isl (snd p) \<Longrightarrow> \<exists>s x. p = (s, Inr x)"
  by (cases p; cases "snd p") auto

section \<open>Lemmas on Go maps\<close>

lemma map_of_update [simp]: "map_of (AList.update k v m) = (map_of m)(k \<mapsto> v)"
  by (rule update_conv')

lemma map_of_delete [simp]: "map_of (AList.delete k m) = (map_of m)(k := None)"
  by (rule delete_conv')

end
