(* ===== verification/PG_Store.thy ===== *)
theory PG_Store
  imports Credit_Prelude "HOL-Library.List_Lexorder" "HOL-Library.Char_ord"
begin

text \<open>
  \<open>internal/db/sqlcgen\<close>: the PostgreSQL rows and the generated queries, with the constraints of
  \<open>sql/migrations/001_initial.sql\<close>.  A table is the list of its rows; a query is a function on
  the database.  \<open>pg_script\<close> is what the connection does to the coming statements: a statement
  may be answered, may not reach the server, or may commit while its answer is lost.  An empty
  script means that every statement is answered.  A nullable column is an \<open>option\<close>, a timestamp
  an \<open>int\<close>, \<open>NOW()\<close> the field \<open>pg_now\<close>, and \<open>gen_random_uuid()\<close> draws from \<open>pg_random\<close>.
\<close>

section \<open>Rows\<close>

record Tenant =
  t_ID :: bytes16
  t_Name :: string
  t_BillingTier :: string
  t_Status :: string
  t_CreatedAt :: int
  t_DeletedAt :: "int option"

record WorkloadCluster =
  wc_ID :: bytes16
  wc_TenantID :: bytes16
  wc_CloudProvider :: string
  wc_Region :: string
  wc_LastHeartbeat :: "int option"
  wc_Status :: string
  wc_AgentVersion :: "string option"
  wc_DeregisteredAt :: "int option"
  wc_CreatedAt :: int

record QuotaConfig =
  qc_TenantID :: bytes16
  qc_ResourceType :: string
  qc_BasePlanID :: "bytes16 option"
  qc_HardLimit :: int64
  qc_SoftLimit :: "int64 option"
  qc_BurstCredits :: int64
  qc_BillingPeriod :: string
  qc_SoftLimitAlertSent :: bool

record QuotaSnapshot =
  sn_TenantID :: bytes16
  sn_ResourceType :: string
  sn_CreditsTotal :: int64
  sn_DebitsPosted :: int64
  sn_DebitsPending :: int64
  sn_Available :: "int64 option"
  sn_SnapshotAt :: int

record TbAccountID =
  ta_TenantID :: bytes16
  ta_ResourceType :: string
  ta_AccountType :: string
  ta_TbAccountID :: "byte list"
  ta_CreatedAt :: int

record TbGlobalAccountID =
  tg_ResourceType :: string
  tg_AccountType :: string
  tg_TbAccountID :: "byte list"
  tg_CreatedAt :: int

record CreditAdjustment =
  ca_ID :: bytes16
  ca_TenantID :: bytes16
  ca_ResourceType :: string
  ca_Amount :: int64
  ca_Reason :: "string option"
  ca_TbTransferID :: "byte list"
  ca_CreatedAt :: int

section \<open>The database and its connection\<close>

datatype outcome = Answered | Unreached error | AnswerLost error

record pg =
  tenants :: "Tenant list"
  workload_clusters :: "WorkloadCluster list"
  quota_configs :: "QuotaConfig list"
  tb_account_ids :: "TbAccountID list"
  tb_global_account_ids :: "TbGlobalAccountID list"
  quota_snapshots :: "QuotaSnapshot list"
  credit_adjustments :: "CreditAdjustment list"
  pg_now :: int
  pg_random :: "nat \<Rightarrow> bytes16"
  pg_drawn :: nat
  pg_script :: "outcome list"

definition statement :: "(pg \<Rightarrow> pg \<times> 'a result) \<Rightarrow> pg \<Rightarrow> pg \<times> 'a result" where
  "statement body db =
     (case pg_script db of
        [] \<Rightarrow> body db
      | Answered # os \<Rightarrow> body (db\<lparr>pg_script := os\<rparr>)
      | Unreached e # os \<Rightarrow> (db\<lparr>pg_script := os\<rparr>, Inl e)
      | AnswerLost e # os \<Rightarrow> (fst (body (db\<lparr>pg_script := os\<rparr>)), Inl e))"

definition query :: "(pg \<Rightarrow> 'a result) \<Rightarrow> pg \<Rightarrow> pg \<times> 'a result" where
  "query body = statement (\<lambda>db. (db, body db))"

definition update_where :: "('a \<Rightarrow> bool) \<Rightarrow> ('a \<Rightarrow> 'a) \<Rightarrow> 'a list \<Rightarrow> 'a list" where
  "update_where p f rows = map (\<lambda>r. if p r then f r else r) rows"

definition duplicate_key :: error where "duplicate_key = Msg ''duplicate key value violates unique constraint''"
definition foreign_key :: error where "foreign_key = Msg ''violates foreign key constraint''"
definition check_failed :: error where "check_failed = Msg ''violates check constraint''"
definition out_of_range :: error where "out_of_range = Msg ''bigint out of range''"

definition tenant_exists :: "bytes16 \<Rightarrow> pg \<Rightarrow> bool" where
  "tenant_exists i db = (\<exists>t \<in> set (tenants db). t_ID t = i)"

definition billing_tiers :: "string list" where
  "billing_tiers = [''free'', ''starter'', ''pro'', ''enterprise'']"
definition tenant_statuses :: "string list" where
  "tenant_statuses = [''active'', ''suspended'', ''deregistered'']"
definition cloud_providers :: "string list" where
  "cloud_providers = [''aws'', ''gcp'', ''azure'']"
definition cluster_statuses :: "string list" where
  "cluster_statuses = [''healthy'', ''degraded'', ''unreachable'', ''suspended'', ''deregistered'']"
definition account_types :: "string list" where
  "account_types = [''operator'', ''tenant_quota'', ''sink'']"
definition global_account_types :: "string list" where
  "global_account_types = [''operator'', ''sink'']"

section \<open>tenants.sql.go\<close>

definition q_DeleteTenant :: "bytes16 \<Rightarrow> pg \<Rightarrow> pg \<times> unit result" where
  "q_DeleteTenant i = statement (\<lambda>db.
     (db\<lparr>tenants := update_where (\<lambda>t. t_ID t = i)
        (\<lambda>t. t\<lparr>t_Status := ''deregistered'', t_DeletedAt := Some (pg_now db)\<rparr>) (tenants db)\<rparr>, Inr ()))"

definition q_GetTenant :: "bytes16 \<Rightarrow> pg \<Rightarrow> pg \<times> Tenant result" where
  "q_GetTenant i = query (\<lambda>db.
     case find (\<lambda>t. t_ID t = i) (tenants db) of None \<Rightarrow> Inl ErrNoRows | Some t \<Rightarrow> Inr t)"

definition q_InsertTenant :: "bytes16 \<Rightarrow> string \<Rightarrow> string \<Rightarrow> pg \<Rightarrow> pg \<times> Tenant result" where
  "q_InsertTenant i name billingTier = statement (\<lambda>db.
     if billingTier \<notin> set billing_tiers then (db, Inl check_failed)
     else if tenant_exists i db then (db, Inl duplicate_key)
     else
       (let row = \<lparr>t_ID = i, t_Name = name, t_BillingTier = billingTier, t_Status = ''active'',
                   t_CreatedAt = pg_now db, t_DeletedAt = None\<rparr>
        in (db\<lparr>tenants := tenants db @ [row]\<rparr>, Inr row)))"

definition q_ListTenants :: "pg \<Rightarrow> pg \<times> Tenant list result" where
  "q_ListTenants = query (\<lambda>db.
     Inr (sort_key t_CreatedAt (filter (\<lambda>t. t_DeletedAt t = None) (tenants db))))"

definition q_UpdateTenantStatus :: "bytes16 \<Rightarrow> string \<Rightarrow> pg \<Rightarrow> pg \<times> unit result" where
  "q_UpdateTenantStatus i status = statement (\<lambda>db.
     if tenant_exists i db \<and> status \<notin> set tenant_statuses then (db, Inl check_failed)
     else (db\<lparr>tenants := update_where (\<lambda>t. t_ID t = i) (\<lambda>t. t\<lparr>t_Status := status\<rparr>) (tenants db)\<rparr>,
           Inr ()))"

section \<open>clusters.sql.go\<close>

definition cluster_exists :: "bytes16 \<Rightarrow> pg \<Rightarrow> bool" where
  "cluster_exists i db = (\<exists>c \<in> set (workload_clusters db). wc_ID c = i)"

definition q_DeregisterCluster :: "bytes16 \<Rightarrow> pg \<Rightarrow> pg \<times> unit result" where
  "q_DeregisterCluster i = statement (\<lambda>db.
     (db\<lparr>workload_clusters := update_where (\<lambda>c. wc_ID c = i)
        (\<lambda>c. c\<lparr>wc_Status := ''deregistered'', wc_DeregisteredAt := Some (pg_now db)\<rparr>)
        (workload_clusters db)\<rparr>, Inr ()))"

definition q_GetCluster :: "bytes16 \<Rightarrow> pg \<Rightarrow> pg \<times> WorkloadCluster result" where
  "q_GetCluster i = query (\<lambda>db.
     case find (\<lambda>c. wc_ID c = i) (workload_clusters db) of None \<Rightarrow> Inl ErrNoRows | Some c \<Rightarrow> Inr c)"

definition q_InsertCluster ::
    "bytes16 \<Rightarrow> bytes16 \<Rightarrow> string \<Rightarrow> string \<Rightarrow> pg \<Rightarrow> pg \<times> WorkloadCluster result" where
  "q_InsertCluster i tenantID cloudProvider region = statement (\<lambda>db.
     if cloudProvider \<notin> set cloud_providers then (db, Inl check_failed)
     else if cluster_exists i db then (db, Inl duplicate_key)
     else if \<not> tenant_exists tenantID db then (db, Inl foreign_key)
     else
       (let row = \<lparr>wc_ID = i, wc_TenantID = tenantID, wc_CloudProvider = cloudProvider,
                   wc_Region = region, wc_LastHeartbeat = None, wc_Status = ''healthy'',
                   wc_AgentVersion = None, wc_DeregisteredAt = None, wc_CreatedAt = pg_now db\<rparr>
        in (db\<lparr>workload_clusters := workload_clusters db @ [row]\<rparr>, Inr row)))"

definition q_ListClustersByTenant :: "bytes16 \<Rightarrow> pg \<Rightarrow> pg \<times> WorkloadCluster list result" where
  "q_ListClustersByTenant tenantID = query (\<lambda>db.
     Inr (sort_key wc_CreatedAt
       (filter (\<lambda>c. wc_TenantID c = tenantID \<and> wc_DeregisteredAt c = None) (workload_clusters db))))"

text \<open>A comparison with a null threshold is not true; ascending order puts nulls last.\<close>

definition stale :: "int option \<Rightarrow> WorkloadCluster \<Rightarrow> bool" where
  "stale threshold c \<longleftrightarrow>
     wc_Status c \<notin> {''deregistered'', ''suspended''} \<and>
     (case wc_LastHeartbeat c of
        None \<Rightarrow> True
      | Some t \<Rightarrow> (case threshold of None \<Rightarrow> False | Some t' \<Rightarrow> t < t'))"

definition q_ListStaleClusters :: "int option \<Rightarrow> pg \<Rightarrow> pg \<times> WorkloadCluster list result" where
  "q_ListStaleClusters threshold = query (\<lambda>db.
     let rows = filter (stale threshold) (workload_clusters db) in
     Inr (sort_key (\<lambda>c. the (wc_LastHeartbeat c)) (filter (\<lambda>c. wc_LastHeartbeat c \<noteq> None) rows) @
          filter (\<lambda>c. wc_LastHeartbeat c = None) rows))"

definition q_UpdateClusterHeartbeat :: "bytes16 \<Rightarrow> pg \<Rightarrow> pg \<times> unit result" where
  "q_UpdateClusterHeartbeat i = statement (\<lambda>db.
     (db\<lparr>workload_clusters := update_where (\<lambda>c. wc_ID c = i)
        (\<lambda>c. c\<lparr>wc_LastHeartbeat := Some (pg_now db), wc_Status := ''healthy''\<rparr>)
        (workload_clusters db)\<rparr>, Inr ()))"

definition q_UpdateClusterStatus :: "bytes16 \<Rightarrow> string \<Rightarrow> pg \<Rightarrow> pg \<times> unit result" where
  "q_UpdateClusterStatus i status = statement (\<lambda>db.
     if cluster_exists i db \<and> status \<notin> set cluster_statuses then (db, Inl check_failed)
     else (db\<lparr>workload_clusters := update_where (\<lambda>c. wc_ID c = i)
                (\<lambda>c. c\<lparr>wc_Status := status\<rparr>) (workload_clusters db)\<rparr>, Inr ()))"

section \<open>quota.sql.go\<close>

text \<open>A UUID column is ordered by its bytes, the first one the most significant.\<close>

definition uuid_key :: "bytes16 \<Rightarrow> bytes16" where
  "uuid_key i = le_word (rev (le_bytes 16 i))"

definition q_GetAllQuotaSnapshots :: "pg \<Rightarrow> pg \<times> QuotaSnapshot list result" where
  "q_GetAllQuotaSnapshots = query (\<lambda>db.
     Inr (sort_key (uuid_key \<circ> sn_TenantID) (sort_key sn_ResourceType (quota_snapshots db))))"

definition q_GetGlobalTBAccount :: "string \<Rightarrow> string \<Rightarrow> pg \<Rightarrow> pg \<times> byte list result" where
  "q_GetGlobalTBAccount resourceType accountType = query (\<lambda>db.
     case find (\<lambda>g. tg_ResourceType g = resourceType \<and> tg_AccountType g = accountType)
            (tb_global_account_ids db) of
       None \<Rightarrow> Inl ErrNoRows | Some g \<Rightarrow> Inr (tg_TbAccountID g))"

definition q_GetGlobalTBAccounts :: "pg \<Rightarrow> pg \<times> TbGlobalAccountID list result" where
  "q_GetGlobalTBAccounts = query (\<lambda>db. Inr (tb_global_account_ids db))"

definition q_GetQuotaSnapshots :: "bytes16 \<Rightarrow> pg \<Rightarrow> pg \<times> QuotaSnapshot list result" where
  "q_GetQuotaSnapshots tenantID = query (\<lambda>db.
     Inr (filter (\<lambda>s. sn_TenantID s = tenantID) (quota_snapshots db)))"

definition q_GetTBAccountIDs :: "bytes16 \<Rightarrow> pg \<Rightarrow> pg \<times> TbAccountID list result" where
  "q_GetTBAccountIDs tenantID = query (\<lambda>db.
     Inr (filter (\<lambda>a. ta_TenantID a = tenantID) (tb_account_ids db)))"

definition q_InsertCreditAdjustment ::
    "bytes16 \<Rightarrow> string \<Rightarrow> int64 \<Rightarrow> string option \<Rightarrow> byte list \<Rightarrow> pg \<Rightarrow> pg \<times> unit result" where
  "q_InsertCreditAdjustment tenantID resourceType amount reason tbTransferID = statement (\<lambda>db.
     let i = pg_random db (pg_drawn db); db = db\<lparr>pg_drawn := Suc (pg_drawn db)\<rparr> in
     if i \<in> ca_ID ` set (credit_adjustments db) then (db, Inl duplicate_key)
     else if \<not> tenant_exists tenantID db then (db, Inl foreign_key)
     else
       (db\<lparr>credit_adjustments := credit_adjustments db @
             [\<lparr>ca_ID = i, ca_TenantID = tenantID, ca_ResourceType = resourceType, ca_Amount = amount,
               ca_Reason = reason, ca_TbTransferID = tbTransferID, ca_CreatedAt = pg_now db\<rparr>]\<rparr>,
        Inr ()))"

definition q_InsertGlobalTBAccount :: "string \<Rightarrow> string \<Rightarrow> byte list \<Rightarrow> pg \<Rightarrow> pg \<times> unit result" where
  "q_InsertGlobalTBAccount resourceType accountType tbAccountID = statement (\<lambda>db.
     if accountType \<notin> set global_account_types then (db, Inl check_failed)
     else if \<exists>g \<in> set (tb_global_account_ids db). tg_ResourceType g = resourceType \<and> tg_AccountType g = accountType
     then (db, Inr ())
     else
       (db\<lparr>tb_global_account_ids := tb_global_account_ids db @
             [\<lparr>tg_ResourceType = resourceType, tg_AccountType = accountType,
               tg_TbAccountID = tbAccountID, tg_CreatedAt = pg_now db\<rparr>]\<rparr>, Inr ()))"

definition q_InsertQuotaConfig ::
    "bytes16 \<Rightarrow> string \<Rightarrow> int64 \<Rightarrow> int64 option \<Rightarrow> pg \<Rightarrow> pg \<times> unit result" where
  "q_InsertQuotaConfig tenantID resourceType hardLimit softLimit = statement (\<lambda>db.
     if \<exists>c \<in> set (quota_configs db). qc_TenantID c = tenantID \<and> qc_ResourceType c = resourceType
     then (db, Inr ())
     else if \<not> tenant_exists tenantID db then (db, Inl foreign_key)
     else
       (db\<lparr>quota_configs := quota_configs db @
             [\<lparr>qc_TenantID = tenantID, qc_ResourceType = resourceType, qc_BasePlanID = None,
               qc_HardLimit = hardLimit, qc_SoftLimit = softLimit, qc_BurstCredits = 0,
               qc_BillingPeriod = ''monthly'', qc_SoftLimitAlertSent = False\<rparr>]\<rparr>, Inr ()))"

definition q_InsertTBAccountMapping ::
    "bytes16 \<Rightarrow> string \<Rightarrow> string \<Rightarrow> byte list \<Rightarrow> pg \<Rightarrow> pg \<times> unit result" where
  "q_InsertTBAccountMapping tenantID resourceType accountType tbAccountID = statement (\<lambda>db.
     if accountType \<notin> set account_types then (db, Inl check_failed)
     else if \<exists>a \<in> set (tb_account_ids db).
       ta_TenantID a = tenantID \<and> ta_ResourceType a = resourceType \<and> ta_AccountType a = accountType
     then (db, Inr ())
     else if \<not> tenant_exists tenantID db then (db, Inl foreign_key)
     else
       (db\<lparr>tb_account_ids := tb_account_ids db @
             [\<lparr>ta_TenantID = tenantID, ta_ResourceType = resourceType, ta_AccountType = accountType,
               ta_TbAccountID = tbAccountID, ta_CreatedAt = pg_now db\<rparr>]\<rparr>, Inr ()))"

definition q_ListCreditAdjustmentsByTenant :: "bytes16 \<Rightarrow> pg \<Rightarrow> pg \<times> CreditAdjustment list result" where
  "q_ListCreditAdjustmentsByTenant tenantID = query (\<lambda>db.
     Inr (sort_key (\<lambda>a. - ca_CreatedAt a)
       (filter (\<lambda>a. ca_TenantID a = tenantID) (credit_adjustments db))))"

definition q_ListQuotaConfigsByTenant :: "bytes16 \<Rightarrow> pg \<Rightarrow> pg \<times> QuotaConfig list result" where
  "q_ListQuotaConfigsByTenant tenantID = query (\<lambda>db.
     Inr (filter (\<lambda>c. qc_TenantID c = tenantID) (quota_configs db)))"

definition set_alert :: "bool \<Rightarrow> bytes16 \<Rightarrow> string \<Rightarrow> pg \<Rightarrow> pg" where
  "set_alert b tenantID resourceType db =
     db\<lparr>quota_configs := update_where (\<lambda>c. qc_TenantID c = tenantID \<and> qc_ResourceType c = resourceType)
          (\<lambda>c. c\<lparr>qc_SoftLimitAlertSent := b\<rparr>) (quota_configs db)\<rparr>"

definition q_MarkSoftLimitAlertSent :: "bytes16 \<Rightarrow> string \<Rightarrow> pg \<Rightarrow> pg \<times> unit result" where
  "q_MarkSoftLimitAlertSent tenantID resourceType =
     statement (\<lambda>db. (set_alert True tenantID resourceType db, Inr ()))"

definition q_ResetSoftLimitAlert :: "bytes16 \<Rightarrow> string \<Rightarrow> pg \<Rightarrow> pg \<times> unit result" where
  "q_ResetSoftLimitAlert tenantID resourceType =
     statement (\<lambda>db. (set_alert False tenantID resourceType db, Inr ()))"

text \<open>The generated column \<open>credits_total - debits_posted - debits_pending\<close>, over \<open>BIGINT\<close>.\<close>

definition bigint :: "int \<Rightarrow> int64 option" where
  "bigint i = (if - (2 ^ 63) \<le> i \<and> i < 2 ^ 63 then Some (word_of_int i) else None)"

definition available :: "int64 \<Rightarrow> int64 \<Rightarrow> int64 \<Rightarrow> int64 option" where
  "available creditsTotal debitsPosted debitsPending =
     (case bigint (sint creditsTotal - sint debitsPosted) of
        None \<Rightarrow> None
      | Some d \<Rightarrow> bigint (sint d - sint debitsPending))"

definition snapshot_key :: "bytes16 \<Rightarrow> string \<Rightarrow> QuotaSnapshot \<Rightarrow> bool" where
  "snapshot_key tenantID resourceType s \<longleftrightarrow> sn_TenantID s = tenantID \<and> sn_ResourceType s = resourceType"

definition upsert_snapshot ::
    "bytes16 \<Rightarrow> string \<Rightarrow> int64 \<Rightarrow> int64 \<Rightarrow> int64 \<Rightarrow> pg \<Rightarrow> pg \<times> unit result" where
  "upsert_snapshot tenantID resourceType creditsTotal debitsPosted debitsPending db =
     (case available creditsTotal debitsPosted debitsPending of
        None \<Rightarrow> (db, Inl out_of_range)
      | Some a \<Rightarrow>
          (let row = \<lparr>sn_TenantID = tenantID, sn_ResourceType = resourceType,
                      sn_CreditsTotal = creditsTotal, sn_DebitsPosted = debitsPosted,
                      sn_DebitsPending = debitsPending, sn_Available = Some a,
                      sn_SnapshotAt = pg_now db\<rparr>
           in
             if \<exists>s \<in> set (quota_snapshots db). snapshot_key tenantID resourceType s
             then (db\<lparr>quota_snapshots := update_where (snapshot_key tenantID resourceType)
                       (\<lambda>_. row) (quota_snapshots db)\<rparr>, Inr ())
             else if \<not> tenant_exists tenantID db then (db, Inl foreign_key)
             else (db\<lparr>quota_snapshots := quota_snapshots db @ [row]\<rparr>, Inr ())))"

definition q_UpsertQuotaSnapshot ::
    "bytes16 \<Rightarrow> string \<Rightarrow> int64 \<Rightarrow> int64 \<Rightarrow> int64 \<Rightarrow> pg \<Rightarrow> pg \<times> unit result" where
  "q_UpsertQuotaSnapshot tenantID resourceType creditsTotal debitsPosted debitsPending =
     statement (upsert_snapshot tenantID resourceType creditsTotal debitsPosted debitsPending)"

section \<open>The schema invariant\<close>

text \<open>Primary keys, \<open>CHECK\<close>s, foreign keys and the generated column, table by table.\<close>

definition tenants_ok :: "pg \<Rightarrow> bool" where
  "tenants_ok db \<longleftrightarrow> distinct (map t_ID (tenants db)) \<and>
     (\<forall>t \<in> set (tenants db). t_BillingTier t \<in> set billing_tiers \<and> t_Status t \<in> set tenant_statuses)"

definition clusters_ok :: "pg \<Rightarrow> bool" where
  "clusters_ok db \<longleftrightarrow> distinct (map wc_ID (workload_clusters db)) \<and>
     (\<forall>c \<in> set (workload_clusters db). wc_CloudProvider c \<in> set cloud_providers \<and>
        wc_Status c \<in> set cluster_statuses \<and> tenant_exists (wc_TenantID c) db)"

definition configs_ok :: "pg \<Rightarrow> bool" where
  "configs_ok db \<longleftrightarrow> distinct (map (\<lambda>c. (qc_TenantID c, qc_ResourceType c)) (quota_configs db)) \<and>
     (\<forall>c \<in> set (quota_configs db). tenant_exists (qc_TenantID c) db)"

definition mappings_ok :: "pg \<Rightarrow> bool" where
  "mappings_ok db \<longleftrightarrow>
     distinct (map (\<lambda>a. (ta_TenantID a, ta_ResourceType a, ta_AccountType a)) (tb_account_ids db)) \<and>
     (\<forall>a \<in> set (tb_account_ids db). ta_AccountType a \<in> set account_types \<and> tenant_exists (ta_TenantID a) db)"

definition globals_ok :: "pg \<Rightarrow> bool" where
  "globals_ok db \<longleftrightarrow>
     distinct (map (\<lambda>g. (tg_ResourceType g, tg_AccountType g)) (tb_global_account_ids db)) \<and>
     (\<forall>g \<in> set (tb_global_account_ids db). tg_AccountType g \<in> set global_account_types)"

definition available_ok :: "QuotaSnapshot \<Rightarrow> bool" where
  "available_ok s \<longleftrightarrow> sn_Available s \<noteq> None \<and>
     sn_Available s = available (sn_CreditsTotal s) (sn_DebitsPosted s) (sn_DebitsPending s)"

definition snapshots_ok :: "pg \<Rightarrow> bool" where
  "snapshots_ok db \<longleftrightarrow>
     distinct (map (\<lambda>s. (sn_TenantID s, sn_ResourceType s)) (quota_snapshots db)) \<and>
     (\<forall>s \<in> set (quota_snapshots db). tenant_exists (sn_TenantID s) db \<and> available_ok s)"

definition adjustments_ok :: "pg \<Rightarrow> bool" where
  "adjustments_ok db \<longleftrightarrow> distinct (map ca_ID (credit_adjustments db)) \<and>
     (\<forall>a \<in> set (credit_adjustments db). tenant_exists (ca_TenantID a) db)"

definition schema_ok :: "pg \<Rightarrow> bool" where
  "schema_ok db \<longleftrightarrow> tenants_ok db \<and> clusters_ok db \<and> configs_ok db \<and> mappings_ok db \<and>
     globals_ok db \<and> snapshots_ok db \<and> adjustments_ok db"

lemmas table_defs =
  tenants_ok_def clusters_ok_def configs_ok_def mappings_ok_def globals_ok_def snapshots_ok_def
  adjustments_ok_def tenant_exists_def

section \<open>Statements\<close>

named_theorems schema_kept \<open>statements and activities keep the schema invariant\<close>

lemma update_where_keys:
  "(\<And>r. p r \<Longrightarrow> k (f r) = k r) \<Longrightarrow> map k (update_where p f rows) = map k rows"
  by (simp add: update_where_def)

lemma update_where_set:
  "r \<in> set (update_where p f rows) \<longleftrightarrow> (\<exists>r' \<in> set rows. r = (if p r' then f r' else r'))"
  by (auto simp: update_where_def)

lemma schema_ok_script [simp]: "schema_ok (db\<lparr>pg_script := os\<rparr>) = schema_ok db"
  by (simp add: schema_ok_def table_defs)

lemma statement_cases:
  obtains (answered) os where "statement body db = body (db\<lparr>pg_script := os\<rparr>)"
  | (unreached) e os where "statement body db = (db\<lparr>pg_script := os\<rparr>, Inl e)"
  | (lost) e os where "statement body db = (fst (body (db\<lparr>pg_script := os\<rparr>)), Inl e)"
proof (cases "pg_script db")
  case Nil
  then have "db\<lparr>pg_script := []\<rparr> = db" by simp
  with Nil show ?thesis using answered [of "[]"] by (simp only: statement_def) simp
next
  case (Cons o' os)
  then show ?thesis
    using that by (cases o') (auto simp: statement_def)
qed

lemma statement_keeps:
  assumes "\<And>db. schema_ok db \<Longrightarrow> schema_ok (fst (body db))" and "schema_ok db"
  shows "schema_ok (fst (statement body db))"
  by (rule statement_cases [of body db]) (simp_all add: assms)

lemma query_keeps [schema_kept]: "schema_ok db \<Longrightarrow> schema_ok (fst (query body db))"
  unfolding query_def by (rule statement_keeps) simp_all

text \<open>With an empty script a statement is its body.\<close>

lemma statement_answered [simp]: "pg_script db = [] \<Longrightarrow> statement body db = body db"
  by (simp add: statement_def)

lemma query_answered [simp]: "pg_script db = [] \<Longrightarrow> query body db = (db, body db)"
  by (simp add: query_def)

lemma statement_invariant:
  assumes "\<And>db os. P db \<Longrightarrow> P (db\<lparr>pg_script := os\<rparr>)" "\<And>db. P db \<Longrightarrow> P (fst (body db))" "P db"
  shows "P (fst (statement body db))"
  by (rule statement_cases [of body db]) (simp_all add: assms)

lemma statement_Inr:
  assumes "statement body db = (db', Inr x)"
  obtains os where "body (db\<lparr>pg_script := os\<rparr>) = (db', Inr x)"
  using assms by (cases rule: statement_cases [of body db]) auto

lemma query_Inr:
  assumes "query body db = (db', Inr x)"
  obtains os where "db' = db\<lparr>pg_script := os\<rparr>" "body (db\<lparr>pg_script := os\<rparr>) = Inr x"
  using assms by (auto simp: query_def elim!: statement_Inr)

lemma statement_failing:
  assumes "\<And>os. \<exists>e. body (db\<lparr>pg_script := os\<rparr>) = (db\<lparr>pg_script := os\<rparr>, Inl e)"
  obtains os e where "statement body db = (db\<lparr>pg_script := os\<rparr>, Inl e)"
  by (rule statement_cases [of body db]) (use assms that in \<open>metis fst_conv\<close>)+

text \<open>What a statement does to a view is what its body does, unless it fails without effect.\<close>

lemma statement_effect:
  assumes "statement body db = (db', res)"
    and "\<And>db db' res. body db = (db', res) \<Longrightarrow> view db' = f (view db) \<or> isl res \<and> view db' = view db"
    and "\<And>db os. view (db\<lparr>pg_script := os\<rparr>) = view db"
  shows "view db' = f (view db) \<or> isl res \<and> view db' = view db"
proof (cases rule: statement_cases [of body db])
  case (answered os)
  then show ?thesis using assms(2) [of "db\<lparr>pg_script := os\<rparr>" db' res] assms(1,3) by simp
next
  case (unreached e os)
  then show ?thesis using assms(1,3) by auto
next
  case (lost e os)
  then show ?thesis
    using assms(2) [of "db\<lparr>pg_script := os\<rparr>" db' "snd (body (db\<lparr>pg_script := os\<rparr>))"] assms(1,3)
    by (auto simp: prod_eq_iff)
qed

lemma statement_frame:
  assumes "\<And>db. view (fst (body db)) = view db" and "\<And>db os. view (db\<lparr>pg_script := os\<rparr>) = view db"
  shows "view (fst (statement body db)) = view db"
  by (rule statement_cases [of body db]) (simp_all add: assms)

section \<open>Every statement keeps the schema\<close>

lemma tenant_exists_iff: "tenant_exists i db \<longleftrightarrow> i \<in> set (map t_ID (tenants db))"
  by (auto simp: tenant_exists_def)

lemma tenant_exists_update:
  "(\<And>t. p t \<Longrightarrow> t_ID (f t) = t_ID t) \<Longrightarrow>
     tenant_exists i (db\<lparr>tenants := update_where p f (tenants db)\<rparr>) = tenant_exists i db"
  by (simp only: tenant_exists_iff) (simp add: update_where_keys del: set_map)

lemma tenants_update_ok:
  assumes "\<And>t. p t \<Longrightarrow> t_ID (f t) = t_ID t \<and> t_BillingTier (f t) = t_BillingTier t"
    and "\<And>t. t \<in> set (tenants db) \<Longrightarrow> p t \<Longrightarrow> t_Status (f t) \<in> set tenant_statuses" and "schema_ok db"
  shows "schema_ok (db\<lparr>tenants := update_where p f (tenants db)\<rparr>)"
proof -
  let ?db = "db\<lparr>tenants := update_where p f (tenants db)\<rparr>"
  have ex: "tenant_exists i ?db = tenant_exists i db" for i
    by (rule tenant_exists_update) (simp add: assms(1))
  have "tenants_ok ?db"
    using assms by (auto simp: schema_ok_def tenants_ok_def update_where_keys update_where_set)
  then show ?thesis
    using assms(3) by (simp add: schema_ok_def clusters_ok_def configs_ok_def mappings_ok_def
        globals_ok_def snapshots_ok_def adjustments_ok_def ex)
qed

lemma clusters_update_ok:
  assumes "\<And>c. p c \<Longrightarrow> wc_ID (f c) = wc_ID c \<and> wc_CloudProvider (f c) = wc_CloudProvider c \<and>
      wc_TenantID (f c) = wc_TenantID c"
    and "\<And>c. c \<in> set (workload_clusters db) \<Longrightarrow> p c \<Longrightarrow> wc_Status (f c) \<in> set cluster_statuses"
    and "schema_ok db"
  shows "schema_ok (db\<lparr>workload_clusters := update_where p f (workload_clusters db)\<rparr>)"
  using assms by (auto simp: schema_ok_def table_defs update_where_keys update_where_set)

lemma q_DeleteTenant_keeps [schema_kept]: "schema_ok db \<Longrightarrow> schema_ok (fst (q_DeleteTenant i db))"
  unfolding q_DeleteTenant_def
  by (rule statement_keeps) (auto intro!: tenants_update_ok simp: tenant_statuses_def)

lemma q_InsertTenant_keeps [schema_kept]: "schema_ok db \<Longrightarrow> schema_ok (fst (q_InsertTenant i n b db))"
  unfolding q_InsertTenant_def
  by (rule statement_keeps) (auto simp: schema_ok_def table_defs Let_def tenant_statuses_def)

lemma q_UpdateTenantStatus_keeps [schema_kept]:
  "schema_ok db \<Longrightarrow> schema_ok (fst (q_UpdateTenantStatus i s db))"
  unfolding q_UpdateTenantStatus_def
  by (rule statement_keeps) (auto intro!: tenants_update_ok simp: tenant_exists_def)

lemma q_DeregisterCluster_keeps [schema_kept]:
  "schema_ok db \<Longrightarrow> schema_ok (fst (q_DeregisterCluster i db))"
  unfolding q_DeregisterCluster_def
  by (rule statement_keeps) (auto intro!: clusters_update_ok simp: cluster_statuses_def)

lemma q_UpdateClusterHeartbeat_keeps [schema_kept]:
  "schema_ok db \<Longrightarrow> schema_ok (fst (q_UpdateClusterHeartbeat i db))"
  unfolding q_UpdateClusterHeartbeat_def
  by (rule statement_keeps) (auto intro!: clusters_update_ok simp: cluster_statuses_def)

lemma q_UpdateClusterStatus_keeps [schema_kept]:
  "schema_ok db \<Longrightarrow> schema_ok (fst (q_UpdateClusterStatus i s db))"
  unfolding q_UpdateClusterStatus_def
  by (rule statement_keeps) (auto intro!: clusters_update_ok simp: cluster_exists_def)

lemma q_InsertCluster_keeps [schema_kept]:
  "schema_ok db \<Longrightarrow> schema_ok (fst (q_InsertCluster i t c r db))"
  unfolding q_InsertCluster_def
  by (rule statement_keeps)
    (auto simp: schema_ok_def table_defs cluster_exists_def Let_def cluster_statuses_def)

lemma q_InsertCreditAdjustment_keeps [schema_kept]:
  "schema_ok db \<Longrightarrow> schema_ok (fst (q_InsertCreditAdjustment t r a why i db))"
  unfolding q_InsertCreditAdjustment_def
  by (rule statement_keeps) (auto simp: schema_ok_def table_defs Let_def)

lemma q_InsertGlobalTBAccount_keeps [schema_kept]:
  "schema_ok db \<Longrightarrow> schema_ok (fst (q_InsertGlobalTBAccount r a i db))"
  unfolding q_InsertGlobalTBAccount_def
  by (rule statement_keeps) (auto simp: schema_ok_def table_defs)

lemma q_InsertQuotaConfig_keeps [schema_kept]:
  "schema_ok db \<Longrightarrow> schema_ok (fst (q_InsertQuotaConfig t r h l db))"
  unfolding q_InsertQuotaConfig_def
  by (rule statement_keeps) (auto simp: schema_ok_def table_defs)

lemma q_InsertTBAccountMapping_keeps [schema_kept]:
  "schema_ok db \<Longrightarrow> schema_ok (fst (q_InsertTBAccountMapping t r a i db))"
  unfolding q_InsertTBAccountMapping_def
  by (rule statement_keeps) (auto simp: schema_ok_def table_defs)

lemma set_alert_keeps: "schema_ok db \<Longrightarrow> schema_ok (set_alert b t r db)"
  by (auto simp: schema_ok_def table_defs set_alert_def update_where_keys update_where_set)

lemma q_MarkSoftLimitAlertSent_keeps [schema_kept]:
  "schema_ok db \<Longrightarrow> schema_ok (fst (q_MarkSoftLimitAlertSent t r db))"
  unfolding q_MarkSoftLimitAlertSent_def by (rule statement_keeps) (simp_all add: set_alert_keeps)

lemma q_ResetSoftLimitAlert_keeps [schema_kept]:
  "schema_ok db \<Longrightarrow> schema_ok (fst (q_ResetSoftLimitAlert t r db))"
  unfolding q_ResetSoftLimitAlert_def by (rule statement_keeps) (simp_all add: set_alert_keeps)

lemma tenant_exists_snapshots [simp]:
  "tenant_exists t (db\<lparr>quota_snapshots := rows\<rparr>) = tenant_exists t db"
  by (simp add: tenant_exists_def)

lemma snapshots_only:
  "schema_ok db \<Longrightarrow> snapshots_ok (db\<lparr>quota_snapshots := rows\<rparr>) \<Longrightarrow> schema_ok (db\<lparr>quota_snapshots := rows\<rparr>)"
  by (simp add: schema_ok_def table_defs)

lemma snapshots_update_ok:
  assumes "schema_ok db" and "tenant_exists t db" and "available_ok row"
    and "sn_TenantID row = t" and "sn_ResourceType row = r"
  shows "schema_ok (db\<lparr>quota_snapshots := update_where (snapshot_key t r) (\<lambda>_. row) (quota_snapshots db)\<rparr>)"
    and "\<not> (\<exists>s \<in> set (quota_snapshots db). snapshot_key t r s) \<Longrightarrow>
      schema_ok (db\<lparr>quota_snapshots := quota_snapshots db @ [row]\<rparr>)"
proof -
  have ok: "snapshots_ok db" using assms(1) by (simp add: schema_ok_def)
  have keys: "map (\<lambda>s. (sn_TenantID s, sn_ResourceType s))
      (update_where (snapshot_key t r) (\<lambda>_. row) (quota_snapshots db)) =
      map (\<lambda>s. (sn_TenantID s, sn_ResourceType s)) (quota_snapshots db)"
    using assms(4,5) by (auto simp: update_where_def snapshot_key_def)
  show "schema_ok (db\<lparr>quota_snapshots := update_where (snapshot_key t r) (\<lambda>_. row) (quota_snapshots db)\<rparr>)"
    using ok assms(2-4)
    by (intro snapshots_only [OF assms(1)]) (auto simp: snapshots_ok_def keys update_where_set)
  show "schema_ok (db\<lparr>quota_snapshots := quota_snapshots db @ [row]\<rparr>)"
    if "\<not> (\<exists>s \<in> set (quota_snapshots db). snapshot_key t r s)"
    using ok assms(2-5) that
    by (intro snapshots_only [OF assms(1)]) (auto simp: snapshots_ok_def snapshot_key_def)
qed

lemma q_UpsertQuotaSnapshot_keeps [schema_kept]:
  "schema_ok db \<Longrightarrow> schema_ok (fst (q_UpsertQuotaSnapshot t r c p q db))"
  unfolding q_UpsertQuotaSnapshot_def
proof (rule statement_keeps, goal_cases)
  case (1 db)
  have "tenant_exists t db" if "s \<in> set (quota_snapshots db)" "snapshot_key t r s" for s
    using 1 that by (auto simp: schema_ok_def snapshots_ok_def snapshot_key_def)
  then show ?case
    using 1 by (auto simp: Let_def available_ok_def upsert_snapshot_def intro!: snapshots_update_ok split: option.split)
qed

end
