(* ===== verification/Domain_Model.thy ===== *)
theory Domain_Model
  imports Credit_Prelude
begin

text \<open>
  Package \<open>internal/domain\<close>: resource types and their TigerBeetle ledgers, account
  codes and transfer codes.  The Go types are open string and integer types, so the model
  keeps strings and words, and the two panicking conversions return an error value on the
  strings they panic on.
\<close>

section \<open>Resource types (resource.go)\<close>

type_synonym ResourceType = string

definition ResourceCPUHours :: ResourceType where
  "ResourceCPUHours = ''cpu_hours''"

definition ResourceMemoryGBHours :: ResourceType where
  "ResourceMemoryGBHours = ''memory_gb_hours''"

definition ResourceActiveNodes :: ResourceType where
  "ResourceActiveNodes = ''active_nodes''"

definition AllResources :: "ResourceType list" where
  "AllResources = [ResourceCPUHours, ResourceMemoryGBHours, ResourceActiveNodes]"

definition LedgerID :: "ResourceType \<Rightarrow> uint32 result" where
  "LedgerID r =
     (if r = ResourceCPUHours then Inr 1
      else if r = ResourceMemoryGBHours then Inr 2
      else if r = ResourceActiveNodes then Inr 3
      else Inl (ErrPanic (''unknown resource type: '' @ r)))"

definition IsGauge :: "ResourceType \<Rightarrow> bool" where
  "IsGauge r \<longleftrightarrow> r = ResourceActiveNodes"

text \<open>The loop over \<^const>\<open>AllResources\<close> returns the first resource with this ledger.\<close>

fun first_with_ledger :: "uint32 \<Rightarrow> ResourceType list \<Rightarrow> ResourceType option" where
  "first_with_ledger l [] = None"
| "first_with_ledger l (r # rs) =
     (if LedgerID r = Inr l then Some r else first_with_ledger l rs)"

definition ResourceTypeFromLedger :: "uint32 \<Rightarrow> ResourceType option" where
  "ResourceTypeFromLedger l = first_with_ledger l AllResources"

section \<open>Account codes (account\_codes.go)\<close>

type_synonym AccountCode = uint16
type_synonym AccountType = string

definition AccountCodeOperator :: AccountCode where "AccountCodeOperator = 1"
definition AccountCodeTenantQuota :: AccountCode where "AccountCodeTenantQuota = 2"
definition AccountCodeSink :: AccountCode where "AccountCodeSink = 3"

definition AccountTypeOperator :: AccountType where "AccountTypeOperator = ''operator''"
definition AccountTypeTenantQuota :: AccountType where "AccountTypeTenantQuota = ''tenant_quota''"
definition AccountTypeSink :: AccountType where "AccountTypeSink = ''sink''"

definition AccountCodeFromType :: "AccountType \<Rightarrow> AccountCode result" where
  "AccountCodeFromType t =
     (if t = AccountTypeOperator then Inr AccountCodeOperator
      else if t = AccountTypeTenantQuota then Inr AccountCodeTenantQuota
      else if t = AccountTypeSink then Inr AccountCodeSink
      else Inl (ErrPanic (''unknown account type: '' @ t)))"

section \<open>Transfer codes (transfer\_codes.go)\<close>

type_synonym TransferCode = uint16

definition CodeQuotaAllocation :: TransferCode where "CodeQuotaAllocation = 100"
definition CodeQuotaAdjustment :: TransferCode where "CodeQuotaAdjustment = 101"
definition CodeSurgePackCredit :: TransferCode where "CodeSurgePackCredit = 102"
definition CodeUsageRecord :: TransferCode where "CodeUsageRecord = 200"
definition CodeUsageCorrection :: TransferCode where "CodeUsageCorrection = 201"
definition CodeGaugeReservation :: TransferCode where "CodeGaugeReservation = 202"
definition CodePeriodClose :: TransferCode where "CodePeriodClose = 300"

lemmas resource_names = ResourceCPUHours_def ResourceMemoryGBHours_def ResourceActiveNodes_def
lemmas account_type_names = AccountTypeOperator_def AccountTypeTenantQuota_def AccountTypeSink_def
lemmas account_code_values =
  AccountCodeOperator_def AccountCodeTenantQuota_def AccountCodeSink_def
lemmas transfer_code_values =
  CodeQuotaAllocation_def CodeQuotaAdjustment_def CodeSurgePackCredit_def CodeUsageRecord_def
  CodeUsageCorrection_def CodeGaugeReservation_def CodePeriodClose_def

section \<open>Lemmas\<close>

lemma distinct_AllResources [simp]: "distinct AllResources"
  by (simp add: AllResources_def resource_names)

lemma AllResources_iff:
  "r \<in> set AllResources \<longleftrightarrow>
     r = ResourceCPUHours \<or> r = ResourceMemoryGBHours \<or> r = ResourceActiveNodes"
  by (auto simp: AllResources_def)

lemma LedgerID_known [simp]:
  "LedgerID ResourceCPUHours = Inr 1"
  "LedgerID ResourceMemoryGBHours = Inr 2"
  "LedgerID ResourceActiveNodes = Inr 3"
  by (simp_all add: LedgerID_def resource_names)

lemma LedgerID_defined_iff: "(\<exists>l. LedgerID r = Inr l) \<longleftrightarrow> r \<in> set AllResources"
  by (auto simp: LedgerID_def AllResources_iff)

lemma LedgerID_inject:
  "LedgerID r = Inr l \<Longrightarrow> LedgerID r' = Inr l \<Longrightarrow> r = r'"
  by (auto simp: LedgerID_def split: if_splits)

lemma first_with_ledger_Some_iff:
  "distinct rs \<Longrightarrow> first_with_ledger l rs = Some r \<longleftrightarrow> r \<in> set rs \<and> LedgerID r = Inr l"
  by (induction rs) (auto dest: LedgerID_inject)

lemma gauge_filter [simp]:
  "filter IsGauge AllResources = [ResourceActiveNodes]"
  "filter (\<lambda>r. \<not> IsGauge r) AllResources = [ResourceCPUHours, ResourceMemoryGBHours]"
  by (simp_all add: AllResources_def IsGauge_def resource_names)

section \<open>Properties\<close>

text \<open>
  The map between resource types and ledger numbers is a bijection on the known
  resources: \<open>ResourceTypeFromLedger\<close> answers a resource exactly when that resource's
  \<open>LedgerID\<close> is the ledger asked for, and \<open>LedgerID\<close> panics on every other string.
\<close>

lemma ledger_roundtrip:
  "(ResourceTypeFromLedger l = Some r \<longleftrightarrow> LedgerID r = Inr l) \<and>
   ((\<exists>l'. LedgerID r = Inr l') \<longleftrightarrow> r \<in> set AllResources)"
  unfolding ResourceTypeFromLedger_def
  by (simp add: first_with_ledger_Some_iff LedgerID_defined_iff)
     (metis LedgerID_defined_iff)

end
