(* ===== verification/Ledger_Ids.thy ===== *)
theory Ledger_Ids
  imports Domain_Model
begin

text \<open>
  \<open>internal/ledger/ids.go\<close>: the deterministic transfer identifiers.  The BLAKE3 hash is
  third-party code and a parameter \<open>H\<close> (bytes to a 32-byte digest); what the code relies on
  is \<open>collision_free\<close>.  The locale \<open>id_encoding\<close> states what a byte encoding of keys must
  promise (injectivity) and carries the proof that derived identifiers then never clash;
  \<open>id_layout\<close> adds a fixed width.  The four layouts interpret \<open>id_layout\<close>, and their
  union over all key kinds interprets \<open>id_encoding\<close>.
\<close>

type_synonym hash = "byte list \<Rightarrow> byte list"

section \<open>Conversions\<close>

definition bytesToUint128 :: "byte list \<Rightarrow> bytes16" where
  "bytesToUint128 b = le_word (take 16 b)"

definition UUIDToUint128 :: "bytes16 \<Rightarrow> bytes16" where
  "UUIDToUint128 uuid = bytesToUint128 (le_bytes 16 uuid)"

definition Uint128ToBytes :: "bytes16 \<Rightarrow> bytes16" where
  "Uint128ToBytes i = i"

text \<open>\<open>uint128Lo\<close> (accounts.go) reads bytes 0..7 as a little-endian 64-bit integer.\<close>

definition uint128Lo :: "bytes16 \<Rightarrow> uint64" where
  "uint128Lo v = le_word (take 8 (le_bytes 16 v))"

section \<open>Byte layouts\<close>

definition go_bytes :: "string \<Rightarrow> byte list" where
  "go_bytes s = map of_char s"

definition transfer_msg :: "bytes16 \<Rightarrow> uint64 \<Rightarrow> uint32 \<Rightarrow> byte list" where
  "transfer_msg clusterID sq ledgerID =
     le_bytes 16 clusterID @ le_bytes 8 sq @ le_bytes 4 ledgerID"

definition alloc_msg :: "bytes16 \<Rightarrow> uint64 \<Rightarrow> uint32 \<Rightarrow> byte list" where
  "alloc_msg tenantUUID seqNo ledgerID =
     go_bytes ''alloc'' @ le_bytes 16 tenantUUID @ le_bytes 8 seqNo @ le_bytes 4 ledgerID"

definition gauge_pending_msg :: "bytes16 \<Rightarrow> uint64 \<Rightarrow> bytes16 \<Rightarrow> uint32 \<Rightarrow> byte list" where
  "gauge_pending_msg tenantUUID seqNo clusterUUID ledgerID =
     go_bytes ''gauge-pending'' @ le_bytes 16 tenantUUID @ le_bytes 8 seqNo @
     le_bytes 16 clusterUUID @ le_bytes 4 ledgerID"

definition gauge_void_msg :: "bytes16 \<Rightarrow> uint64 \<Rightarrow> bytes16 \<Rightarrow> uint32 \<Rightarrow> byte list" where
  "gauge_void_msg tenantUUID seqNo clusterUUID ledgerID =
     go_bytes ''gauge-void'' @ le_bytes 16 tenantUUID @ le_bytes 8 seqNo @
     le_bytes 16 clusterUUID @ le_bytes 4 ledgerID"

section \<open>The four derivations\<close>

definition DeriveTransferID :: "hash \<Rightarrow> bytes16 \<Rightarrow> uint64 \<Rightarrow> uint32 \<Rightarrow> bytes16" where
  "DeriveTransferID H clusterID sq ledgerID =
     bytesToUint128 (take 16 (H (transfer_msg clusterID sq ledgerID)))"

definition DeriveAllocationTransferID :: "hash \<Rightarrow> bytes16 \<Rightarrow> uint64 \<Rightarrow> uint32 \<Rightarrow> bytes16" where
  "DeriveAllocationTransferID H tenantUUID seqNo ledgerID =
     bytesToUint128 (take 16 (H (alloc_msg tenantUUID seqNo ledgerID)))"

definition DeriveGaugePendingID ::
    "hash \<Rightarrow> bytes16 \<Rightarrow> uint64 \<Rightarrow> bytes16 \<Rightarrow> uint32 \<Rightarrow> bytes16" where
  "DeriveGaugePendingID H tenantUUID seqNo clusterUUID ledgerID =
     bytesToUint128 (take 16 (H (gauge_pending_msg tenantUUID seqNo clusterUUID ledgerID)))"

definition DeriveGaugeVoidID ::
    "hash \<Rightarrow> bytes16 \<Rightarrow> uint64 \<Rightarrow> bytes16 \<Rightarrow> uint32 \<Rightarrow> bytes16" where
  "DeriveGaugeVoidID H tenantUUID seqNo clusterUUID ledgerID =
     bytesToUint128 (take 16 (H (gauge_void_msg tenantUUID seqNo clusterUUID ledgerID)))"

text \<open>The inputs of the four derivations as one type, for statements across them.\<close>

datatype id_key =
    UsageKey bytes16 uint64 uint32
  | AllocKey bytes16 uint64 uint32
  | GaugePendingKey bytes16 uint64 bytes16 uint32
  | GaugeVoidKey bytes16 uint64 bytes16 uint32

fun id_msg :: "id_key \<Rightarrow> byte list" where
  "id_msg (UsageKey c s l) = transfer_msg c s l"
| "id_msg (AllocKey t s l) = alloc_msg t s l"
| "id_msg (GaugePendingKey t s c l) = gauge_pending_msg t s c l"
| "id_msg (GaugeVoidKey t s c l) = gauge_void_msg t s c l"

fun derive_id :: "hash \<Rightarrow> id_key \<Rightarrow> bytes16" where
  "derive_id H (UsageKey c s l) = DeriveTransferID H c s l"
| "derive_id H (AllocKey t s l) = DeriveAllocationTransferID H t s l"
| "derive_id H (GaugePendingKey t s c l) = DeriveGaugePendingID H t s c l"
| "derive_id H (GaugeVoidKey t s c l) = DeriveGaugeVoidID H t s c l"

text \<open>
  What the code relies on of the hash: 32-byte digests, and no two of the messages in play
  agree on the 16 bytes the code keeps.
\<close>

definition collision_free :: "hash \<Rightarrow> byte list set \<Rightarrow> bool" where
  "collision_free H S \<longleftrightarrow>
     (\<forall>m \<in> S. length (H m) = 32) \<and> (\<forall>m \<in> S. \<forall>m' \<in> S. take 16 (H m) = take 16 (H m') \<longrightarrow> m = m')"

section \<open>The interface of a layout\<close>

locale id_encoding =
  fixes msg :: "'k \<Rightarrow> byte list"
  assumes msg_inject: "msg k = msg k' \<Longrightarrow> k = k'"
begin

lemma derived_inject:
  assumes "collision_free H S" "msg k \<in> S" "msg k' \<in> S"
    and eq: "bytesToUint128 (take 16 (H (msg k))) = bytesToUint128 (take 16 (H (msg k')))"
  shows "k = k'"
proof -
  have len: "length (take 16 (H (msg k))) = 16" "length (take 16 (H (msg k'))) = 16"
    using assms(1-3) by (auto simp: collision_free_def)
  have "take 16 (H (msg k)) = take 16 (H (msg k'))"
    using eq len le_word_inject [where n = 16 and 'a = 128]
    by (simp add: bytesToUint128_def)
  then show ?thesis
    using assms(1-3) msg_inject by (auto simp: collision_free_def)
qed

end

locale id_layout = id_encoding msg for msg :: "'k \<Rightarrow> byte list" +
  fixes width :: nat
  assumes msg_width: "length (msg k) = width"
begin

lemma other_width_differs: "length m \<noteq> width \<Longrightarrow> m \<noteq> msg k"
  using msg_width by auto

end

lemma le_bytes16_inject [simp]: "le_bytes 16 (v :: bytes16) = le_bytes 16 w \<longleftrightarrow> v = w"
  by (auto intro: le_bytes_inject)

lemma le_bytes8_inject [simp]: "le_bytes 8 (v :: uint64) = le_bytes 8 w \<longleftrightarrow> v = w"
  by (auto intro: le_bytes_inject)

lemma le_bytes4_inject [simp]: "le_bytes 4 (v :: uint32) = le_bytes 4 w \<longleftrightarrow> v = w"
  by (auto intro: le_bytes_inject)

lemmas msg_defs = transfer_msg_def alloc_msg_def gauge_pending_msg_def gauge_void_msg_def

lemma length_go_bytes [simp]: "length (go_bytes s) = length s"
  by (simp add: go_bytes_def)

interpretation usage_ids: id_layout "\<lambda>(c, s, l). transfer_msg c s l" 28
  by unfold_locales (auto simp: msg_defs)

interpretation alloc_ids: id_layout "\<lambda>(t, s, l). alloc_msg t s l" 33
  by unfold_locales (auto simp: msg_defs)

interpretation gauge_pending_ids: id_layout "\<lambda>(t, s, c, l). gauge_pending_msg t s c l" 57
  by unfold_locales (auto simp: msg_defs)

interpretation gauge_void_ids: id_layout "\<lambda>(t, s, c, l). gauge_void_msg t s c l" 54
  by unfold_locales (auto simp: msg_defs)

text \<open>The four layouts together are again a layout once the kind is part of the key: the
  four widths 28, 33, 57 and 54 differ.\<close>

lemma id_msg_length:
  "length (transfer_msg c s l) = 28"
  "length (alloc_msg t s l) = 33"
  "length (gauge_pending_msg t s c l) = 57"
  "length (gauge_void_msg t s c l) = 54"
  by (simp_all add: msg_defs)

lemma id_msg_inject: "id_msg k = id_msg k' \<Longrightarrow> k = k'"
  by (cases k; cases k')
     (auto dest: arg_cong [where f = length] simp: id_msg_length
       dest!: usage_ids.msg_inject [of "(_, _, _)" "(_, _, _)", simplified]
         alloc_ids.msg_inject [of "(_, _, _)" "(_, _, _)", simplified]
         gauge_pending_ids.msg_inject [of "(_, _, _, _)" "(_, _, _, _)", simplified]
         gauge_void_ids.msg_inject [of "(_, _, _, _)" "(_, _, _, _)", simplified])

interpretation all_ids: id_encoding id_msg
  by unfold_locales (rule id_msg_inject)

lemma derive_id_msg: "derive_id H k = bytesToUint128 (take 16 (H (id_msg k)))"
  by (cases k) (simp_all add: DeriveTransferID_def DeriveAllocationTransferID_def
      DeriveGaugePendingID_def DeriveGaugeVoidID_def)

lemma UUIDToUint128_id [simp]: "UUIDToUint128 b = b"
  by (simp add: UUIDToUint128_def bytesToUint128_def le_word_le_bytes)

lemma le_bytes_take: "m \<le> n \<Longrightarrow> take m (le_bytes n w) = le_bytes m w"
  by (simp add: le_bytes_def take_map)

lemma le_word_le_bytes_ucast: "le_word (le_bytes 8 (v :: bytes16)) = (ucast v :: uint64)"
proof (rule bit_word_eqI)
  fix i assume i: "i < LENGTH(64)"
  then have "i div 8 < 8" by simp
  with i show "bit (le_word (le_bytes 8 v) :: uint64) i = bit (ucast v :: uint64) i"
    by (simp add: bit_le_word nth_le_bytes bit_simps)
qed

lemma uint128Lo_ucast: "uint128Lo v = ucast v"
  by (simp add: uint128Lo_def le_bytes_take le_word_le_bytes_ucast)

section \<open>Properties\<close>

text \<open>
  C35. Transfer identifiers separate events: over all four derivations, two identifiers agree
  only when the kind of event and every one of its inputs (cluster or tenant, sequence
  number, ledger) agree, provided the hash has no collision among the messages in play.
\<close>

theorem transfer_ids_separate:
  assumes "collision_free H S" "id_msg k \<in> S" "id_msg k' \<in> S"
  shows "derive_id H k = derive_id H k' \<longleftrightarrow> k = k'"
  using all_ids.derived_inject [OF assms] by (auto simp: derive_id_msg)

definition demo_hash :: hash where
  "demo_hash m = take 32 (drop (length m - 20) m @ replicate 32 0)"

theorem transfer_ids_separate_witness:
  "collision_free demo_hash {id_msg (UsageKey 7 1 1), id_msg (UsageKey 7 2 1)} \<and>
   derive_id demo_hash (UsageKey 7 1 1) \<noteq> derive_id demo_hash (UsageKey 7 2 1)"
proof -
  have cf: "collision_free demo_hash {id_msg (UsageKey 7 1 1), id_msg (UsageKey 7 2 1)}"
    by code_simp
  show ?thesis
    using cf transfer_ids_separate [OF cf, of "UsageKey 7 1 1" "UsageKey 7 2 1"] by simp
qed

text \<open>
  Conversions between byte arrays and TigerBeetle's 128-bit values lose nothing:
  \<open>UUIDToUint128\<close> and \<open>Uint128ToBytes\<close> are inverse to each other, and \<open>uint128Lo\<close> recovers
  every amount below \<open>2^64\<close> exactly (and only its low 64 bits above that).
\<close>

lemma uint128_roundtrip:
  "Uint128ToBytes (UUIDToUint128 b) = b \<and> UUIDToUint128 (Uint128ToBytes b) = b \<and>
   unat (uint128Lo b) = unat b mod 2 ^ 64"
  by (simp add: Uint128ToBytes_def uint128Lo_ucast unsigned_ucast_eq take_bit_word_eq_self unsigned_take_bit_eq take_bit_eq_mod)

end
