(* ===== verification/TB_Client.thy ===== *)
theory TB_Client
  imports Ledger_Ids
begin

text \<open>
  The TigerBeetle client as the source sees it.  TigerBeetle is a third-party service, so
  its calls are a parameter (\<open>tb_client\<close>, over an abstract service state \<open>'tb\<close>), and what the
  code relies on is stated as named laws over a view of that state (\<open>tb_view\<close>): the accounts,
  the committed transfers, the identifiers burnt by a transient failure, and what the service
  does with one event.  Nothing here defines TigerBeetle; theory \<open>Reference_Ledger\<close> shows that
  the laws can hold together.
\<close>

section \<open>Wire types of tigerbeetle-go\<close>

record AccountFlags =
  DebitsMustNotExceedCredits :: bool
  History :: bool

record Account =
  acc_ID :: bytes16
  DebitsPending :: bytes16
  DebitsPosted :: bytes16
  CreditsPending :: bytes16
  CreditsPosted :: bytes16
  acc_UserData128 :: bytes16
  acc_Ledger :: uint32
  acc_Code :: uint16
  acc_Flags :: AccountFlags

record TransferFlags =
  Pending :: bool
  VoidPendingTransfer :: bool

record Transfer =
  tr_ID :: bytes16
  DebitAccountID :: bytes16
  CreditAccountID :: bytes16
  Amount :: bytes16
  PendingID :: bytes16
  tr_UserData128 :: bytes16
  UserData64 :: uint64
  tr_Ledger :: uint32
  tr_Code :: uint16
  tr_Flags :: TransferFlags

datatype CreateAccountResult = AccountOK | AccountExists | AccountFailed nat

datatype CreateTransferResult =
    TransferOK
  | TransferExceedsCredits
  | TransferExists
  | TransferExistsWithDifferentDebitAccountID
  | TransferExistsWithDifferentCreditAccountID
  | TransferExistsWithDifferentAmount
  | TransferExistsWithDifferentUserData64
  | TransferPendingTransferNotFound
  | TransferPendingTransferAlreadyVoided
  | TransferPendingTransferAlreadyPosted
  | TransferIDAlreadyFailed
  | TransferFailed nat

text \<open>Event results carry the index of the event in the batch; successes are not listed.\<close>

type_synonym 'r event_results = "(nat \<times> 'r) list"

record 'tb tb_client =
  CreateAccounts :: "'tb \<Rightarrow> Account list \<Rightarrow> 'tb \<times> CreateAccountResult event_results result"
  CreateTransfers :: "'tb \<Rightarrow> Transfer list \<Rightarrow> 'tb \<times> CreateTransferResult event_results result"
  LookupAccounts :: "'tb \<Rightarrow> bytes16 list \<Rightarrow> Account list result"
  types_ID :: "'tb \<Rightarrow> 'tb \<times> bytes16"

definition no_account_flags :: AccountFlags where
  "no_account_flags = \<lparr>DebitsMustNotExceedCredits = False, History = False\<rparr>"

definition no_transfer_flags :: TransferFlags where
  "no_transfer_flags = \<lparr>Pending = False, VoidPendingTransfer = False\<rparr>"

text \<open>\<open>RandomID\<close> (ids.go) is the client library's time-ordered generator.\<close>

definition RandomID :: "'tb tb_client \<Rightarrow> 'tb \<Rightarrow> 'tb \<times> bytes16" where
  "RandomID c s = types_ID c s"

section \<open>The documented behaviour the code relies on\<close>

record 'tb tb_view =
  acct :: "'tb \<Rightarrow> bytes16 \<Rightarrow> Account option"
  committed :: "'tb \<Rightarrow> bytes16 \<Rightarrow> Transfer option"
  voided :: "'tb \<Rightarrow> bytes16 \<Rightarrow> bool"
  burnt :: "'tb \<Rightarrow> bytes16 \<Rightarrow> bool"
  commit :: "'tb \<Rightarrow> Transfer \<Rightarrow> 'tb \<times> CreateTransferResult"

text \<open>A batch is its events one after the other; only failures are reported, by index.\<close>

fun run_events ::
    "('tb \<Rightarrow> Transfer \<Rightarrow> 'tb \<times> CreateTransferResult) \<Rightarrow> nat \<Rightarrow> 'tb \<Rightarrow> Transfer list \<Rightarrow>
     'tb \<times> CreateTransferResult event_results" where
  "run_events f i s [] = (s, [])"
| "run_events f i s (t # ts) =
     (case f s t of (s1, r) \<Rightarrow>
      (case run_events f (Suc i) s1 ts of (s2, rs) \<Rightarrow>
        (s2, if r = TransferOK then rs else (i, r) # rs)))"

definition batch_law :: "'tb tb_client \<Rightarrow> 'tb tb_view \<Rightarrow> bool" where
  "batch_law c v \<longleftrightarrow> (\<forall>s ts. case CreateTransfers c s ts of
       (s', Inr rs) \<Rightarrow> (s', rs) = run_events (commit v) 0 s ts
     | (s', Inl e) \<Rightarrow> s' = s \<or> s' = fst (run_events (commit v) 0 s ts))"

text \<open>Effect of a transfer on the account table.\<close>

definition on_account ::
    "bytes16 \<Rightarrow> (Account \<Rightarrow> Account) \<Rightarrow> (bytes16 \<Rightarrow> Account option) \<Rightarrow> bytes16 \<Rightarrow> Account option" where
  "on_account i f m = m(i := map_option f (m i))"

definition post_effect ::
    "Transfer \<Rightarrow> (bytes16 \<Rightarrow> Account option) \<Rightarrow> bytes16 \<Rightarrow> Account option" where
  "post_effect t m =
     on_account (CreditAccountID t) (\<lambda>a. a\<lparr>CreditsPosted := CreditsPosted a + Amount t\<rparr>)
       (on_account (DebitAccountID t) (\<lambda>a. a\<lparr>DebitsPosted := DebitsPosted a + Amount t\<rparr>) m)"

definition reserve_effect ::
    "Transfer \<Rightarrow> (bytes16 \<Rightarrow> Account option) \<Rightarrow> bytes16 \<Rightarrow> Account option" where
  "reserve_effect t m =
     on_account (CreditAccountID t) (\<lambda>a. a\<lparr>CreditsPending := CreditsPending a + Amount t\<rparr>)
       (on_account (DebitAccountID t) (\<lambda>a. a\<lparr>DebitsPending := DebitsPending a + Amount t\<rparr>) m)"

definition release_effect ::
    "Transfer \<Rightarrow> (bytes16 \<Rightarrow> Account option) \<Rightarrow> bytes16 \<Rightarrow> Account option" where
  "release_effect p m =
     on_account (CreditAccountID p) (\<lambda>a. a\<lparr>CreditsPending := CreditsPending a - Amount p\<rparr>)
       (on_account (DebitAccountID p) (\<lambda>a. a\<lparr>DebitsPending := DebitsPending a - Amount p\<rparr>) m)"

definition debits_total :: "Account \<Rightarrow> nat" where
  "debits_total a = unat (DebitsPending a) + unat (DebitsPosted a)"

text \<open>A rejected event changes neither the accounts nor the committed transfers.\<close>

definition rejected_law :: "'tb tb_view \<Rightarrow> bool" where
  "rejected_law v \<longleftrightarrow> (\<forall>s t s' r. commit v s t = (s', r) \<longrightarrow> r \<noteq> TransferOK \<longrightarrow>
     acct v s' = acct v s \<and> committed v s' = committed v s \<and> voided v s' = voided v s)"

text \<open>
  Identifiers are used once.  An accepted event is recorded under its fresh, non-zero
  identifier, \<open>exists\<close> is the answer exactly to an event that is already recorded, and the
  \<open>exists_with_different\<close> answers are given only under an identifier that is in use.
\<close>

definition identifier_law :: "'tb tb_view \<Rightarrow> bool" where
  "identifier_law v \<longleftrightarrow>
     (\<forall>s t s'. commit v s t = (s', TransferOK) \<longrightarrow>
        tr_ID t \<noteq> 0 \<and> committed v s (tr_ID t) = None \<and> \<not> burnt v s (tr_ID t) \<and>
        committed v s' = (committed v s)(tr_ID t \<mapsto> t) \<and> burnt v s' = burnt v s) \<and>
     (\<forall>s t. committed v s (tr_ID t) = Some t \<longrightarrow> commit v s t = (s, TransferExists)) \<and>
     (\<forall>s t s'. commit v s t = (s', TransferExists) \<longrightarrow> committed v s (tr_ID t) = Some t) \<and>
     (\<forall>s t s' r. commit v s t = (s', r) \<longrightarrow>
        r \<in> {TransferExistsWithDifferentDebitAccountID, TransferExistsWithDifferentCreditAccountID,
             TransferExistsWithDifferentAmount} \<longrightarrow> committed v s (tr_ID t) \<noteq> None)"

text \<open>
  An identifier whose event failed for a transient reason (here: not enough credits) stays
  burnt: from then on every event under it is refused with \<open>id_already_failed\<close>.
\<close>

definition burnt_law :: "'tb tb_view \<Rightarrow> bool" where
  "burnt_law v \<longleftrightarrow>
     (\<forall>s t s'. commit v s t = (s', TransferExceedsCredits) \<longrightarrow> burnt v s' (tr_ID t)) \<and>
     (\<forall>s t s' r i. commit v s t = (s', r) \<longrightarrow> burnt v s i \<longrightarrow> burnt v s' i) \<and>
     (\<forall>s t. burnt v s (tr_ID t) \<longrightarrow> commit v s t = (s, TransferIDAlreadyFailed))"

text \<open>
  Accepted transfers move their amount between two distinct existing accounts, without
  overflow, and never past the credits of a flagged account.
\<close>

definition transfer_law :: "'tb tb_view \<Rightarrow> bool" where
  "transfer_law v \<longleftrightarrow> (\<forall>s t s'. commit v s t = (s', TransferOK) \<longrightarrow>
     \<not> VoidPendingTransfer (tr_Flags t) \<longrightarrow>
     (\<exists>a b. acct v s (DebitAccountID t) = Some a \<and> acct v s (CreditAccountID t) = Some b \<and>
        DebitAccountID t \<noteq> CreditAccountID t \<and>
        debits_total a + unat (Amount t) < 2 ^ 128 \<and>
        unat (CreditsPending b) + unat (CreditsPosted b) + unat (Amount t) < 2 ^ 128 \<and>
        (DebitsMustNotExceedCredits (acc_Flags a) \<longrightarrow>
           debits_total a + unat (Amount t) \<le> unat (CreditsPosted a))) \<and>
     voided v s' = voided v s \<and>
     acct v s' = (if Pending (tr_Flags t) then reserve_effect t (acct v s)
                  else post_effect t (acct v s)))"

text \<open>
  A void releases the whole of a live pending transfer, once; it is refused as not found or
  already voided only when the reservation is not live.
\<close>

definition void_law :: "'tb tb_view \<Rightarrow> bool" where
  "void_law v \<longleftrightarrow>
   (\<forall>s t s'. commit v s t = (s', TransferPendingTransferNotFound) \<longrightarrow> committed v s (PendingID t) = None) \<and>
   (\<forall>s t s'. commit v s t = (s', TransferPendingTransferAlreadyVoided) \<longrightarrow> voided v s (PendingID t)) \<and>
   (\<forall>s t s'. commit v s t = (s', TransferOK) \<longrightarrow>
     VoidPendingTransfer (tr_Flags t) \<longrightarrow>
     (\<exists>p. committed v s (PendingID t) = Some p \<and> Pending (tr_Flags p) \<and>
        \<not> VoidPendingTransfer (tr_Flags p) \<and> \<not> voided v s (PendingID t) \<and>
        voided v s' = (voided v s)(PendingID t := True) \<and>
        DebitAccountID p \<noteq> CreditAccountID p \<and>
        (\<forall>a. acct v s (DebitAccountID p) = Some a \<longrightarrow> unat (Amount p) \<le> unat (DebitsPending a)) \<and>
        acct v s' = release_effect p (acct v s)))"

text \<open>
  Valid events with funds are accepted: a fresh identifier other than the two reserved ones
  (0 and \<open>2 ^ 128 - 1\<close>), no pending transfer named, two distinct existing accounts of the
  transfer's ledger, no overflow, and enough credits on a flagged debit account.
\<close>

definition valid_id :: "bytes16 \<Rightarrow> bool" where
  "valid_id i \<longleftrightarrow> i \<noteq> 0 \<and> i \<noteq> - 1"

definition fundable :: "'tb tb_view \<Rightarrow> 'tb \<Rightarrow> Transfer \<Rightarrow> bool" where
  "fundable v s t \<longleftrightarrow>
     valid_id (tr_ID t) \<and> PendingID t = 0 \<and> committed v s (tr_ID t) = None \<and> \<not> burnt v s (tr_ID t) \<and>
     tr_Ledger t \<noteq> 0 \<and> tr_Code t \<noteq> 0 \<and> DebitAccountID t \<noteq> CreditAccountID t \<and>
     \<not> VoidPendingTransfer (tr_Flags t) \<and>
     (case (acct v s (DebitAccountID t), acct v s (CreditAccountID t)) of
        (Some a, Some b) \<Rightarrow>
          acc_Ledger a = tr_Ledger t \<and> acc_Ledger b = tr_Ledger t \<and>
          debits_total a + unat (Amount t) < 2 ^ 128 \<and>
          unat (CreditsPending b) + unat (CreditsPosted b) + unat (Amount t) < 2 ^ 128 \<and>
          (DebitsMustNotExceedCredits (acc_Flags a) \<longrightarrow>
             debits_total a + unat (Amount t) \<le> unat (CreditsPosted a))
      | _ \<Rightarrow> False)"

text \<open>A void of a live reservation that repeats its accounts, ledger and code is accepted.\<close>

definition voidable :: "'tb tb_view \<Rightarrow> 'tb \<Rightarrow> Transfer \<Rightarrow> Transfer \<Rightarrow> bool" where
  "voidable v s t p \<longleftrightarrow>
     valid_id (tr_ID t) \<and> committed v s (tr_ID t) = None \<and> \<not> burnt v s (tr_ID t) \<and>
     VoidPendingTransfer (tr_Flags t) \<and> \<not> Pending (tr_Flags t) \<and> Amount t = 0 \<and>
     committed v s (PendingID t) = Some p \<and> Pending (tr_Flags p) \<and>
     \<not> VoidPendingTransfer (tr_Flags p) \<and> \<not> voided v s (PendingID t) \<and>
     DebitAccountID t = DebitAccountID p \<and> CreditAccountID t = CreditAccountID p \<and>
     tr_Ledger t = tr_Ledger p \<and> tr_Code t = tr_Code p \<and>
     DebitAccountID p \<noteq> CreditAccountID p \<and>
     (\<forall>a. acct v s (DebitAccountID p) = Some a \<longrightarrow> unat (Amount p) \<le> unat (DebitsPending a))"

definition acceptance_law :: "'tb tb_view \<Rightarrow> bool" where
  "acceptance_law v \<longleftrightarrow>
     (\<forall>s t. fundable v s t \<longrightarrow> snd (commit v s t) = TransferOK) \<and>
     (\<forall>s t p. voidable v s t p \<longrightarrow> snd (commit v s t) = TransferOK)"

text \<open>
  \<open>exceeds_credits\<close> is the answer only to a transfer that asks a flagged debit account for
  more than its posted credits.
\<close>

definition exceeds_law :: "'tb tb_view \<Rightarrow> bool" where
  "exceeds_law v \<longleftrightarrow> (\<forall>s t s'. commit v s t = (s', TransferExceedsCredits) \<longrightarrow>
     (\<exists>a. acct v s (DebitAccountID t) = Some a \<and> DebitsMustNotExceedCredits (acc_Flags a) \<and>
        unat (CreditsPosted a) < debits_total a + unat (Amount t)))"

text \<open>The fields of an account that no transfer changes.\<close>

definition same_account :: "Account \<Rightarrow> Account \<Rightarrow> bool" where
  "same_account a b \<longleftrightarrow>
     acc_ID a = acc_ID b \<and> acc_UserData128 a = acc_UserData128 b \<and> acc_Ledger a = acc_Ledger b \<and>
     acc_Code a = acc_Code b \<and> acc_Flags a = acc_Flags b"

text \<open>
  Account creation never touches an existing account, and \<open>exists\<close> is the answer only when
  the account is there with the fields asked for; lookups read the table.
\<close>

definition accounts_law :: "'tb tb_client \<Rightarrow> 'tb tb_view \<Rightarrow> bool" where
  "accounts_law c v \<longleftrightarrow> (\<forall>s as s' r. CreateAccounts c s as = (s', r) \<longrightarrow>
     committed v s' = committed v s \<and> voided v s' = voided v s \<and> burnt v s' = burnt v s \<and>
     (\<forall>j a. acct v s j = Some a \<longrightarrow> acct v s' j = Some a) \<and>
     (\<forall>j a. acct v s' j = Some a \<longrightarrow> acct v s j = Some a \<or> a \<in> set as \<and> acc_ID a = j) \<and>
     (\<forall>rs i. r = Inr rs \<longrightarrow> i < length as \<longrightarrow>
        (\<forall>x. (i, x) \<in> set rs \<longrightarrow> x = AccountOK \<or> x = AccountExists) \<longrightarrow>
        (\<exists>b. acct v s' (acc_ID (as ! i)) = Some b \<and> same_account b (as ! i))))"

definition lookup_law :: "'tb tb_client \<Rightarrow> 'tb tb_view \<Rightarrow> bool" where
  "lookup_law c v \<longleftrightarrow>
     (\<forall>s j a. acct v s j = Some a \<longrightarrow> acc_ID a = j) \<and>
     (\<forall>s ids as. LookupAccounts c s ids = Inr as \<longrightarrow>
        set as = {a. \<exists>j \<in> set ids. acct v s j = Some a})"

text \<open>Generating an identifier changes nothing else.\<close>

definition random_law :: "'tb tb_client \<Rightarrow> 'tb tb_view \<Rightarrow> bool" where
  "random_law c v \<longleftrightarrow> (\<forall>s s' i. types_ID c s = (s', i) \<longrightarrow>
     acct v s' = acct v s \<and> committed v s' = committed v s \<and> voided v s' = voided v s \<and>
     burnt v s' = burnt v s)"

definition tb_laws :: "'tb tb_client \<Rightarrow> 'tb tb_view \<Rightarrow> bool" where
  "tb_laws c v \<longleftrightarrow>
     batch_law c v \<and> rejected_law v \<and> identifier_law v \<and> burnt_law v \<and> transfer_law v \<and>
     void_law v \<and> acceptance_law v \<and> accounts_law c v \<and> lookup_law c v \<and> random_law c v \<and>
     exceeds_law v"

section \<open>Service states the program can reach\<close>

text \<open>
  Every effect of the program on the service is a sequence of the three state-changing
  client calls; new accounts are always submitted with zero balances.
\<close>

definition zero_balances :: "Account \<Rightarrow> bool" where
  "zero_balances a \<longleftrightarrow>
     DebitsPending a = 0 \<and> DebitsPosted a = 0 \<and> CreditsPending a = 0 \<and> CreditsPosted a = 0"

inductive tb_reach :: "'tb tb_client \<Rightarrow> 'tb \<Rightarrow> 'tb \<Rightarrow> bool" for c where
  reach_refl: "tb_reach c s s"
| reach_accounts:
    "tb_reach c s s1 \<Longrightarrow> list_all zero_balances as \<Longrightarrow> tb_reach c s (fst (CreateAccounts c s1 as))"
| reach_transfers: "tb_reach c s s1 \<Longrightarrow> tb_reach c s (fst (CreateTransfers c s1 ts))"
| reach_random: "tb_reach c s s1 \<Longrightarrow> tb_reach c s (fst (types_ID c s1))"

text \<open>The outcome of every event of a batch, successes included.\<close>

fun outcomes ::
    "('tb \<Rightarrow> Transfer \<Rightarrow> 'tb \<times> CreateTransferResult) \<Rightarrow> 'tb \<Rightarrow> Transfer list \<Rightarrow>
     CreateTransferResult list" where
  "outcomes f s [] = []"
| "outcomes f s (t # ts) = snd (f s t) # outcomes f (fst (f s t)) ts"

text \<open>The hard limit: a flagged account never has more debits than credits.\<close>

definition hard_limit :: "'tb tb_view \<Rightarrow> 'tb \<Rightarrow> bool" where
  "hard_limit v s \<longleftrightarrow> (\<forall>j a. acct v s j = Some a \<longrightarrow>
     DebitsMustNotExceedCredits (acc_Flags a) \<longrightarrow> debits_total a \<le> unat (CreditsPosted a))"

section \<open>Lemmas: batches\<close>

lemma tb_lawsD:
  assumes "tb_laws c v"
  shows "batch_law c v" "rejected_law v" "identifier_law v" "burnt_law v" "transfer_law v"
    "void_law v" "acceptance_law v" "accounts_law c v" "lookup_law c v" "random_law c v" "exceeds_law v"
  using assms by (simp_all add: tb_laws_def)

lemma batch_okD:
  assumes "tb_laws c v" "CreateTransfers c s ts = (s', Inr rs)"
  shows "run_events (commit v) 0 s ts = (s', rs)"
  using batch_law_def [THEN iffD1, OF tb_lawsD(1) [OF assms(1)], rule_format, of s ts] assms(2) by simp

lemma batch_errD:
  assumes "tb_laws c v" "CreateTransfers c s ts = (s', Inl e)"
  shows "s' = s \<or> s' = fst (run_events (commit v) 0 s ts)"
  using batch_law_def [THEN iffD1, OF tb_lawsD(1) [OF assms(1)], rule_format, of s ts] assms(2) by simp

lemma tb_reach_trans: "tb_reach c s1 s2 \<Longrightarrow> tb_reach c s0 s1 \<Longrightarrow> tb_reach c s0 s2"
  by (induction rule: tb_reach.induct) (auto intro: tb_reach.intros)

lemma length_outcomes [simp]: "length (outcomes f s ts) = length ts"
  by (induction ts arbitrary: s) auto

lemma run_events_index_ge: "(k, r) \<in> set (snd (run_events f i s ts)) \<Longrightarrow> i \<le> k"
  by (induction f i s ts rule: run_events.induct)
     (force split: prod.splits if_splits dest: Suc_leD)+

lemma run_events_index_distinct: "distinct (map fst (snd (run_events f i s ts)))"
proof (induction f i s ts rule: run_events.induct)
  case (1 f i s)
  then show ?case by simp
next
  case (2 f i s t ts)
  obtain s1 r where f: "f s t = (s1, r)" by fastforce
  have "i \<notin> fst ` set (snd (run_events f (Suc i) s1 ts))"
    using run_events_index_ge [of _ _ f "Suc i" s1 ts] by force
  with 2 [OF f [symmetric]] f show ?case by (auto split: prod.splits)
qed

lemma run_events_lookup:
  "k < length ts \<Longrightarrow>
     map_of (snd (run_events f i s ts)) (i + k) =
       (if outcomes f s ts ! k = TransferOK then None else Some (outcomes f s ts ! k))"
proof (induction f i s ts arbitrary: k rule: run_events.induct)
  case (1 f i s)
  then show ?case by simp
next
  case (2 f i s t ts)
  obtain s1 r where f: "f s t = (s1, r)" by fastforce
  obtain s2 rs where run: "run_events f (Suc i) s1 ts = (s2, rs)" by fastforce
  have notin: "map_of rs i = None"
    using run_events_index_ge [of i _ f "Suc i" s1 ts] run
    by (auto simp: map_of_eq_None_iff)
  show ?case
  proof (cases k)
    case 0
    then show ?thesis using f run notin by simp
  next
    case (Suc k')
    then show ?thesis using "2.IH" [OF f [symmetric], of k'] "2.prems" f run by simp
  qed
qed

lemma run_events_state: "fst (run_events f i s ts) = fst (run_events f j s ts)"
  by (induction ts arbitrary: i j s) (auto split: prod.splits, metis fst_conv)

lemma run_events_invariant:
  assumes step: "\<And>s t s' r. P s \<Longrightarrow> t \<in> set ts \<Longrightarrow> f s t = (s', r) \<Longrightarrow> P s'"
    and "P s"
  shows "P (fst (run_events f i s ts))"
  using assms
proof (induction ts arbitrary: s i)
  case Nil
  then show ?case by simp
next
  case (Cons t ts)
  obtain s1 r where f: "f s t = (s1, r)" by fastforce
  then have "P (fst (run_events f (Suc i) s1 ts))"
    using Cons.prems by (intro Cons.IH) auto
  with f show ?case by (auto split: prod.splits)
qed

section \<open>Lemmas: what every client call keeps\<close>

lemma unat_add_exact:
  "unat x + unat y < 2 ^ 128 \<Longrightarrow> unat (x + y :: bytes16) = unat x + unat y"
  using unat_add_lem [of x y] by simp

lemma unat_sub_exact: "unat y \<le> unat x \<Longrightarrow> unat (x - y :: bytes16) = unat x - unat y"
  by (simp add: unat_sub word_le_nat_alt)

lemma commit_cases:
  assumes laws: "tb_laws c v" and step: "commit v s t = (s', r)"
  obtains
    (rejected) "r \<noteq> TransferOK" "acct v s' = acct v s" "committed v s' = committed v s"
      "voided v s' = voided v s"
  | (moved) a b where "r = TransferOK" "\<not> VoidPendingTransfer (tr_Flags t)"
      "acct v s (DebitAccountID t) = Some a" "acct v s (CreditAccountID t) = Some b"
      "DebitAccountID t \<noteq> CreditAccountID t"
      "debits_total a + unat (Amount t) < 2 ^ 128"
      "unat (CreditsPending b) + unat (CreditsPosted b) + unat (Amount t) < 2 ^ 128"
      "DebitsMustNotExceedCredits (acc_Flags a) \<longrightarrow> debits_total a + unat (Amount t) \<le> unat (CreditsPosted a)"
      "voided v s' = voided v s"
      "acct v s' = (if Pending (tr_Flags t) then reserve_effect t (acct v s) else post_effect t (acct v s))"
      "committed v s (tr_ID t) = None" "committed v s' = (committed v s)(tr_ID t \<mapsto> t)"
  | (released) p where "r = TransferOK" "VoidPendingTransfer (tr_Flags t)"
      "committed v s (PendingID t) = Some p" "Pending (tr_Flags p)" "\<not> voided v s (PendingID t)"
      "\<not> VoidPendingTransfer (tr_Flags p)"
      "voided v s' = (voided v s)(PendingID t := True)" "DebitAccountID p \<noteq> CreditAccountID p"
      "\<forall>a. acct v s (DebitAccountID p) = Some a \<longrightarrow> unat (Amount p) \<le> unat (DebitsPending a)"
      "acct v s' = release_effect p (acct v s)"
      "committed v s (tr_ID t) = None" "committed v s' = (committed v s)(tr_ID t \<mapsto> t)"
proof (cases "r = TransferOK")
  case False
  with rejected_law_def [THEN iffD1, OF tb_lawsD(2) [OF laws], rule_format, OF step] rejected
  show ?thesis by simp
next
  case True
  then have ids: "committed v s (tr_ID t) = None" "committed v s' = (committed v s)(tr_ID t \<mapsto> t)"
    using identifier_law_def [THEN iffD1, OF tb_lawsD(3) [OF laws], THEN conjunct1, rule_format, of s t s']
      step by simp_all
  show ?thesis
  proof (cases "VoidPendingTransfer (tr_Flags t)")
    case False
    have m: "(\<exists>a b. acct v s (DebitAccountID t) = Some a \<and> acct v s (CreditAccountID t) = Some b \<and>
        DebitAccountID t \<noteq> CreditAccountID t \<and> debits_total a + unat (Amount t) < 2 ^ 128 \<and>
        unat (CreditsPending b) + unat (CreditsPosted b) + unat (Amount t) < 2 ^ 128 \<and>
        (DebitsMustNotExceedCredits (acc_Flags a) \<longrightarrow>
           debits_total a + unat (Amount t) \<le> unat (CreditsPosted a))) \<and>
      voided v s' = voided v s \<and>
      acct v s' = (if Pending (tr_Flags t) then reserve_effect t (acct v s) else post_effect t (acct v s))"
      using transfer_law_def [THEN iffD1, OF tb_lawsD(5) [OF laws], rule_format, of s t s'] step True False
      by simp
    from True False ids show ?thesis
      by (rule_tac conjE [OF m], elim exE conjE) (rule moved, simp_all)
  next
    case vd: True
    have m: "\<exists>p. committed v s (PendingID t) = Some p \<and> Pending (tr_Flags p) \<and>
        \<not> VoidPendingTransfer (tr_Flags p) \<and> \<not> voided v s (PendingID t) \<and> voided v s' = (voided v s)(PendingID t := True) \<and>
        DebitAccountID p \<noteq> CreditAccountID p \<and>
        (\<forall>a. acct v s (DebitAccountID p) = Some a \<longrightarrow> unat (Amount p) \<le> unat (DebitsPending a)) \<and>
        acct v s' = release_effect p (acct v s)"
      using void_law_def [THEN iffD1, OF tb_lawsD(6) [OF laws], THEN conjunct2, THEN conjunct2,
          rule_format, of s t s'] step True vd
      by simp
    from True vd ids show ?thesis
      by (rule_tac exE [OF m], elim conjE) (rule released, simp_all)
  qed
qed

lemma on_account_apply: "on_account i f m j = (if j = i then map_option f (m j) else m j)"
  by (simp add: on_account_def)

lemma post_effect_apply:
  "DebitAccountID t \<noteq> CreditAccountID t \<Longrightarrow> post_effect t m j =
     (if j = DebitAccountID t then map_option (\<lambda>a. a\<lparr>DebitsPosted := DebitsPosted a + Amount t\<rparr>) (m j)
      else if j = CreditAccountID t then map_option (\<lambda>a. a\<lparr>CreditsPosted := CreditsPosted a + Amount t\<rparr>) (m j)
      else m j)"
  by (simp add: post_effect_def on_account_apply)

lemma reserve_effect_apply:
  "DebitAccountID t \<noteq> CreditAccountID t \<Longrightarrow> reserve_effect t m j =
     (if j = DebitAccountID t then map_option (\<lambda>a. a\<lparr>DebitsPending := DebitsPending a + Amount t\<rparr>) (m j)
      else if j = CreditAccountID t then map_option (\<lambda>a. a\<lparr>CreditsPending := CreditsPending a + Amount t\<rparr>) (m j)
      else m j)"
  by (simp add: reserve_effect_def on_account_apply)

lemma release_effect_apply:
  "DebitAccountID t \<noteq> CreditAccountID t \<Longrightarrow> release_effect t m j =
     (if j = DebitAccountID t then map_option (\<lambda>a. a\<lparr>DebitsPending := DebitsPending a - Amount t\<rparr>) (m j)
      else if j = CreditAccountID t then map_option (\<lambda>a. a\<lparr>CreditsPending := CreditsPending a - Amount t\<rparr>) (m j)
      else m j)"
  by (simp add: release_effect_def on_account_apply)

lemmas effect_apply = post_effect_apply reserve_effect_apply release_effect_apply

text \<open>An account after a move: its identity fields stay, and its balances grow by the amount.\<close>

lemma debit_side_total:
  assumes "debits_total a + unat n < 2 ^ 128"
  shows "debits_total (a\<lparr>DebitsPosted := DebitsPosted a + n\<rparr>) = debits_total a + unat n"
    and "debits_total (a\<lparr>DebitsPending := DebitsPending a + n\<rparr>) = debits_total a + unat n"
  using assms unat_add_exact [of "DebitsPosted a" n] unat_add_exact [of "DebitsPending a" n]
  by (simp_all add: debits_total_def)

lemma credit_side_total:
  assumes "unat (CreditsPending b) + unat (CreditsPosted b) + unat n < 2 ^ 128"
  shows "unat (CreditsPosted (b\<lparr>CreditsPosted := CreditsPosted b + n\<rparr>)) = unat (CreditsPosted b) + unat n"
  using assms unat_add_exact [of "CreditsPosted b" n] by simp

definition within_limit :: "Account \<Rightarrow> bool" where
  "within_limit a \<longleftrightarrow>
     (DebitsMustNotExceedCredits (acc_Flags a) \<longrightarrow> debits_total a \<le> unat (CreditsPosted a))"

lemma hard_limit_alt: "hard_limit v s \<longleftrightarrow> (\<forall>j a. acct v s j = Some a \<longrightarrow> within_limit a)"
  by (auto simp: hard_limit_def within_limit_def)

lemma within_limit_debit:
  assumes "debits_total a + unat n < 2 ^ 128"
    "DebitsMustNotExceedCredits (acc_Flags a) \<longrightarrow> debits_total a + unat n \<le> unat (CreditsPosted a)"
  shows "within_limit (a\<lparr>DebitsPosted := DebitsPosted a + n\<rparr>)"
    "within_limit (a\<lparr>DebitsPending := DebitsPending a + n\<rparr>)"
  using assms debit_side_total [OF assms(1)] by (simp_all add: within_limit_def)

lemma within_limit_credit:
  assumes "unat (CreditsPending b) + unat (CreditsPosted b) + unat n < 2 ^ 128" "within_limit b"
  shows "within_limit (b\<lparr>CreditsPosted := CreditsPosted b + n\<rparr>)"
    "within_limit (b\<lparr>CreditsPending := m\<rparr>)"
  using assms credit_side_total [OF assms(1)] by (auto simp: within_limit_def debits_total_def)

lemma within_limit_release:
  assumes "unat n \<le> unat (DebitsPending a)" "within_limit a"
  shows "within_limit (a\<lparr>DebitsPending := DebitsPending a - n\<rparr>)"
  using assms by (auto simp: within_limit_def debits_total_def unat_sub_exact)

lemma within_limit_pending_credit [simp]:
  "within_limit (b\<lparr>CreditsPending := m\<rparr>) = within_limit b"
  by (simp add: within_limit_def debits_total_def)

lemma commit_hard_limit:
  assumes "tb_laws c v" "hard_limit v s" "commit v s t = (s', r)"
  shows "hard_limit v s'"
  using assms(1,3)
proof (cases rule: commit_cases)
  case rejected
  then show ?thesis using assms(2) by (simp add: hard_limit_def)
next
  case (moved a b)
  have "within_limit b" using moved(4) assms(2) by (simp add: hard_limit_alt)
  note ok = within_limit_debit [OF moved(6,8)] within_limit_credit [OF moved(7) this]
  have "within_limit x" if x: "acct v s' j = Some x" for j x
  proof -
    consider "j = DebitAccountID t" | "j = CreditAccountID t"
      | "j \<noteq> DebitAccountID t" "j \<noteq> CreditAccountID t" by blast
    then show ?thesis
    proof cases
      case 1
      with x moved(3,5,10) ok show ?thesis by (auto simp: effect_apply split: if_splits)
    next
      case 2
      with x moved(4,5,10) ok show ?thesis by (auto simp: effect_apply split: if_splits)
    next
      case 3
      with x moved(5,10) have "acct v s j = Some x" by (auto simp: effect_apply split: if_splits)
      then show ?thesis using assms(2) by (auto simp: hard_limit_alt)
    qed
  qed
  then show ?thesis by (simp add: hard_limit_alt)
next
  case (released p)
  have "within_limit x" if x: "acct v s' j = Some x" for j x
    using x released(8,9,10) assms(2)
    by (auto simp: effect_apply hard_limit_alt split: if_splits intro: within_limit_release)
  then show ?thesis by (simp add: hard_limit_alt)
qed

end
