(* ===== verification/TB_Invariants.thy ===== *)
theory TB_Invariants
  imports TB_Client
begin

text \<open>
  What every sequence of client calls keeps, from the laws of the service alone.  The locale
  \<open>ledger_invariant\<close> is the contract of a predicate on service states that each committed
  event, account creation and identifier generation keeps; it is interpreted on the hard
  limit, on the books (balances are the sums of the committed transfers), and on the
  persistence of transfers, burnt identifiers and accounts.
\<close>

section \<open>Sums over committed transfers\<close>

definition total :: "(bytes16 \<Rightarrow> Transfer option) \<Rightarrow> (bytes16 \<Rightarrow> Transfer \<Rightarrow> nat) \<Rightarrow> nat" where
  "total m f = (\<Sum>i\<in>UNIV. case m i of None \<Rightarrow> 0 | Some t \<Rightarrow> f i t)"

definition posting :: "Transfer \<Rightarrow> bool" where
  "posting t \<longleftrightarrow> \<not> Pending (tr_Flags t) \<and> \<not> VoidPendingTransfer (tr_Flags t)"

definition reservation :: "Transfer \<Rightarrow> bool" where
  "reservation t \<longleftrightarrow> Pending (tr_Flags t) \<and> \<not> VoidPendingTransfer (tr_Flags t)"

definition posted_debits :: "'tb tb_view \<Rightarrow> 'tb \<Rightarrow> bytes16 \<Rightarrow> nat" where
  "posted_debits v s j = total (committed v s)
     (\<lambda>i t. if posting t \<and> DebitAccountID t = j then unat (Amount t) else 0)"

definition posted_credits :: "'tb tb_view \<Rightarrow> 'tb \<Rightarrow> bytes16 \<Rightarrow> nat" where
  "posted_credits v s j = total (committed v s)
     (\<lambda>i t. if posting t \<and> CreditAccountID t = j then unat (Amount t) else 0)"

definition reserved_debits :: "'tb tb_view \<Rightarrow> 'tb \<Rightarrow> bytes16 \<Rightarrow> nat" where
  "reserved_debits v s j = total (committed v s)
     (\<lambda>i t. if reservation t \<and> \<not> voided v s i \<and> DebitAccountID t = j then unat (Amount t) else 0)"

text \<open>
  The books: every balance is the sum of the committed transfers that made it, each counted
  once; reservations count until they are voided.
\<close>

definition account_books :: "'tb tb_view \<Rightarrow> 'tb \<Rightarrow> bytes16 \<Rightarrow> Account \<Rightarrow> bool" where
  "account_books v s j a \<longleftrightarrow>
     unat (DebitsPosted a) = posted_debits v s j \<and>
     unat (DebitsPending a) = reserved_debits v s j \<and>
     unat (CreditsPosted a) = posted_credits v s j"

definition recorded_ok :: "'tb tb_view \<Rightarrow> 'tb \<Rightarrow> bool" where
  "recorded_ok v s \<longleftrightarrow>
     (\<forall>i. voided v s i \<longrightarrow> committed v s i \<noteq> None) \<and>
     (\<forall>i t. committed v s i = Some t \<longrightarrow> tr_ID t = i \<and>
        (\<not> VoidPendingTransfer (tr_Flags t) \<longrightarrow>
           acct v s (DebitAccountID t) \<noteq> None \<and> acct v s (CreditAccountID t) \<noteq> None))"

definition books :: "'tb tb_view \<Rightarrow> 'tb \<Rightarrow> bool" where
  "books v s \<longleftrightarrow> recorded_ok v s \<and> (\<forall>j a. acct v s j = Some a \<longrightarrow> account_books v s j a)"

section \<open>Predicates kept by every client call\<close>

locale ledger_invariant =
  fixes P :: "'tb tb_client \<Rightarrow> 'tb tb_view \<Rightarrow> 'tb \<Rightarrow> bool"
  assumes commit_keeps:
      "tb_laws c v \<Longrightarrow> P c v s \<Longrightarrow> commit v s t = (s', r) \<Longrightarrow> P c v s'"
    and accounts_keep:
      "tb_laws c v \<Longrightarrow> P c v s \<Longrightarrow> list_all zero_balances as \<Longrightarrow> CreateAccounts c s as = (s', ar) \<Longrightarrow>
       P c v s'"
    and random_keeps:
      "tb_laws c v \<Longrightarrow> P c v s \<Longrightarrow> types_ID c s = (s', i) \<Longrightarrow> P c v s'"
begin

lemma transfers_keep:
  assumes "tb_laws c v" "P c v s"
  shows "P c v (fst (CreateTransfers c s ts))"
proof -
  have run: "P c v (fst (run_events (commit v) 0 s ts))"
    by (rule run_events_invariant) (use assms commit_keeps in blast)+
  obtain s' r where call: "CreateTransfers c s ts = (s', r)" by fastforce
  then have "s' = s \<or> s' = fst (run_events (commit v) 0 s ts)"
    using batch_okD [OF assms(1)] batch_errD [OF assms(1)] by (cases r) fastforce+
  with run assms(2) call show ?thesis by auto
qed

lemma reach_keeps:
  assumes "tb_reach c s s'" "tb_laws c v" "P c v s"
  shows "P c v s'"
  using assms
proof (induction rule: tb_reach.induct)
  case (reach_accounts s s1 as)
  then show ?case using accounts_keep [of c v s1 as] by (metis prod.collapse)
next
  case (reach_transfers s s1 ts)
  then show ?case using transfers_keep by blast
next
  case (reach_random s s1)
  then show ?case using random_keeps [of c v s1] by (metis prod.collapse)
qed simp

end

section \<open>The interpretations\<close>

lemma accountsD:
  assumes "tb_laws c v" "CreateAccounts c s as = (s', r)"
  shows "committed v s' = committed v s" "voided v s' = voided v s" "burnt v s' = burnt v s"
    and "acct v s j = Some a \<Longrightarrow> acct v s' j = Some a"
    and "acct v s' j = Some a \<Longrightarrow> acct v s j = Some a \<or> a \<in> set as \<and> acc_ID a = j"
    and "r = Inr rs \<Longrightarrow> i < length as \<Longrightarrow>
       (\<forall>x. (i, x) \<in> set rs \<longrightarrow> x = AccountOK \<or> x = AccountExists) \<Longrightarrow>
       \<exists>b. acct v s' (acc_ID (as ! i)) = Some b \<and> same_account b (as ! i)"
  using accounts_law_def [THEN iffD1, OF tb_lawsD(8) [OF assms(1)], rule_format, OF assms(2)] by auto

lemma randomD:
  assumes "tb_laws c v" "types_ID c s = (s', i)"
  shows "acct v s' = acct v s" "committed v s' = committed v s" "voided v s' = voided v s"
    "burnt v s' = burnt v s"
  using random_law_def [THEN iffD1, OF tb_lawsD(10) [OF assms(1)], rule_format, OF assms(2)] by auto

lemma zero_balances_within: "zero_balances a \<Longrightarrow> within_limit a"
  by (simp add: zero_balances_def within_limit_def debits_total_def)

interpretation limit_kept: ledger_invariant "\<lambda>c v s. hard_limit v s"
proof
  fix c v s as s' ar
  assume "tb_laws c v" "hard_limit v s" "list_all zero_balances as" "CreateAccounts c s as = (s', ar)"
  then show "hard_limit v s'"
    using accountsD(5) zero_balances_within unfolding hard_limit_alt list_all_iff by metis
next
  fix c v s s' i
  assume "tb_laws c v" "hard_limit v s" "types_ID c s = (s', i)"
  then show "hard_limit v s'" using randomD(1) by (metis hard_limit_alt)
qed (rule commit_hard_limit)

lemma commit_committed:
  assumes "tb_laws c v" "commit v s t = (s', r)" "committed v s i = Some u"
  shows "committed v s' i = Some u"
  using assms(1,2) by (cases rule: commit_cases) (use assms(3) in \<open>auto split: if_splits\<close>)

interpretation transfer_kept: ledger_invariant "\<lambda>c v s. committed v s i = Some u" for i u
  by unfold_locales (metis commit_committed, metis accountsD(1), metis randomD(2))

interpretation burnt_kept: ledger_invariant "\<lambda>c v s. burnt v s i" for i
proof
  fix c v s t s' r
  assume "tb_laws c v" "burnt v s i" "commit v s t = (s', r)"
  then show "burnt v s' i" by (metis tb_lawsD(4) burnt_law_def)
qed (metis accountsD(3), metis randomD(4))

lemma same_account_refl [simp]: "same_account a a"
  by (simp add: same_account_def)

lemma same_account_trans: "same_account a b \<Longrightarrow> same_account b d \<Longrightarrow> same_account a d"
  by (simp add: same_account_def)

lemma same_account_updates [simp]:
  "same_account (a\<lparr>DebitsPosted := n\<rparr>) b = same_account a b"
  "same_account (a\<lparr>DebitsPending := n\<rparr>) b = same_account a b"
  "same_account (a\<lparr>CreditsPosted := n\<rparr>) b = same_account a b"
  "same_account (a\<lparr>CreditsPending := n\<rparr>) b = same_account a b"
  by (simp_all add: same_account_def)

lemma effect_same_account:
  assumes "m j = Some a" "DebitAccountID t \<noteq> CreditAccountID t"
  shows "\<exists>b. post_effect t m j = Some b \<and> same_account b a"
    "\<exists>b. reserve_effect t m j = Some b \<and> same_account b a"
    "\<exists>b. release_effect t m j = Some b \<and> same_account b a"
  using assms by (auto simp: effect_apply)

lemma commit_account:
  assumes "tb_laws c v" "commit v s t = (s', r)" "acct v s j = Some a"
  shows "\<exists>b. acct v s' j = Some b \<and> same_account b a"
  using assms(1,2)
proof (cases rule: commit_cases)
  case rejected
  then show ?thesis using assms(3) by simp
next
  case (moved d e)
  then show ?thesis
    using effect_same_account(1,2) [of "acct v s" j a t, OF assms(3)] by (cases "Pending (tr_Flags t)") simp_all
next
  case (released p)
  then show ?thesis using effect_same_account(3) [of "acct v s" j a p, OF assms(3)] by simp
qed

interpretation account_kept: ledger_invariant
  "\<lambda>c v s. \<exists>b. acct v s j = Some b \<and> same_account b a" for j a
proof
  fix c v s t s' r
  assume "tb_laws c v" "\<exists>b. acct v s j = Some b \<and> same_account b a" "commit v s t = (s', r)"
  then show "\<exists>b. acct v s' j = Some b \<and> same_account b a"
    by (blast dest: commit_account intro: same_account_trans)
qed (metis accountsD(4), metis randomD(1))

section \<open>The books\<close>

lemma total_new:
  assumes "m i = None"
  shows "total (m(i \<mapsto> t)) f = total m f + f i t"
proof -
  have *: "total m' f = (case m' i of None \<Rightarrow> 0 | Some t \<Rightarrow> f i t) +
      (\<Sum>k\<in>UNIV - {i}. case m' k of None \<Rightarrow> 0 | Some t \<Rightarrow> f k t)" for m'
    unfolding total_def by (rule sum.remove) simp_all
  have "(\<Sum>k\<in>UNIV - {i}. case (m(i \<mapsto> t)) k of None \<Rightarrow> 0 | Some t \<Rightarrow> f k t) =
      (\<Sum>k\<in>UNIV - {i}. case m k of None \<Rightarrow> 0 | Some t \<Rightarrow> f k t)"
    by (rule sum.cong) simp_all
  with * [of m] * [of "m(i \<mapsto> t)"] assms show ?thesis by simp
qed

lemma total_drop:
  assumes "m k = Some p" "f' k p = 0" "\<And>i t. i \<noteq> k \<Longrightarrow> f' i t = f i t"
  shows "total m f = total m f' + f k p"
proof -
  have *: "total m g = g k p + (\<Sum>i\<in>UNIV - {k}. case m i of None \<Rightarrow> 0 | Some t \<Rightarrow> g i t)" for g
    unfolding total_def using assms(1) by (subst sum.remove [of UNIV k]) simp_all
  have "(\<Sum>i\<in>UNIV - {k}. case m i of None \<Rightarrow> 0 | Some t \<Rightarrow> f' i t) =
      (\<Sum>i\<in>UNIV - {k}. case m i of None \<Rightarrow> 0 | Some t \<Rightarrow> f i t)"
    by (rule sum.cong) (use assms(3) in \<open>auto split: option.splits\<close>)
  with * [of f] * [of f'] assms(2) show ?thesis by simp
qed

lemma total_cong:
  "(\<And>i t. m i = Some t \<Longrightarrow> f i t = g i t) \<Longrightarrow> total m f = total m g"
  unfolding total_def by (rule sum.cong) (auto split: option.splits)

lemma total_zero: "(\<And>i t. m i = Some t \<Longrightarrow> f i t = 0) \<Longrightarrow> total m f = 0"
  unfolding total_def by (rule sum.neutral) (auto split: option.splits)

lemma total_member: "m i = Some t \<Longrightarrow> f i t \<le> total m f"
  unfolding total_def
  using member_le_sum [of i UNIV "\<lambda>i. case m i of None \<Rightarrow> 0 | Some t \<Rightarrow> f i t"] by simp

text \<open>How a recorded event changes the three sums.\<close>

lemma sums_new:
  assumes "committed v s i = None" "committed v s' = (committed v s)(i \<mapsto> t)"
    "voided v s' = voided v s" "\<not> voided v s i"
  shows "posted_debits v s' j =
      posted_debits v s j + (if posting t \<and> DebitAccountID t = j then unat (Amount t) else 0)"
    "posted_credits v s' j =
      posted_credits v s j + (if posting t \<and> CreditAccountID t = j then unat (Amount t) else 0)"
    "reserved_debits v s' j =
      reserved_debits v s j + (if reservation t \<and> DebitAccountID t = j then unat (Amount t) else 0)"
  using assms by (simp_all add: posted_debits_def posted_credits_def reserved_debits_def total_new)

lemma sums_void:
  assumes "committed v s i = None" "committed v s' = (committed v s)(i \<mapsto> t)"
    "VoidPendingTransfer (tr_Flags t)"
    "committed v s k = Some p" "reservation p" "\<not> voided v s k"
    "voided v s' = (voided v s)(k := True)"
  shows "posted_debits v s' j = posted_debits v s j"
    "posted_credits v s' j = posted_credits v s j"
    "reserved_debits v s j =
      reserved_debits v s' j + (if DebitAccountID p = j then unat (Amount p) else 0)"
proof -
  let ?live = "\<lambda>w i t. if reservation t \<and> \<not> w i \<and> DebitAccountID t = j then unat (Amount t) else 0"
  show "posted_debits v s' j = posted_debits v s j" "posted_credits v s' j = posted_credits v s j"
    using assms(1-3) by (simp_all add: posted_debits_def posted_credits_def total_new posting_def)
  have "total (committed v s) (?live (voided v s)) =
      total (committed v s) (?live (voided v s')) + ?live (voided v s) k p"
    using assms(4,7) by (rule_tac total_drop) auto
  moreover have "reserved_debits v s' j = total (committed v s) (?live (voided v s'))"
    using assms(1-3) by (simp add: reserved_debits_def total_new reservation_def)
  ultimately show "reserved_debits v s j =
      reserved_debits v s' j + (if DebitAccountID p = j then unat (Amount p) else 0)"
    using assms(5,6) by (simp add: reserved_debits_def)
qed

lemma recorded_okD:
  assumes "recorded_ok v s"
  shows "committed v s i = None \<Longrightarrow> \<not> voided v s i" "committed v s i = Some t \<Longrightarrow> tr_ID t = i"
    "committed v s i = Some t \<Longrightarrow> \<not> VoidPendingTransfer (tr_Flags t) \<Longrightarrow>
       acct v s (DebitAccountID t) \<noteq> None \<and> acct v s (CreditAccountID t) \<noteq> None"
  using assms unfolding recorded_ok_def by blast+

lemma commit_recorded:
  assumes "tb_laws c v" "recorded_ok v s" "commit v s t = (s', r)"
  shows "recorded_ok v s'"
proof -
  have keep: "acct v s j \<noteq> None \<Longrightarrow> acct v s' j \<noteq> None" for j
    using commit_account [OF assms(1,3)] by fastforce
  from assms(1,3) show ?thesis
  proof (cases rule: commit_cases)
    case rejected
    then show ?thesis using assms(2) by (simp add: recorded_ok_def)
  next
    case (moved a b)
    then show ?thesis using assms(2) keep moved(3,4) unfolding recorded_ok_def by auto
  next
    case (released p)
    then show ?thesis using assms(2) keep unfolding recorded_ok_def by auto
  qed
qed

lemma unat_balance_add:
  "debits_total a + unat n < 2 ^ 128 \<Longrightarrow> unat (DebitsPosted a + n) = unat (DebitsPosted a) + unat n"
  "debits_total a + unat n < 2 ^ 128 \<Longrightarrow> unat (DebitsPending a + n) = unat (DebitsPending a) + unat n"
  "unat (CreditsPending a) + unat (CreditsPosted a) + unat n < 2 ^ 128 \<Longrightarrow>
     unat (CreditsPosted a + n) = unat (CreditsPosted a) + unat n"
  by (rule unat_add_exact; simp add: debits_total_def)+

lemma commit_account_books:
  assumes laws: "tb_laws c v" and b: "books v s" and step: "commit v s t = (s', r)"
    and x: "acct v s' j = Some x"
  shows "account_books v s' j x"
proof -
  have ok: "recorded_ok v s" and old: "\<And>j a. acct v s j = Some a \<Longrightarrow> account_books v s j a"
    using b by (auto simp: books_def)
  from laws step show ?thesis
  proof (cases rule: commit_cases)
    case rejected
    then show ?thesis using old [of j x] x
      by (simp add: account_books_def posted_debits_def posted_credits_def reserved_debits_def)
  next
    case (moved a b)
    note sums = sums_new [OF moved(11,12,9) recorded_okD(1) [OF ok moved(11)], of j]
    note adds = unat_balance_add(1,2) [OF moved(6)] unat_balance_add(3) [OF moved(7)]
    show ?thesis
      using x moved(2-5,10) old [of j] adds
      by (cases "Pending (tr_Flags t)")
         (auto simp: account_books_def sums posting_def reservation_def effect_apply split: if_splits)
  next
    case (released p)
    have res: "reservation p" using released(4,6) by (simp add: reservation_def)
    note sums = sums_void [OF released(11,12,2,3) res released(5,7), of j]
    show ?thesis
      using x released(8-10) old [of j] sums
      by (auto simp: account_books_def effect_apply unat_sub_exact split: if_splits)
  qed
qed

lemma new_account_books:
  assumes "recorded_ok v s" "committed v s' = committed v s" "voided v s' = voided v s"
    "acct v s j = None" "zero_balances a"
  shows "account_books v s' j a"
proof -
  have "posted_debits v s' j = 0" "posted_credits v s' j = 0" "reserved_debits v s' j = 0"
    unfolding posted_debits_def posted_credits_def reserved_debits_def assms(2)
    by (rule total_zero, use assms(4) recorded_okD(3) [OF assms(1)] in
        \<open>fastforce simp: posting_def reservation_def\<close>)+
  with assms(5) show ?thesis by (simp add: account_books_def zero_balances_def)
qed

lemma accounts_books:
  assumes laws: "tb_laws c v" and b: "books v s" and zero: "list_all zero_balances as"
    and call: "CreateAccounts c s as = (s', ar)"
  shows "books v s'"
proof -
  note frame = accountsD(1,2) [OF laws call] and keep = accountsD(4) [OF laws call]
    and new = accountsD(5) [OF laws call]
  have ok: "recorded_ok v s" using b by (simp add: books_def)
  have "recorded_ok v s'"
    using ok keep unfolding recorded_ok_def frame by (metis not_None_eq)
  moreover have "account_books v s' j a" if x: "acct v s' j = Some a" for j a
  proof (cases "acct v s j")
    case None
    with new [OF x] zero have "zero_balances a" by (auto simp: list_all_iff)
    with new_account_books [OF ok frame None] show ?thesis .
  next
    case (Some d)
    with keep x have "d = a" by force
    with b Some have "account_books v s j a" by (simp add: books_def)
    then show ?thesis
      by (simp add: account_books_def posted_debits_def posted_credits_def reserved_debits_def frame)
  qed
  ultimately show ?thesis by (simp add: books_def)
qed

interpretation books_kept: ledger_invariant "\<lambda>c v s. books v s"
proof
  fix c v s t s' r
  assume a: "tb_laws c v" "books v s" "commit v s t = (s', r)"
  then have "recorded_ok v s'" using commit_recorded by (auto simp: books_def)
  with commit_account_books [OF a] show "books v s'" by (simp add: books_def)
next
  fix c v s s' i
  assume "tb_laws c v" "books v s" "types_ID c s = (s', i)"
  then show "books v s'"
    using randomD [of c v s s' i]
    by (simp add: books_def recorded_ok_def account_books_def posted_debits_def posted_credits_def
        reserved_debits_def)
qed (rule accounts_books)

text \<open>An empty service state: no account, no transfer.\<close>

definition empty_ledger :: "'tb tb_view \<Rightarrow> 'tb \<Rightarrow> bool" where
  "empty_ledger v s \<longleftrightarrow> (\<forall>i. acct v s i = None \<and> committed v s i = None \<and> \<not> voided v s i \<and> \<not> burnt v s i)"

lemma empty_books: "empty_ledger v s \<Longrightarrow> books v s"
  by (simp add: empty_ledger_def books_def recorded_ok_def)

lemma empty_hard_limit: "empty_ledger v s \<Longrightarrow> hard_limit v s"
  by (simp add: empty_ledger_def hard_limit_def)

end
