(* ===== verification/TB_Batches.thy ===== *)
theory TB_Batches
  imports TB_Invariants
begin

text \<open>
  Batches of transfers against the service: which events end up committed, what resubmitting
  a batch does, how posted transfers move balances, and when a whole batch is accepted.
\<close>

section \<open>Batches step by step\<close>

lemma run_events_state_Cons:
  "fst (run_events f i s (t # ts)) = fst (run_events f 0 (fst (f s t)) ts)"
  by (simp add: split_beta run_events_state [of f "Suc i" _ ts 0])

lemma run_events_state_fold: "fst (run_events f i s ts) = fold (\<lambda>t s. fst (f s t)) ts s"
  by (induction ts arbitrary: s i) (simp_all add: split_beta)

lemma run_events_results:
  "(k, r) \<in> set (snd (run_events f i s ts)) \<longleftrightarrow>
     i \<le> k \<and> k < i + length ts \<and> r \<noteq> TransferOK \<and> outcomes f s ts ! (k - i) = r"
proof (induction ts arbitrary: i s)
  case (Cons t ts)
  have "(k, r) \<in> set (snd (run_events f i s (t # ts))) \<longleftrightarrow>
      k = i \<and> r = snd (f s t) \<and> r \<noteq> TransferOK \<or>
      (k, r) \<in> set (snd (run_events f (Suc i) (fst (f s t)) ts))"
    by (auto simp: split_beta)
  also have "\<dots> \<longleftrightarrow> i \<le> k \<and> k < i + length (t # ts) \<and> r \<noteq> TransferOK \<and>
      outcomes f s (t # ts) ! (k - i) = r"
    unfolding Cons.IH by (cases "k = i") (auto simp: nth_Cons' Suc_le_eq)
  finally show ?case .
qed auto

lemma run_events_committed:
  assumes "tb_laws c v" "committed v s i = Some u"
  shows "committed v (fst (run_events (commit v) k s ts)) i = Some u"
  using assms(2) by (rule run_events_invariant [rotated]) (rule commit_committed [OF assms(1)])

section \<open>What a batch commits\<close>

lemma commit_settles:
  assumes "tb_laws c v" "commit v s t = (s', r)" "r = TransferOK \<or> r = TransferExists"
  shows "committed v s' (tr_ID t) = Some t"
  using assms(3)
proof
  assume "r = TransferOK"
  with assms(1,2) show ?thesis by (cases rule: commit_cases) simp_all
next
  assume r: "r = TransferExists"
  with assms(2) tb_lawsD(3) [OF assms(1)] have "committed v s (tr_ID t) = Some t"
    unfolding identifier_law_def by blast
  with commit_committed [OF assms(1,2)] show ?thesis .
qed

lemma batch_settles:
  assumes "tb_laws c v" "k < length ts"
    "outcomes (commit v) s ts ! k = TransferOK \<or> outcomes (commit v) s ts ! k = TransferExists"
  shows "committed v (fst (run_events (commit v) i s ts)) (tr_ID (ts ! k)) = Some (ts ! k)"
  using assms(2,3)
proof (induction ts arbitrary: s i k)
  case (Cons t ts)
  show ?case
  proof (cases k)
    case 0
    with Cons.prems have "committed v (fst (commit v s t)) (tr_ID t) = Some t"
      using commit_settles [OF assms(1), of s t "fst (commit v s t)" "snd (commit v s t)"] by simp
    with 0 show ?thesis
      using run_events_committed [OF assms(1)] by (simp only: run_events_state_Cons nth_Cons_0)
  next
    case (Suc m)
    with Cons.prems Cons.IH [of m "fst (commit v s t)" 0] show ?thesis
      by (simp only: run_events_state_Cons) simp
  qed
qed simp

lemma commit_new_account:
  assumes "tb_laws c v" "commit v s t = (s', r)" "acct v s' j = Some b"
  shows "\<exists>a. acct v s j = Some a"
  using assms(1,2)
  by (cases rule: commit_cases) (use assms(3) in \<open>auto simp: effect_apply split: if_splits\<close>)

text \<open>Events under identifiers that are in use change nothing, whatever they say.\<close>

definition unchanged :: "'tb tb_view \<Rightarrow> 'tb \<Rightarrow> 'tb \<Rightarrow> bool" where
  "unchanged v s s' \<longleftrightarrow>
     acct v s' = acct v s \<and> committed v s' = committed v s \<and> voided v s' = voided v s"

lemma unchanged_refl [simp]: "unchanged v s s"
  by (simp add: unchanged_def)

lemma commit_in_use:
  assumes "tb_laws c v" "commit v s t = (s', r)" "committed v s (tr_ID t) \<noteq> None"
  shows "unchanged v s s'" "r \<noteq> TransferOK"
  using assms(1,2) by (cases rule: commit_cases; use assms(3) in \<open>simp add: unchanged_def\<close>)+

lemma batch_in_use:
  assumes "tb_laws c v" "\<forall>t \<in> set ts. committed v s (tr_ID t) \<noteq> None"
  shows "unchanged v s (fst (run_events (commit v) i s ts))"
proof (rule run_events_invariant)
  fix s1 t s2 r
  assume s1: "unchanged v s s1" and t: "t \<in> set ts" and step: "commit v s1 t = (s2, r)"
  then have "committed v s1 (tr_ID t) \<noteq> None"
    using assms(2) by (simp add: unchanged_def)
  from commit_in_use(1) [OF assms(1) step this] s1 show "unchanged v s s2"
    by (simp add: unchanged_def)
qed simp

lemma batch_OK_fresh:
  assumes "tb_laws c v" "k < length ts" "outcomes (commit v) s ts ! k = TransferOK"
  shows "committed v s (tr_ID (ts ! k)) = None"
proof (rule ccontr)
  assume "committed v s (tr_ID (ts ! k)) \<noteq> None"
  with assms(2,3) show False
  proof (induction ts arbitrary: s k)
    case (Cons t ts)
    show ?case
    proof (cases k)
      case 0
      with Cons.prems commit_in_use(2) [OF assms(1) prod.collapse [symmetric], of s t] show ?thesis by simp
    next
      case (Suc m)
      with Cons.prems obtain u where "committed v s (tr_ID (ts ! m)) = Some u" by auto
      then have "committed v (fst (commit v s t)) (tr_ID (ts ! m)) = Some u"
        by (rule commit_committed [OF assms(1) prod.collapse [symmetric]])
      with Cons.IH [of m "fst (commit v s t)"] Cons.prems Suc show ?thesis by simp
    qed
  qed simp
qed

lemma batch_in_use_known:
  assumes "tb_laws c v" "k < length ts" "committed v s (tr_ID (ts ! k)) \<noteq> None"
  shows "committed v (fst (run_events (commit v) i s ts)) (tr_ID (ts ! k)) \<noteq> None"
  using assms(3) run_events_committed [OF assms(1)] by fastforce

lemma exists_answer:
  assumes "tb_laws c v" "committed v s (tr_ID t) = Some t"
  shows "commit v s t = (s, TransferExists)"
  using tb_lawsD(3) [OF assms(1)] assms(2) unfolding identifier_law_def by blast

text \<open>A batch all of whose events are recorded is answered with \<open>exists\<close> throughout.\<close>

lemma batch_recorded:
  assumes "tb_laws c v" "\<forall>t \<in> set ts. committed v s (tr_ID t) = Some t"
  shows "fst (run_events (commit v) i s ts) = s \<and>
    outcomes (commit v) s ts = replicate (length ts) TransferExists"
  using assms(2) by (induction ts arbitrary: i) (simp_all add: split_beta exists_answer [OF assms(1)])

lemma batch_recorded_at:
  assumes "tb_laws c v" "\<forall>t \<in> set ts. committed v s (tr_ID t) \<noteq> None" "k < length ts"
    "committed v s (tr_ID (ts ! k)) = Some (ts ! k)"
  shows "outcomes (commit v) s ts ! k = TransferExists"
  using assms(2-4)
proof (induction ts arbitrary: s k)
  case (Cons t ts)
  have un: "unchanged v s (fst (commit v s t))"
    using commit_in_use(1) [OF assms(1), of s t] Cons.prems(1) by (metis list.set_intros(1) prod.collapse)
  show ?case
  proof (cases k)
    case 0
    with Cons.prems(3) show ?thesis by (simp add: exists_answer [OF assms(1)])
  next
    case (Suc m)
    have "outcomes (commit v) (fst (commit v s t)) ts ! m = TransferExists"
      by (rule Cons.IH) (use Cons.prems un Suc in \<open>simp_all add: unchanged_def\<close>)
    with Suc show ?thesis by simp
  qed
qed simp

section \<open>Identifiers of refused events\<close>

lemma burntD:
  assumes "tb_laws c v"
  shows "commit v s t = (s', TransferExceedsCredits) \<Longrightarrow> burnt v s' (tr_ID t)"
    and "commit v s t = (s', r) \<Longrightarrow> burnt v s i \<Longrightarrow> burnt v s' i"
    and "burnt v s (tr_ID t) \<Longrightarrow> commit v s t = (s, TransferIDAlreadyFailed)"
  using tb_lawsD(4) [OF assms] unfolding burnt_law_def by blast+

lemma run_events_burnt:
  assumes "tb_laws c v" "burnt v s i"
  shows "burnt v (fst (run_events (commit v) k s ts)) i"
  using assms(2) by (rule run_events_invariant [rotated]) (rule burntD(2) [OF assms(1)])

lemma batch_burns:
  assumes "tb_laws c v" "k < length ts" "outcomes (commit v) s ts ! k = TransferExceedsCredits"
  shows "burnt v (fst (run_events (commit v) i s ts)) (tr_ID (ts ! k))"
  using assms(2,3)
proof (induction ts arbitrary: s i k)
  case (Cons t ts)
  show ?case
  proof (cases k)
    case 0
    with Cons.prems have "commit v s t = (fst (commit v s t), TransferExceedsCredits)"
      by (simp add: prod_eq_iff)
    then have "burnt v (fst (commit v s t)) (tr_ID t)" by (rule burntD(1) [OF assms(1)])
    with 0 show ?thesis
      using run_events_burnt [OF assms(1)] by (simp only: run_events_state_Cons nth_Cons_0)
  next
    case (Suc m)
    with Cons.prems Cons.IH [of m "fst (commit v s t)" 0] show ?thesis
      by (simp only: run_events_state_Cons) simp
  qed
qed simp

lemma batch_burnt:
  assumes "tb_laws c v" "k < length ts" "burnt v s (tr_ID (ts ! k))"
  shows "outcomes (commit v) s ts ! k = TransferIDAlreadyFailed"
  using assms(2,3)
proof (induction ts arbitrary: s k)
  case (Cons t ts)
  show ?case
  proof (cases k)
    case 0
    with Cons.prems burntD(3) [OF assms(1), of s t] show ?thesis by simp
  next
    case (Suc m)
    with Cons.prems burntD(2) [OF assms(1), of s t "fst (commit v s t)" "snd (commit v s t)"]
    have "burnt v (fst (commit v s t)) (tr_ID (ts ! m))" by simp
    with Cons.IH Cons.prems Suc show ?thesis by simp
  qed
qed simp

section \<open>Balances after a batch of posted transfers\<close>

definition debit_sum :: "bytes16 \<Rightarrow> (Transfer \<times> CreateTransferResult) list \<Rightarrow> nat" where
  "debit_sum j xs =
     sum_list (map (\<lambda>(t, r). if r = TransferOK \<and> DebitAccountID t = j then unat (Amount t) else 0) xs)"

definition credit_sum :: "bytes16 \<Rightarrow> (Transfer \<times> CreateTransferResult) list \<Rightarrow> nat" where
  "credit_sum j xs =
     sum_list (map (\<lambda>(t, r). if r = TransferOK \<and> CreditAccountID t = j then unat (Amount t) else 0) xs)"

lemma batch_sums_simps [simp]:
  "debit_sum j [] = 0" "credit_sum j [] = 0"
  "debit_sum j ((t, r) # xs) =
     (if r = TransferOK \<and> DebitAccountID t = j then unat (Amount t) else 0) + debit_sum j xs"
  "credit_sum j ((t, r) # xs) =
     (if r = TransferOK \<and> CreditAccountID t = j then unat (Amount t) else 0) + credit_sum j xs"
  by (simp_all add: debit_sum_def credit_sum_def)

text \<open>An account whose posted balances grew, everything else unchanged.\<close>

definition grown :: "Account \<Rightarrow> nat \<Rightarrow> nat \<Rightarrow> Account \<Rightarrow> bool" where
  "grown a d k b \<longleftrightarrow> same_account b a \<and>
     DebitsPending b = DebitsPending a \<and> CreditsPending b = CreditsPending a \<and>
     unat (DebitsPosted b) = unat (DebitsPosted a) + d \<and>
     unat (CreditsPosted b) = unat (CreditsPosted a) + k"

lemma grown_zero [simp]: "grown a 0 0 a"
  by (simp add: grown_def)

lemma grown_add: "grown a d k b \<Longrightarrow> grown b d' k' b' \<Longrightarrow> grown a (d + d') (k + k') b'"
  by (auto simp: grown_def intro: same_account_trans)

lemma post_grown:
  assumes "tb_laws c v" "commit v s t = (s', r)" "posting t" "acct v s j = Some a"
  shows "\<exists>b. acct v s' j = Some b \<and> grown a
     (if r = TransferOK \<and> DebitAccountID t = j then unat (Amount t) else 0)
     (if r = TransferOK \<and> CreditAccountID t = j then unat (Amount t) else 0) b"
  using assms(1,2)
proof (cases rule: commit_cases)
  case rejected
  then show ?thesis using assms(4) by simp
next
  case (moved d e)
  note adds = unat_balance_add(1) [OF moved(6)] unat_balance_add(3) [OF moved(7)]
  have eff: "acct v s' j = post_effect t (acct v s) j"
    using moved(10) assms(3) by (simp add: posting_def)
  consider "j = DebitAccountID t" | "j = CreditAccountID t"
    | "j \<noteq> DebitAccountID t" "j \<noteq> CreditAccountID t" by blast
  then show ?thesis
    by cases (use assms(4) moved(1,3-5) adds eff in \<open>simp_all add: effect_apply grown_def\<close>)
next
  case (released p)
  then show ?thesis using assms(3) by (simp add: posting_def)
qed

lemma batch_grown:
  assumes "tb_laws c v" "\<forall>t \<in> set ts. posting t" "acct v s j = Some a"
  shows "\<exists>b. acct v (fst (run_events (commit v) i s ts)) j = Some b \<and>
     grown a (debit_sum j (zip ts (outcomes (commit v) s ts)))
       (credit_sum j (zip ts (outcomes (commit v) s ts))) b"
  using assms(2,3)
proof (induction ts arbitrary: s i a)
  case (Cons t ts)
  let ?s1 = "fst (commit v s t)" and ?r = "snd (commit v s t)"
  obtain b where b: "acct v ?s1 j = Some b" "grown a
     (if ?r = TransferOK \<and> DebitAccountID t = j then unat (Amount t) else 0)
     (if ?r = TransferOK \<and> CreditAccountID t = j then unat (Amount t) else 0) b"
    using post_grown [OF assms(1) prod.collapse [symmetric], of t s j a] Cons.prems by auto
  obtain d where d: "acct v (fst (run_events (commit v) 0 ?s1 ts)) j = Some d"
    "grown b (debit_sum j (zip ts (outcomes (commit v) ?s1 ts)))
       (credit_sum j (zip ts (outcomes (commit v) ?s1 ts))) d"
    using Cons.IH [of ?s1 b 0] Cons.prems(1) b(1) by auto
  from grown_add [OF b(2) d(2)] d(1) show ?case
    by (intro exI [of _ d]) (simp only: run_events_state_Cons outcomes.simps zip_Cons_Cons batch_sums_simps simp_thms)
qed simp

section \<open>Funded batches are accepted\<close>

definition asked_debit :: "bytes16 \<Rightarrow> Transfer list \<Rightarrow> nat" where
  "asked_debit j ts = sum_list (map (\<lambda>t. if DebitAccountID t = j then unat (Amount t) else 0) ts)"

definition asked_credit :: "bytes16 \<Rightarrow> Transfer list \<Rightarrow> nat" where
  "asked_credit j ts = sum_list (map (\<lambda>t. if CreditAccountID t = j then unat (Amount t) else 0) ts)"

lemma asked_simps [simp]:
  "asked_debit j [] = 0" "asked_credit j [] = 0"
  "asked_debit j (t # ts) = (if DebitAccountID t = j then unat (Amount t) else 0) + asked_debit j ts"
  "asked_credit j (t # ts) = (if CreditAccountID t = j then unat (Amount t) else 0) + asked_credit j ts"
  by (simp_all add: asked_debit_def asked_credit_def)

definition well_addressed :: "'tb tb_view \<Rightarrow> 'tb \<Rightarrow> Transfer \<Rightarrow> bool" where
  "well_addressed v s t \<longleftrightarrow>
     valid_id (tr_ID t) \<and> PendingID t = 0 \<and> committed v s (tr_ID t) = None \<and> \<not> burnt v s (tr_ID t) \<and>
     tr_Ledger t \<noteq> 0 \<and> tr_Code t \<noteq> 0 \<and> DebitAccountID t \<noteq> CreditAccountID t \<and> posting t \<and>
     (\<exists>a b. acct v s (DebitAccountID t) = Some a \<and> acct v s (CreditAccountID t) = Some b \<and>
        acc_Ledger a = tr_Ledger t \<and> acc_Ledger b = tr_Ledger t)"

text \<open>Room for the whole batch on an account: no overflow, and within the credits if flagged.\<close>

definition room :: "Account \<Rightarrow> nat \<Rightarrow> nat \<Rightarrow> bool" where
  "room a d k \<longleftrightarrow> debits_total a + d < 2 ^ 128 \<and>
     unat (CreditsPending a) + unat (CreditsPosted a) + k < 2 ^ 128 \<and>
     (DebitsMustNotExceedCredits (acc_Flags a) \<longrightarrow> debits_total a + d \<le> unat (CreditsPosted a))"

definition funded :: "'tb tb_view \<Rightarrow> 'tb \<Rightarrow> Transfer list \<Rightarrow> bool" where
  "funded v s ts \<longleftrightarrow> distinct (map tr_ID ts) \<and> (\<forall>t \<in> set ts. well_addressed v s t) \<and>
     (\<forall>j a. acct v s j = Some a \<longrightarrow> room a (asked_debit j ts) (asked_credit j ts))"

lemma funded_room: "funded v s ts \<Longrightarrow> acct v s j = Some a \<Longrightarrow> room a (asked_debit j ts) (asked_credit j ts)"
  by (simp only: funded_def)

lemma well_addressed_commit:
  assumes "tb_laws c v" "commit v s t = (s', TransferOK)" "well_addressed v s u" "tr_ID u \<noteq> tr_ID t"
  shows "well_addressed v s' u"
proof -
  have ids: "committed v s' = (committed v s)(tr_ID t \<mapsto> t)" "burnt v s' = burnt v s"
    using tb_lawsD(3) [OF assms(1)] assms(2) unfolding identifier_law_def by blast+
  obtain a b where ab: "acct v s (DebitAccountID u) = Some a" "acct v s (CreditAccountID u) = Some b"
    "acc_Ledger a = tr_Ledger u" "acc_Ledger b = tr_Ledger u"
    using assms(3) unfolding well_addressed_def by blast
  obtain a' b' where "acct v s' (DebitAccountID u) = Some a'" "same_account a' a"
    "acct v s' (CreditAccountID u) = Some b'" "same_account b' b"
    using commit_account [OF assms(1,2)] ab(1,2) by blast
  with ab ids assms(3,4) show ?thesis by (simp add: well_addressed_def same_account_def)
qed

lemma funded_head:
  assumes "funded v s (t # ts)"
  shows "fundable v s t"
proof -
  have w: "well_addressed v s t" using assms by (simp add: funded_def)
  then obtain a b where ab: "acct v s (DebitAccountID t) = Some a" "acct v s (CreditAccountID t) = Some b"
    "acc_Ledger a = tr_Ledger t" "acc_Ledger b = tr_Ledger t"
    by (auto simp: well_addressed_def)
  then have "room a (asked_debit (DebitAccountID t) (t # ts)) (asked_credit (DebitAccountID t) (t # ts))"
    "room b (asked_debit (CreditAccountID t) (t # ts)) (asked_credit (CreditAccountID t) (t # ts))"
    using funded_room [OF assms] by blast+
  with ab w show ?thesis
    by (auto simp: fundable_def well_addressed_def posting_def room_def)
qed

lemma grown_room:
  assumes "grown a d k b" "room a (d + d') (k + k')"
  shows "room b d' k'"
  using assms by (auto simp: grown_def room_def debits_total_def same_account_def)

lemma funded_tail:
  assumes laws: "tb_laws c v" and f: "funded v s (t # ts)" and step: "commit v s t = (s', TransferOK)"
  shows "funded v s' ts"
proof -
  have post: "posting t" using f by (simp add: funded_def well_addressed_def)
  have "well_addressed v s' u" if "u \<in> set ts" for u
    using f that by (intro well_addressed_commit [OF laws step]) (auto simp: funded_def image_iff)
  moreover have "room b (asked_debit j ts) (asked_credit j ts)" if b: "acct v s' j = Some b" for j b
  proof -
    obtain a where a: "acct v s j = Some a"
      using b laws step by (auto dest: commit_new_account)
    then have "grown a (if DebitAccountID t = j then unat (Amount t) else 0)
        (if CreditAccountID t = j then unat (Amount t) else 0) b"
      using post_grown [OF laws step post a] b by simp
    moreover have "room a (asked_debit j (t # ts)) (asked_credit j (t # ts))"
      using funded_room [OF f a] .
    ultimately show ?thesis by (rule_tac grown_room) simp_all
  qed
  ultimately show ?thesis using f by (simp add: funded_def)
qed

lemma funded_outcomes:
  assumes "tb_laws c v" "funded v s ts"
  shows "outcomes (commit v) s ts = replicate (length ts) TransferOK"
  using assms(2)
proof (induction ts arbitrary: s)
  case (Cons t ts)
  have ok: "snd (commit v s t) = TransferOK"
    using tb_lawsD(7) [OF assms(1)] funded_head [OF Cons.prems] by (simp add: acceptance_law_def)
  then have "commit v s t = (fst (commit v s t), TransferOK)" by (metis prod.collapse)
  from Cons.IH [OF funded_tail [OF assms(1) Cons.prems this]] ok show ?case by simp
qed simp

section \<open>Operations built from client calls\<close>

named_theorems ledger_reach \<open>the service states an operation reaches\<close>

lemma reach_callI [ledger_reach]:
  "CreateTransfers c s1 ts = (s2, tr) \<Longrightarrow> tb_reach c s s1 \<Longrightarrow> tb_reach c s s2"
  "CreateAccounts c s1 as = (s2, ar) \<Longrightarrow> list_all zero_balances as \<Longrightarrow> tb_reach c s s1 \<Longrightarrow> tb_reach c s s2"
  "types_ID c s1 = (s2, i) \<Longrightarrow> tb_reach c s s1 \<Longrightarrow> tb_reach c s s2"
  using reach_transfers [of c s s1 ts] reach_accounts [of c s s1 as] reach_random [of c s s1] by auto

text \<open>
  The contract of an operation that changes the service only through client calls; whatever
  every call keeps, the operation keeps.
\<close>

locale ledger_call =
  fixes c :: "'tb tb_client" and run :: "'tb \<Rightarrow> 'tb"
  assumes reach: "tb_reach c s (run s)"
begin

lemma reach_from: "tb_reach c s0 s \<Longrightarrow> tb_reach c s0 (run s)"
  by (rule tb_reach_trans [OF reach])

lemma keeps_hard_limit: "tb_laws c v \<Longrightarrow> hard_limit v s \<Longrightarrow> hard_limit v (run s)"
  by (rule limit_kept.reach_keeps [OF reach])

lemma keeps_books: "tb_laws c v \<Longrightarrow> books v s \<Longrightarrow> books v (run s)"
  by (rule books_kept.reach_keeps [OF reach])

lemma keeps_transfer: "tb_laws c v \<Longrightarrow> committed v s i = Some t \<Longrightarrow> committed v (run s) i = Some t"
  by (rule transfer_kept.reach_keeps [OF reach])

lemma keeps_account:
  "tb_laws c v \<Longrightarrow> acct v s j = Some a \<Longrightarrow> \<exists>b. acct v (run s) j = Some b \<and> same_account b a"
  by (rule account_kept.reach_keeps [OF reach]) auto

end

end
