(* ===== verification/Reference_Ledger.thy ===== *)
theory Reference_Ledger
  imports TB_Client
begin

text \<open>
  An inhabitant of the TigerBeetle laws.  The functions here do not model any code of the
  repository: they are a small executable ledger that satisfies every law of \<open>tb_laws\<close>, so
  the theorems that assume the laws are not vacuous, and the witnesses have something to run.
\<close>

section \<open>State and operations\<close>

datatype id_status = Committed Transfer bool | Burnt

record ref_tb =
  ref_accounts :: "(bytes16, Account) gomap"
  ref_ids :: "(bytes16, id_status) gomap"
  ref_next :: bytes16

definition empty_ref :: ref_tb where
  "empty_ref = \<lparr>ref_accounts = [], ref_ids = [], ref_next = 1000\<rparr>"

definition ref_acct :: "ref_tb \<Rightarrow> bytes16 \<Rightarrow> Account option" where
  "ref_acct s j = map_option (\<lambda>a. a\<lparr>acc_ID := j\<rparr>) (map_of (ref_accounts s) j)"

definition ref_committed :: "ref_tb \<Rightarrow> bytes16 \<Rightarrow> Transfer option" where
  "ref_committed s i =
     (case map_of (ref_ids s) i of Some (Committed t _) \<Rightarrow> Some (t\<lparr>tr_ID := i\<rparr>) | _ \<Rightarrow> None)"

definition ref_voided :: "ref_tb \<Rightarrow> bytes16 \<Rightarrow> bool" where
  "ref_voided s i = (case map_of (ref_ids s) i of Some (Committed _ w) \<Rightarrow> w | _ \<Rightarrow> False)"

definition ref_burnt :: "ref_tb \<Rightarrow> bytes16 \<Rightarrow> bool" where
  "ref_burnt s i \<longleftrightarrow> map_of (ref_ids s) i = Some Burnt"

definition upd_account :: "bytes16 \<Rightarrow> (Account \<Rightarrow> Account) \<Rightarrow> ref_tb \<Rightarrow> ref_tb" where
  "upd_account i f s =
     (case map_of (ref_accounts s) i of
        None \<Rightarrow> s
      | Some a \<Rightarrow> s\<lparr>ref_accounts := AList.update i (f a) (ref_accounts s)\<rparr>)"

definition set_status :: "bytes16 \<Rightarrow> id_status \<Rightarrow> ref_tb \<Rightarrow> ref_tb" where
  "set_status i w s = s\<lparr>ref_ids := AList.update i w (ref_ids s)\<rparr>"

definition ref_move :: "Transfer \<Rightarrow> ref_tb \<Rightarrow> ref_tb" where
  "ref_move t s =
     (if Pending (tr_Flags t)
      then upd_account (CreditAccountID t) (\<lambda>a. a\<lparr>CreditsPending := CreditsPending a + Amount t\<rparr>)
             (upd_account (DebitAccountID t) (\<lambda>a. a\<lparr>DebitsPending := DebitsPending a + Amount t\<rparr>) s)
      else upd_account (CreditAccountID t) (\<lambda>a. a\<lparr>CreditsPosted := CreditsPosted a + Amount t\<rparr>)
             (upd_account (DebitAccountID t) (\<lambda>a. a\<lparr>DebitsPosted := DebitsPosted a + Amount t\<rparr>) s))"

text \<open>Sums of three balances, compared without wrap-around.\<close>

definition ref_overflow :: "bytes16 \<Rightarrow> bytes16 \<Rightarrow> bytes16 \<Rightarrow> bool" where
  "ref_overflow x y n \<longleftrightarrow> 2 ^ 128 \<le> unat x + unat y + unat n"

definition ref_lacks :: "bytes16 \<Rightarrow> bytes16 \<Rightarrow> bytes16 \<Rightarrow> bytes16 \<Rightarrow> bool" where
  "ref_lacks z x y n \<longleftrightarrow> unat z < unat x + unat y + unat n"

lemma ref_sums_code [code]:
  "ref_overflow x y n \<longleftrightarrow> 340282366920938463463374607431768211456 \<le> uint x + uint y + uint n"
  "ref_lacks z x y n \<longleftrightarrow> uint z < uint x + uint y + uint n"
proof -
  have sum: "uint x + uint y + uint n = int (unat x + unat y + unat n)" by simp
  have "(340282366920938463463374607431768211456 :: int) = int (2 ^ 128)" by simp
  then show "ref_overflow x y n \<longleftrightarrow> 340282366920938463463374607431768211456 \<le> uint x + uint y + uint n"
    unfolding sum ref_overflow_def by (simp only: of_nat_le_iff)
  have "uint z = int (unat z)" by simp
  then show "ref_lacks z x y n \<longleftrightarrow> uint z < uint x + uint y + uint n"
    unfolding sum ref_lacks_def by (simp only: of_nat_less_iff)
qed

lemma ref_sums [simp]:
  "ref_overflow (DebitsPending a) (DebitsPosted a) n \<longleftrightarrow> 2 ^ 128 \<le> debits_total a + unat n"
  "ref_overflow (CreditsPending a) (CreditsPosted a) n \<longleftrightarrow>
     2 ^ 128 \<le> unat (CreditsPending a) + unat (CreditsPosted a) + unat n"
  "ref_lacks z (DebitsPending a) (DebitsPosted a) n \<longleftrightarrow> unat z < debits_total a + unat n"
  by (simp_all add: ref_overflow_def ref_lacks_def debits_total_def)

definition ref_transfer :: "ref_tb \<Rightarrow> Transfer \<Rightarrow> ref_tb \<times> CreateTransferResult" where
  "ref_transfer s t =
     (case (ref_acct s (DebitAccountID t), ref_acct s (CreditAccountID t)) of
        (Some a, Some b) \<Rightarrow>
          if DebitAccountID t = CreditAccountID t \<or> tr_ID t = 0 \<or> tr_Ledger t = 0 \<or> tr_Code t = 0 \<or>
             acc_Ledger a \<noteq> tr_Ledger t \<or> acc_Ledger b \<noteq> tr_Ledger t
          then (s, TransferFailed 1)
          else if ref_overflow (DebitsPending a) (DebitsPosted a) (Amount t) \<or>
             ref_overflow (CreditsPending b) (CreditsPosted b) (Amount t)
          then (s, TransferFailed 2)
          else if DebitsMustNotExceedCredits (acc_Flags a) \<and>
             ref_lacks (CreditsPosted a) (DebitsPending a) (DebitsPosted a) (Amount t)
          then (set_status (tr_ID t) Burnt s, TransferExceedsCredits)
          else (set_status (tr_ID t) (Committed t False) (ref_move t s), TransferOK)
      | _ \<Rightarrow> (s, TransferFailed 3))"

definition ref_release :: "Transfer \<Rightarrow> ref_tb \<Rightarrow> ref_tb" where
  "ref_release p s =
     upd_account (CreditAccountID p) (\<lambda>a. a\<lparr>CreditsPending := CreditsPending a - Amount p\<rparr>)
       (upd_account (DebitAccountID p) (\<lambda>a. a\<lparr>DebitsPending := DebitsPending a - Amount p\<rparr>) s)"

definition ref_void :: "ref_tb \<Rightarrow> Transfer \<Rightarrow> ref_tb \<times> CreateTransferResult" where
  "ref_void s t =
     (case ref_committed s (PendingID t) of
        None \<Rightarrow> (s, TransferPendingTransferNotFound)
      | Some p \<Rightarrow>
          if ref_voided s (PendingID t) then (s, TransferPendingTransferAlreadyVoided)
          else if tr_ID t = 0 \<or> \<not> Pending (tr_Flags p) \<or> VoidPendingTransfer (tr_Flags p) \<or>
             DebitAccountID p = CreditAccountID p \<or>
             (case ref_acct s (DebitAccountID p) of
                None \<Rightarrow> False | Some a \<Rightarrow> DebitsPending a < Amount p)
          then (s, TransferFailed 4)
          else (set_status (tr_ID t) (Committed t False)
                  (set_status (PendingID t) (Committed p True) (ref_release p s)), TransferOK))"

definition ref_commit :: "ref_tb \<Rightarrow> Transfer \<Rightarrow> ref_tb \<times> CreateTransferResult" where
  "ref_commit s t =
     (case map_of (ref_ids s) (tr_ID t) of
        Some (Committed u w) \<Rightarrow>
          (s, if u\<lparr>tr_ID := tr_ID t\<rparr> = t then TransferExists else TransferExistsWithDifferentAmount)
      | Some Burnt \<Rightarrow> (s, TransferIDAlreadyFailed)
      | None \<Rightarrow> if VoidPendingTransfer (tr_Flags t) then ref_void s t else ref_transfer s t)"

fun ref_create_accounts ::
    "nat \<Rightarrow> ref_tb \<Rightarrow> Account list \<Rightarrow> ref_tb \<times> CreateAccountResult event_results" where
  "ref_create_accounts i s [] = (s, [])"
| "ref_create_accounts i s (a # as) =
     (case map_of (ref_accounts s) (acc_ID a) of
        Some b \<Rightarrow>
          (case ref_create_accounts (Suc i) s as of (s', rs) \<Rightarrow>
            (s', (i, if same_account (b\<lparr>acc_ID := acc_ID a\<rparr>) a then AccountExists else AccountFailed 1) # rs))
      | None \<Rightarrow>
          ref_create_accounts (Suc i)
            (s\<lparr>ref_accounts := AList.update (acc_ID a) a (ref_accounts s)\<rparr>) as)"

definition ref_client :: "ref_tb tb_client" where
  "ref_client =
     \<lparr>CreateAccounts = (\<lambda>s as. case ref_create_accounts 0 s as of (s', rs) \<Rightarrow> (s', Inr rs)),
      CreateTransfers = (\<lambda>s ts. case run_events ref_commit 0 s ts of (s', rs) \<Rightarrow> (s', Inr rs)),
      LookupAccounts = (\<lambda>s ids. Inr (List.map_filter (ref_acct s) ids)),
      types_ID = (\<lambda>s. (s\<lparr>ref_next := ref_next s + 1\<rparr>, ref_next s))\<rparr>"

definition ref_view :: "ref_tb tb_view" where
  "ref_view = \<lparr>acct = ref_acct, committed = ref_committed, voided = ref_voided,
               burnt = ref_burnt, commit = ref_commit\<rparr>"

section \<open>The laws hold\<close>

lemma ref_acct_upd_account:
  assumes "\<And>a j. f (a\<lparr>acc_ID := j\<rparr>) = (f a)\<lparr>acc_ID := j\<rparr>"
  shows "ref_acct (upd_account i f s) = on_account i f (ref_acct s)"
  by (rule ext) (auto simp: ref_acct_def upd_account_def on_account_def assms split: option.splits)

lemma ref_acct_set_status [simp]: "ref_acct (set_status i w s) = ref_acct s"
  by (rule ext) (simp add: ref_acct_def set_status_def)

lemma upd_account_ids [simp]: "ref_ids (upd_account i f s) = ref_ids s"
  by (simp add: upd_account_def split: option.splits)

lemma ref_move_ids [simp]: "ref_ids (ref_move t s) = ref_ids s"
  by (simp add: ref_move_def)

lemma ref_release_ids [simp]: "ref_ids (ref_release t s) = ref_ids s"
  by (simp add: ref_release_def)

lemma ref_acct_move:
  "ref_acct (ref_move t s) =
     (if Pending (tr_Flags t) then reserve_effect t (ref_acct s) else post_effect t (ref_acct s))"
  by (simp add: ref_move_def reserve_effect_def post_effect_def ref_acct_upd_account)

lemma ref_acct_release: "ref_acct (ref_release p s) = release_effect p (ref_acct s)"
  by (simp add: ref_release_def release_effect_def ref_acct_upd_account)

lemma status_view_cong:
  "ref_ids s' = ref_ids s \<Longrightarrow> ref_committed s' = ref_committed s"
  "ref_ids s' = ref_ids s \<Longrightarrow> ref_voided s' = ref_voided s"
  "ref_ids s' = ref_ids s \<Longrightarrow> ref_burnt s' = ref_burnt s"
  by (simp_all add: ref_committed_def ref_voided_def ref_burnt_def fun_eq_iff)

lemma move_status [simp]:
  "ref_committed (ref_move t s) = ref_committed s" "ref_voided (ref_move t s) = ref_voided s"
  "ref_burnt (ref_move t s) = ref_burnt s"
  "ref_committed (ref_release p s) = ref_committed s" "ref_voided (ref_release p s) = ref_voided s"
  "ref_burnt (ref_release p s) = ref_burnt s"
  by (rule status_view_cong, simp)+

lemma set_status_ids [simp]: "ref_ids (set_status i w s) = AList.update i w (ref_ids s)"
  by (simp add: set_status_def)

lemma ref_void_OK:
  assumes "ref_void s t = (s', TransferOK)"
  obtains p where "ref_committed s (PendingID t) = Some p" "\<not> ref_voided s (PendingID t)"
    "tr_ID t \<noteq> 0" "Pending (tr_Flags p)" "\<not> VoidPendingTransfer (tr_Flags p)"
    "DebitAccountID p \<noteq> CreditAccountID p"
    "\<And>a. ref_acct s (DebitAccountID p) = Some a \<Longrightarrow> unat (Amount p) \<le> unat (DebitsPending a)"
    "s' = set_status (tr_ID t) (Committed t False)
            (set_status (PendingID t) (Committed p True) (ref_release p s))"
  using assms by (fastforce simp: ref_void_def word_less_nat_alt split: option.splits if_splits)

lemma ref_transfer_OK:
  assumes "ref_transfer s t = (s', TransferOK)"
  obtains a b where "ref_acct s (DebitAccountID t) = Some a" "ref_acct s (CreditAccountID t) = Some b"
    "DebitAccountID t \<noteq> CreditAccountID t" "tr_ID t \<noteq> 0"
    "debits_total a + unat (Amount t) < 2 ^ 128"
    "unat (CreditsPending b) + unat (CreditsPosted b) + unat (Amount t) < 2 ^ 128"
    "DebitsMustNotExceedCredits (acc_Flags a) \<Longrightarrow> debits_total a + unat (Amount t) \<le> unat (CreditsPosted a)"
    "s' = set_status (tr_ID t) (Committed t False) (ref_move t s)"
  using assms by (auto simp: ref_transfer_def not_le not_less split: option.splits if_splits)

lemma ref_commit_OK_iff:
  "ref_commit s t = (s', TransferOK) \<longleftrightarrow>
     map_of (ref_ids s) (tr_ID t) = None \<and>
     (if VoidPendingTransfer (tr_Flags t) then ref_void s t else ref_transfer s t) = (s', TransferOK)"
  by (auto simp: ref_commit_def split: option.splits id_status.splits)

lemma ref_commit_rejected:
  assumes "ref_commit s t = (s', r)" "r \<noteq> TransferOK"
  shows "s' = s \<and> r \<noteq> TransferExceedsCredits \<or>
    s' = set_status (tr_ID t) Burnt s \<and> map_of (ref_ids s) (tr_ID t) = None"
  using assms
  by (auto simp: ref_commit_def ref_void_def ref_transfer_def split: option.splits id_status.splits if_splits)

lemma ref_view_simps [simp]:
  "acct ref_view = ref_acct" "committed ref_view = ref_committed" "voided ref_view = ref_voided"
  "burnt ref_view = ref_burnt" "commit ref_view = ref_commit"
  by (simp_all add: ref_view_def)

lemma burn_status:
  assumes "map_of (ref_ids s) i = None"
  shows "ref_committed (set_status i Burnt s) = ref_committed s"
    and "ref_voided (set_status i Burnt s) = ref_voided s"
    and "ref_burnt (set_status i Burnt s) = (ref_burnt s)(i := True)"
  using assms by (auto simp: ref_committed_def ref_voided_def ref_burnt_def fun_eq_iff)

lemma record_status:
  assumes "map_of (ref_ids s) (tr_ID t) = None"
  shows "ref_committed (set_status (tr_ID t) (Committed t False) s) = (ref_committed s)(tr_ID t \<mapsto> t)"
    and "ref_voided (set_status (tr_ID t) (Committed t False) s) = ref_voided s"
    and "ref_burnt (set_status (tr_ID t) (Committed t False) s) = ref_burnt s"
  using assms by (auto simp: ref_committed_def ref_voided_def ref_burnt_def fun_eq_iff)

lemma void_status:
  assumes "ref_committed s i = Some p"
  shows "ref_committed (set_status i (Committed p True) s) = ref_committed s"
    and "ref_voided (set_status i (Committed p True) s) = (ref_voided s)(i := True)"
    and "ref_burnt (set_status i (Committed p True) s) = ref_burnt s"
  using assms
  by (auto simp: ref_committed_def ref_voided_def ref_burnt_def fun_eq_iff
      split: option.splits id_status.splits)

lemma ref_rejected: "rejected_law ref_view"
  unfolding rejected_law_def using ref_commit_rejected by (fastforce simp: burn_status)

lemma ref_committed_status:
  "ref_committed s i = Some p \<Longrightarrow> \<exists>u w. map_of (ref_ids s) i = Some (Committed u w) \<and> p = u\<lparr>tr_ID := i\<rparr>"
  by (auto simp: ref_committed_def split: option.splits id_status.splits)

lemma ref_ok_status:
  assumes "ref_commit s t = (s', TransferOK)"
  shows "tr_ID t \<noteq> 0" "ref_committed s (tr_ID t) = None" "\<not> ref_burnt s (tr_ID t)"
    "ref_committed s' = (ref_committed s)(tr_ID t \<mapsto> t)" "ref_burnt s' = ref_burnt s"
proof -
  have free: "map_of (ref_ids s) (tr_ID t) = None"
    using assms by (simp add: ref_commit_OK_iff)
  then show "ref_committed s (tr_ID t) = None" "\<not> ref_burnt s (tr_ID t)"
    by (simp_all add: ref_committed_def ref_burnt_def)
  have "tr_ID t \<noteq> 0 \<and> ref_committed s' = (ref_committed s)(tr_ID t \<mapsto> t) \<and> ref_burnt s' = ref_burnt s"
  proof (cases "VoidPendingTransfer (tr_Flags t)")
    case True
    with assms have "ref_void s t = (s', TransferOK)" by (simp add: ref_commit_OK_iff)
    then obtain p where p: "ref_committed s (PendingID t) = Some p" "tr_ID t \<noteq> 0"
      and s': "s' = set_status (tr_ID t) (Committed t False)
            (set_status (PendingID t) (Committed p True) (ref_release p s))"
      by (rule ref_void_OK) blast
    let ?s2 = "set_status (PendingID t) (Committed p True) (ref_release p s)"
    have p1: "ref_committed (ref_release p s) (PendingID t) = Some p"
      using p by simp
    have "tr_ID t \<noteq> PendingID t"
      using free ref_committed_status [OF p(1)] by auto
    with free have free2: "map_of (ref_ids ?s2) (tr_ID t) = None" by simp
    show ?thesis
      unfolding s' record_status [OF free2] void_status [OF p1] using p(2) by simp
  next
    case False
    with assms have "ref_transfer s t = (s', TransferOK)" by (simp add: ref_commit_OK_iff)
    then obtain nz: "tr_ID t \<noteq> 0" and s': "s' = set_status (tr_ID t) (Committed t False) (ref_move t s)"
      by (rule ref_transfer_OK) blast
    from free have free2: "map_of (ref_ids (ref_move t s)) (tr_ID t) = None" by simp
    show ?thesis
      unfolding s' record_status [OF free2] using nz by simp
  qed
  then show "tr_ID t \<noteq> 0" "ref_committed s' = (ref_committed s)(tr_ID t \<mapsto> t)" "ref_burnt s' = ref_burnt s"
    by simp_all
qed

lemma ref_identifier: "identifier_law ref_view"
  unfolding identifier_law_def
proof (intro conjI allI impI)
  fix s and t :: Transfer
  assume "committed ref_view s (tr_ID t) = Some t"
  then have "ref_committed s (tr_ID t) = Some t" by simp
  from ref_committed_status [OF this] show "commit ref_view s t = (s, TransferExists)"
    by (auto simp: ref_commit_def)
next
  fix s s' and t :: Transfer
  assume "commit ref_view s t = (s', TransferExists)"
  then show "committed ref_view s (tr_ID t) = Some t"
    by (auto simp: ref_commit_def ref_committed_def ref_void_def ref_transfer_def
        split: option.splits id_status.splits if_splits)
next
  fix s s' r and t :: Transfer
  assume "commit ref_view s t = (s', r)"
    "r \<in> {TransferExistsWithDifferentDebitAccountID, TransferExistsWithDifferentCreditAccountID,
          TransferExistsWithDifferentAmount}"
  then show "committed ref_view s (tr_ID t) \<noteq> None"
    by (auto simp: ref_commit_def ref_committed_def ref_void_def ref_transfer_def
        split: option.splits id_status.splits if_splits)
qed (use ref_ok_status in simp_all)

lemma ref_burnt_law: "burnt_law ref_view"
  unfolding burnt_law_def
proof (intro conjI allI impI)
  fix s t s'
  assume "commit ref_view s t = (s', TransferExceedsCredits)"
  then show "burnt ref_view s' (tr_ID t)"
    using ref_commit_rejected [of s t s' TransferExceedsCredits] by (auto simp: burn_status)
next
  fix s t s' r i
  assume c: "commit ref_view s t = (s', r)" and b: "burnt ref_view s i"
  show "burnt ref_view s' i"
  proof (cases "r = TransferOK")
    case True
    with c b show ?thesis using ref_ok_status(5) by simp
  next
    case False
    with c b show ?thesis using ref_commit_rejected [of s t s' r] by (auto simp: burn_status)
  qed
next
  fix s and t :: Transfer
  assume "burnt ref_view s (tr_ID t)"
  then show "commit ref_view s t = (s, TransferIDAlreadyFailed)"
    by (simp add: ref_commit_def ref_burnt_def)
qed

lemma ref_transfer_law: "transfer_law ref_view"
  unfolding transfer_law_def
proof (intro allI impI)
  fix s t s'
  assume ok: "commit ref_view s t = (s', TransferOK)" and nv: "\<not> VoidPendingTransfer (tr_Flags t)"
  then have free: "map_of (ref_ids (ref_move t s)) (tr_ID t) = None"
    and "ref_transfer s t = (s', TransferOK)" by (simp_all add: ref_commit_OK_iff)
  from this(2) obtain a b where
    ab: "ref_acct s (DebitAccountID t) = Some a" "ref_acct s (CreditAccountID t) = Some b"
      "DebitAccountID t \<noteq> CreditAccountID t"
      "debits_total a + unat (Amount t) < 2 ^ 128"
      "unat (CreditsPending b) + unat (CreditsPosted b) + unat (Amount t) < 2 ^ 128"
      "DebitsMustNotExceedCredits (acc_Flags a) \<Longrightarrow> debits_total a + unat (Amount t) \<le> unat (CreditsPosted a)"
    and s': "s' = set_status (tr_ID t) (Committed t False) (ref_move t s)"
    by (rule ref_transfer_OK) blast
  have acc: "acct ref_view s' =
      (if Pending (tr_Flags t) then reserve_effect t (acct ref_view s) else post_effect t (acct ref_view s))"
    unfolding s' by (simp add: ref_acct_move)
  have "voided ref_view s' = voided ref_view s"
    unfolding s' using record_status(2) [OF free] by simp
  with ab acc show "(\<exists>a b. acct ref_view s (DebitAccountID t) = Some a \<and>
      acct ref_view s (CreditAccountID t) = Some b \<and>
      DebitAccountID t \<noteq> CreditAccountID t \<and>
      debits_total a + unat (Amount t) < 2 ^ 128 \<and>
      unat (CreditsPending b) + unat (CreditsPosted b) + unat (Amount t) < 2 ^ 128 \<and>
      (DebitsMustNotExceedCredits (acc_Flags a) \<longrightarrow>
         debits_total a + unat (Amount t) \<le> unat (CreditsPosted a))) \<and>
    voided ref_view s' = voided ref_view s \<and>
    acct ref_view s' =
      (if Pending (tr_Flags t) then reserve_effect t (acct ref_view s) else post_effect t (acct ref_view s))"
    by (metis ref_view_simps(1))
qed

lemma ref_void_refused:
  "ref_commit s t = (s', TransferPendingTransferNotFound) \<Longrightarrow> ref_committed s (PendingID t) = None"
  "ref_commit s t = (s', TransferPendingTransferAlreadyVoided) \<Longrightarrow> ref_voided s (PendingID t)"
  by (auto simp: ref_commit_def ref_void_def ref_transfer_def
      split: option.splits id_status.splits if_splits)

lemma ref_void_law: "void_law ref_view"
  unfolding void_law_def
proof (intro conjI allI impI)
  fix s t s'
  assume "commit ref_view s t = (s', TransferPendingTransferNotFound)"
  then show "committed ref_view s (PendingID t) = None" using ref_void_refused(1) by simp
next
  fix s t s'
  assume "commit ref_view s t = (s', TransferPendingTransferAlreadyVoided)"
  then show "voided ref_view s (PendingID t)" using ref_void_refused(2) by simp
next
  fix s t s'
  assume ok: "commit ref_view s t = (s', TransferOK)" and vd: "VoidPendingTransfer (tr_Flags t)"
  then have free: "map_of (ref_ids s) (tr_ID t) = None"
    and "ref_void s t = (s', TransferOK)" by (simp_all add: ref_commit_OK_iff)
  from this(2) obtain p where
    p: "ref_committed s (PendingID t) = Some p" "\<not> ref_voided s (PendingID t)"
      "Pending (tr_Flags p)" "\<not> VoidPendingTransfer (tr_Flags p)" "DebitAccountID p \<noteq> CreditAccountID p"
      "\<And>a. ref_acct s (DebitAccountID p) = Some a \<Longrightarrow> unat (Amount p) \<le> unat (DebitsPending a)"
    and s': "s' = set_status (tr_ID t) (Committed t False)
            (set_status (PendingID t) (Committed p True) (ref_release p s))"
    by (rule ref_void_OK) blast
  have p1: "ref_committed (ref_release p s) (PendingID t) = Some p"
    using p by simp
  have "tr_ID t \<noteq> PendingID t"
    using free ref_committed_status [OF p(1)] by auto
  with free have free2: "map_of (ref_ids (set_status (PendingID t) (Committed p True) (ref_release p s)))
      (tr_ID t) = None" by simp
  have "ref_voided s' = (ref_voided s)(PendingID t := True)" "ref_acct s' = release_effect p (ref_acct s)"
    unfolding s' using record_status(2) [OF free2] void_status(2) [OF p1]
    by (simp_all add: ref_acct_release)
  with p show "\<exists>p. committed ref_view s (PendingID t) = Some p \<and> Pending (tr_Flags p) \<and>
        \<not> VoidPendingTransfer (tr_Flags p) \<and> \<not> voided ref_view s (PendingID t) \<and>
        voided ref_view s' = (voided ref_view s)(PendingID t := True) \<and>
        DebitAccountID p \<noteq> CreditAccountID p \<and>
        (\<forall>a. acct ref_view s (DebitAccountID p) = Some a \<longrightarrow> unat (Amount p) \<le> unat (DebitsPending a)) \<and>
        acct ref_view s' = release_effect p (acct ref_view s)"
    by auto
qed

lemma ref_acceptance: "acceptance_law ref_view"
  unfolding acceptance_law_def
proof (intro conjI allI impI)
  fix s t p
  assume f: "voidable ref_view s t p"
  have "map_of (ref_ids s) (tr_ID t) = None"
    using f by (auto simp: voidable_def ref_committed_def ref_burnt_def split: option.splits id_status.splits)
  with f show "snd (commit ref_view s t) = TransferOK"
    by (auto simp: voidable_def valid_id_def ref_commit_def ref_void_def word_less_nat_alt not_less split: option.splits)
next
  fix s t
  assume f: "fundable ref_view s t"
  have "map_of (ref_ids s) (tr_ID t) = None"
    using f by (auto simp: fundable_def ref_committed_def ref_burnt_def split: option.splits id_status.splits)
  with f show "snd (commit ref_view s t) = TransferOK"
    by (auto simp: fundable_def valid_id_def ref_commit_def ref_transfer_def not_le not_less split: option.splits)
qed

lemma ref_exceeds: "exceeds_law ref_view"
  by (auto simp: exceeds_law_def ref_commit_def ref_void_def ref_transfer_def
      split: option.splits id_status.splits if_splits)

lemma ref_batch: "batch_law ref_client ref_view"
  by (auto simp: batch_law_def ref_client_def split: prod.splits)

lemma ref_lookup: "lookup_law ref_client ref_view"
  by (force simp: lookup_law_def ref_client_def ref_acct_def List.map_filter_def)

lemma ref_random: "random_law ref_client ref_view"
  by (auto simp: random_law_def ref_client_def ref_acct_def ref_committed_def ref_voided_def
      ref_burnt_def fun_eq_iff)

lemma ref_create_accounts_frame:
  "ref_create_accounts i s as = (s', rs) \<Longrightarrow>
     ref_ids s' = ref_ids s \<and> (\<forall>k \<in> fst ` set rs. i \<le> k) \<and>
     (\<forall>j a. map_of (ref_accounts s) j = Some a \<longrightarrow> map_of (ref_accounts s') j = Some a)"
proof (induction i s as arbitrary: rs rule: ref_create_accounts.induct)
  case (1 i s)
  then show ?case by simp
next
  case (2 i s a as)
  show ?case
  proof (cases "map_of (ref_accounts s) (acc_ID a)")
    case None
    with "2.prems" "2.IH"(1) [OF None, of rs] show ?thesis
      by (auto dest: Suc_leD) (metis option.distinct(1))
  next
    case (Some b)
    obtain s1 rs1 where run: "ref_create_accounts (Suc i) s as = (s1, rs1)" by fastforce
    with "2.prems"(1) Some obtain x where "s1 = s'" "rs = (i, x) # rs1" by auto
    with run "2.IH"(2) [OF Some, of rs1] show ?thesis by (auto dest: Suc_leD)
  qed
qed

lemma ref_create_accounts_new:
  "ref_create_accounts i s as = (s', rs) \<Longrightarrow> map_of (ref_accounts s') j = Some a \<Longrightarrow>
     map_of (ref_accounts s) j = Some a \<or> a \<in> set as \<and> acc_ID a = j"
  by (induction i s as arbitrary: rs rule: ref_create_accounts.induct)
     (force split: option.splits prod.splits if_splits)+

lemma ref_create_accounts_ok:
  "ref_create_accounts i s as = (s', rs) \<Longrightarrow> k < length as \<Longrightarrow>
     (\<forall>x. (i + k, x) \<in> set rs \<longrightarrow> x = AccountOK \<or> x = AccountExists) \<Longrightarrow>
     \<exists>b. map_of (ref_accounts s') (acc_ID (as ! k)) = Some b \<and>
        same_account (b\<lparr>acc_ID := acc_ID (as ! k)\<rparr>) (as ! k)"
proof (induction i s as arbitrary: rs k rule: ref_create_accounts.induct)
  case (1 i s)
  then show ?case by simp
next
  case (2 i s a as)
  show ?case
  proof (cases "map_of (ref_accounts s) (acc_ID a)")
    case None
    let ?s1 = "s\<lparr>ref_accounts := AList.update (acc_ID a) a (ref_accounts s)\<rparr>"
    from "2.prems" None have run: "ref_create_accounts (Suc i) ?s1 as = (s', rs)" by simp
    show ?thesis
    proof (cases k)
      case 0
      then show ?thesis using ref_create_accounts_frame [OF run] by (simp add: same_account_def)
    next
      case (Suc k')
      then show ?thesis using "2.IH"(1) [OF None run, of k'] "2.prems" by simp
    qed
  next
    case (Some b)
    obtain s1 rs1 where run: "ref_create_accounts (Suc i) s as = (s1, rs1)" by fastforce
    let ?x = "if same_account (b\<lparr>acc_ID := acc_ID a\<rparr>) a then AccountExists else AccountFailed 1"
    from run "2.prems"(1) Some have eq: "s1 = s'" "rs = (i, ?x) # rs1" by auto
    show ?thesis
    proof (cases k)
      case 0
      with "2.prems"(3) eq have "same_account (b\<lparr>acc_ID := acc_ID a\<rparr>) a" by (auto split: if_splits)
      with 0 Some eq ref_create_accounts_frame [OF run] show ?thesis by auto
    next
      case (Suc k')
      with run eq "2.prems" "2.IH"(2) [OF Some, of rs1 k'] show ?thesis by simp
    qed
  qed
qed

lemma ref_accounts_law: "accounts_law ref_client ref_view"
  unfolding accounts_law_def
proof (intro allI impI)
  fix s as s' r
  assume "CreateAccounts ref_client s as = (s', r)"
  then obtain rs where run: "ref_create_accounts 0 s as = (s', rs)" and r: "r = Inr rs"
    by (auto simp: ref_client_def split: prod.splits)
  note frame = ref_create_accounts_frame [OF run] and new = ref_create_accounts_new [OF run]
    and ok = ref_create_accounts_ok [OF run]
  have "ref_committed s' = ref_committed s" "ref_voided s' = ref_voided s" "ref_burnt s' = ref_burnt s"
    using frame by (simp_all add: ref_committed_def ref_voided_def ref_burnt_def fun_eq_iff)
  moreover have "\<forall>j a. ref_acct s j = Some a \<longrightarrow> ref_acct s' j = Some a"
    using frame by (auto simp: ref_acct_def)
  moreover have "\<forall>j a. ref_acct s' j = Some a \<longrightarrow> ref_acct s j = Some a \<or> a \<in> set as \<and> acc_ID a = j"
  proof (intro allI impI)
    fix j a assume "ref_acct s' j = Some a"
    then obtain z where "map_of (ref_accounts s') j = Some z" "a = z\<lparr>acc_ID := j\<rparr>"
      by (auto simp: ref_acct_def)
    with new [of j z] show "ref_acct s j = Some a \<or> a \<in> set as \<and> acc_ID a = j"
      by (auto simp: ref_acct_def)
  qed
  moreover have "\<forall>rs' i. r = Inr rs' \<longrightarrow> i < length as \<longrightarrow>
      (\<forall>x. (i, x) \<in> set rs' \<longrightarrow> x = AccountOK \<or> x = AccountExists) \<longrightarrow>
      (\<exists>b. ref_acct s' (acc_ID (as ! i)) = Some b \<and> same_account b (as ! i))"
    using ok r by (fastforce simp: ref_acct_def)
  ultimately show "committed ref_view s' = committed ref_view s \<and>
    voided ref_view s' = voided ref_view s \<and> burnt ref_view s' = burnt ref_view s \<and>
    (\<forall>j a. acct ref_view s j = Some a \<longrightarrow> acct ref_view s' j = Some a) \<and>
    (\<forall>j a. acct ref_view s' j = Some a \<longrightarrow> acct ref_view s j = Some a \<or> a \<in> set as \<and> acc_ID a = j) \<and>
    (\<forall>rs i. r = Inr rs \<longrightarrow> i < length as \<longrightarrow>
        (\<forall>x. (i, x) \<in> set rs \<longrightarrow> x = AccountOK \<or> x = AccountExists) \<longrightarrow>
        (\<exists>b. acct ref_view s' (acc_ID (as ! i)) = Some b \<and> same_account b (as ! i)))"
    by simp
qed

lemma ref_laws: "tb_laws ref_client ref_view"
  by (simp add: tb_laws_def ref_batch ref_rejected ref_identifier ref_burnt_law ref_transfer_law
      ref_void_law ref_acceptance ref_accounts_law ref_lookup ref_random
      ref_exceeds)

lemma ref_answers: "\<exists>s' rs. CreateTransfers ref_client s ts = (s', Inr rs)"
  by (cases "run_events ref_commit 0 s ts") (simp add: ref_client_def)

end
