(* ===== verification/Ledger_Accounts.thy ===== *)
theory Ledger_Accounts
  imports TB_Batches Reference_Ledger
begin

text \<open>
  \<open>internal/ledger/accounts.go\<close>: creation of the global operator/sink accounts and of the
  tenant quota accounts, and balance lookups.  State is the TigerBeetle service state,
  passed through every call.
\<close>

section \<open>Creating accounts\<close>

record GlobalAccountKey =
  key_Resource :: ResourceType
  key_AccountType :: AccountType

definition new_account :: "bytes16 \<Rightarrow> uint32 \<Rightarrow> uint16 \<Rightarrow> AccountFlags \<Rightarrow> bytes16 \<Rightarrow> Account" where
  "new_account i ledger code flags userData =
     \<lparr>acc_ID = i, DebitsPending = 0, DebitsPosted = 0, CreditsPending = 0, CreditsPosted = 0,
      acc_UserData128 = userData, acc_Ledger = ledger, acc_Code = code, acc_Flags = flags\<rparr>"

text \<open>\<open>id, ok := ids[key]; if !ok { id = RandomID() }\<close>\<close>

definition id_or_random ::
    "'tb tb_client \<Rightarrow> ('k, bytes16) gomap \<Rightarrow> 'k \<Rightarrow> 'tb \<Rightarrow> 'tb \<times> bytes16" where
  "id_or_random c ids key s =
     (case map_of ids key of Some i \<Rightarrow> (s, i) | None \<Rightarrow> RandomID c s)"

definition global_keys :: "GlobalAccountKey list" where
  "global_keys =
     concat (map (\<lambda>r. map (\<lambda>at. \<lparr>key_Resource = r, key_AccountType = at\<rparr>)
                          [AccountTypeOperator, AccountTypeSink]) AllResources)"

fun global_loop ::
    "'tb tb_client \<Rightarrow> (GlobalAccountKey, bytes16) gomap \<Rightarrow> GlobalAccountKey list \<Rightarrow>
     (GlobalAccountKey, bytes16) gomap \<Rightarrow> Account list \<Rightarrow> GlobalAccountKey list \<Rightarrow> 'tb \<Rightarrow>
     'tb \<times> ((GlobalAccountKey, bytes16) gomap \<times> Account list \<times> GlobalAccountKey list) result" where
  "global_loop c idMap [] res accounts keys s = (s, Inr (res, accounts, keys))"
| "global_loop c idMap (key # todo) res accounts keys s =
     (case id_or_random c idMap key s of (s1, i) \<Rightarrow>
      (case LedgerID (key_Resource key) of
         Inl e \<Rightarrow> (s1, Inl e)
       | Inr l \<Rightarrow>
         (case AccountCodeFromType (key_AccountType key) of
            Inl e \<Rightarrow> (s1, Inl e)
          | Inr code \<Rightarrow>
              global_loop c idMap todo (AList.update key i res)
                (accounts @ [new_account i l code no_account_flags 0]) (keys @ [key]) s1)))"

text \<open>\<open>for _, r := range results\<close>: the first result that is neither OK nor exists fails.\<close>

fun check_account_results ::
    "string \<Rightarrow> nat \<Rightarrow> CreateAccountResult event_results \<Rightarrow> unit result" where
  "check_account_results what n [] = Inr ()"
| "check_account_results what n ((i, r) # rs) =
     (if r \<noteq> AccountOK \<and> r \<noteq> AccountExists
      then (if i < n then Inl (ErrAt what i) else Inl (ErrPanic ''index out of range''))
      else check_account_results what n rs)"

definition CreateGlobalAccounts ::
    "'tb tb_client \<Rightarrow> (GlobalAccountKey, bytes16) gomap \<Rightarrow> 'tb \<Rightarrow>
     'tb \<times> (GlobalAccountKey, bytes16) gomap result" where
  "CreateGlobalAccounts c idMap s =
     (case global_loop c idMap global_keys [] [] [] s of
        (s1, Inl e) \<Rightarrow> (s1, Inl e)
      | (s1, Inr (res, accounts, keys)) \<Rightarrow>
        (case CreateAccounts c s1 accounts of
           (s2, Inl e) \<Rightarrow> (s2, Inl (Wrap ''CreateAccounts (global)'' e))
         | (s2, Inr results) \<Rightarrow>
           (case check_account_results ''global account'' (length keys) results of
              Inl e \<Rightarrow> (s2, Inl e)
            | Inr _ \<Rightarrow> (s2, Inr res))))"

definition quota_flags :: AccountFlags where
  "quota_flags = \<lparr>DebitsMustNotExceedCredits = True, History = True\<rparr>"

fun tenant_loop ::
    "'tb tb_client \<Rightarrow> bytes16 \<Rightarrow> (ResourceType, bytes16) gomap \<Rightarrow> ResourceType list \<Rightarrow>
     (ResourceType, bytes16) gomap \<Rightarrow> Account list \<Rightarrow> ResourceType list \<Rightarrow> 'tb \<Rightarrow>
     'tb \<times> ((ResourceType, bytes16) gomap \<times> Account list \<times> ResourceType list) result" where
  "tenant_loop c tenantData existingIDs [] res accounts resources s =
     (s, Inr (res, accounts, resources))"
| "tenant_loop c tenantData existingIDs (r # todo) res accounts resources s =
     (case id_or_random c existingIDs r s of (s1, i) \<Rightarrow>
      (case LedgerID r of
         Inl e \<Rightarrow> (s1, Inl e)
       | Inr l \<Rightarrow>
           tenant_loop c tenantData existingIDs todo (AList.update r i res)
             (accounts @ [new_account i l AccountCodeTenantQuota quota_flags tenantData])
             (resources @ [r]) s1))"

definition CreateTenantQuotaAccounts ::
    "'tb tb_client \<Rightarrow> bytes16 \<Rightarrow> (ResourceType, bytes16) gomap \<Rightarrow> 'tb \<Rightarrow>
     'tb \<times> (ResourceType, bytes16) gomap result" where
  "CreateTenantQuotaAccounts c tenantUUID existingIDs s =
     (case tenant_loop c (UUIDToUint128 tenantUUID) existingIDs AllResources [] [] [] s of
        (s1, Inl e) \<Rightarrow> (s1, Inl e)
      | (s1, Inr (res, accounts, resources)) \<Rightarrow>
        (case CreateAccounts c s1 accounts of
           (s2, Inl e) \<Rightarrow> (s2, Inl (Wrap ''CreateAccounts (tenant)'' e))
         | (s2, Inr results) \<Rightarrow>
           (case check_account_results ''tenant account'' (length resources) results of
              Inl e \<Rightarrow> (s2, Inl e)
            | Inr _ \<Rightarrow> (s2, Inr res))))"

section \<open>Balances\<close>

record BalanceSnapshot =
  bs_CreditsPosted :: uint64
  bs_DebitsPosted :: uint64
  bs_DebitsPending :: uint64

definition snapshot_of :: "Account \<Rightarrow> BalanceSnapshot" where
  "snapshot_of acc =
     \<lparr>bs_CreditsPosted = uint128Lo (CreditsPosted acc),
      bs_DebitsPosted = uint128Lo (DebitsPosted acc),
      bs_DebitsPending = uint128Lo (DebitsPending acc)\<rparr>"

fun balance_loop ::
    "(string \<times> bytes16) list \<Rightarrow> Account list \<Rightarrow> (string, BalanceSnapshot) gomap \<Rightarrow>
     (string, BalanceSnapshot) gomap" where
  "balance_loop [] accounts res = res"
| "balance_loop ((k, wantID) # todo) accounts res =
     balance_loop todo accounts
       (case find (\<lambda>acc. acc_ID acc = wantID) accounts of
          None \<Rightarrow> res
        | Some acc \<Rightarrow> AList.update k (snapshot_of acc) res)"

definition LookupBalances ::
    "'tb tb_client \<Rightarrow> (string, bytes16) gomap \<Rightarrow> 'tb \<Rightarrow> (string, BalanceSnapshot) gomap result" where
  "LookupBalances c accountIDs s =
     (if accountIDs = [] then Inr []
      else
        (let pairs = map (\<lambda>(k, b). (k, UUIDToUint128 b)) accountIDs in
         case LookupAccounts c s (map snd pairs) of
           Inl e \<Rightarrow> Inl (Wrap ''LookupAccounts'' e)
         | Inr accounts \<Rightarrow> Inr (balance_loop pairs accounts [])))"

definition ledger_LookupAccounts ::
    "'tb tb_client \<Rightarrow> bytes16 list \<Rightarrow> 'tb \<Rightarrow> Account list result" where
  "ledger_LookupAccounts c ids s =
     (case LookupAccounts c s ids of
        Inl e \<Rightarrow> Inl (Wrap ''LookupAccounts'' e) | Inr accounts \<Rightarrow> Inr accounts)"

definition LookupAccount :: "'tb tb_client \<Rightarrow> bytes16 \<Rightarrow> 'tb \<Rightarrow> Account option result" where
  "LookupAccount c i s =
     (case LookupAccounts c s [i] of
        Inl e \<Rightarrow> Inl (Wrap ''LookupAccount'' e)
      | Inr accounts \<Rightarrow> Inr (case accounts of [] \<Rightarrow> None | a # _ \<Rightarrow> Some a))"

section \<open>Lemmas\<close>

lemma zero_balances_new [simp]: "zero_balances (new_account i l code f u)"
  by (simp add: new_account_def zero_balances_def)

lemma reach_id_or_random [ledger_reach]:
  "id_or_random c ids key s1 = (s2, i) \<Longrightarrow> tb_reach c s s1 \<Longrightarrow> tb_reach c s s2"
  by (auto simp: id_or_random_def RandomID_def split: option.splits intro: ledger_reach)

lemma global_loop_reach:
  "global_loop c m todo res accounts keys s1 = (s2, r) \<Longrightarrow> tb_reach c s s1 \<Longrightarrow> tb_reach c s s2"
  by (induction todo arbitrary: res accounts keys s1)
     (auto split: prod.splits sum.splits dest: reach_id_or_random)

lemma global_loop_zero:
  "global_loop c m todo res accounts keys s1 = (s2, Inr (res', accounts', keys')) \<Longrightarrow>
     list_all zero_balances accounts \<Longrightarrow> list_all zero_balances accounts'"
  by (induction todo arbitrary: res accounts keys s1) (auto split: prod.splits sum.splits)

lemma tenant_loop_reach:
  "tenant_loop c d m todo res accounts rs s1 = (s2, r) \<Longrightarrow> tb_reach c s s1 \<Longrightarrow> tb_reach c s s2"
  by (induction todo arbitrary: res accounts rs s1)
     (auto split: prod.splits sum.splits dest: reach_id_or_random)

lemma tenant_loop_zero:
  "tenant_loop c d m todo res accounts rs s1 = (s2, Inr (res', accounts', rs')) \<Longrightarrow>
     list_all zero_balances accounts \<Longrightarrow> list_all zero_balances accounts'"
  by (induction todo arbitrary: res accounts rs s1) (auto split: prod.splits sum.splits)

interpretation global_accounts_call: ledger_call c "\<lambda>s. fst (CreateGlobalAccounts c m s)" for c m
proof
  fix s
  obtain s1 r where loop: "global_loop c m global_keys [] [] [] s = (s1, r)" by fastforce
  note r1 = global_loop_reach [OF loop reach_refl]
  show "tb_reach c s (fst (CreateGlobalAccounts c m s))"
    using loop r1 global_loop_zero [of c m global_keys "[]" "[]" "[]" s s1]
    by (auto simp: CreateGlobalAccounts_def split: prod.splits sum.splits dest: reach_callI(2))
qed

interpretation tenant_accounts_call: ledger_call c "\<lambda>s. fst (CreateTenantQuotaAccounts c t m s)" for c t m
proof
  fix s
  obtain s1 r where loop: "tenant_loop c (UUIDToUint128 t) m AllResources [] [] [] s = (s1, r)" by fastforce
  note r1 = tenant_loop_reach [OF loop reach_refl]
  show "tb_reach c s (fst (CreateTenantQuotaAccounts c t m s))"
    using loop r1 tenant_loop_zero [of c "UUIDToUint128 t" m AllResources "[]" "[]" "[]" s s1]
    by (auto simp: CreateTenantQuotaAccounts_def split: prod.splits sum.splits dest: reach_callI(2))
qed

lemma check_account_results_Inr:
  "check_account_results what n rs = Inr u \<Longrightarrow> (i, r) \<in> set rs \<Longrightarrow> r = AccountOK \<or> r = AccountExists"
  by (induction what n rs rule: check_account_results.induct) (auto split: if_splits)

lemma tenant_loop_spec:
  assumes "tenant_loop c d m todo res accounts rs s1 = (s2, Inr (res', accounts', rs'))" "distinct todo"
  shows "\<exists>new. accounts' = accounts @ new \<and> length new = length todo \<and>
     (\<forall>k < length todo. \<exists>l. map_of res' (todo ! k) = Some (acc_ID (new ! k)) \<and>
        LedgerID (todo ! k) = Inr l \<and>
        new ! k = new_account (acc_ID (new ! k)) l AccountCodeTenantQuota quota_flags d) \<and>
     (\<forall>r. r \<notin> set todo \<longrightarrow> map_of res' r = map_of res r)"
  using assms
proof (induction todo arbitrary: res accounts rs s1)
  case (Cons r todo)
  obtain s0 i where i: "id_or_random c m r s1 = (s0, i)" by fastforce
  with Cons.prems obtain l where l: "LedgerID r = Inr l" by (auto split: sum.splits)
  let ?a = "new_account i l AccountCodeTenantQuota quota_flags d"
  have loop: "tenant_loop c d m todo (AList.update r i res) (accounts @ [?a]) (rs @ [r]) s0 =
      (s2, Inr (res', accounts', rs'))"
    using Cons.prems i l by simp
  obtain new where new: "accounts' = (accounts @ [?a]) @ new" "length new = length todo"
    "\<forall>k < length todo. \<exists>l. map_of res' (todo ! k) = Some (acc_ID (new ! k)) \<and>
        LedgerID (todo ! k) = Inr l \<and>
        new ! k = new_account (acc_ID (new ! k)) l AccountCodeTenantQuota quota_flags d"
    "\<forall>r'. r' \<notin> set todo \<longrightarrow> map_of res' r' = map_of (AList.update r i res) r'"
    using Cons.IH [OF loop] Cons.prems(2) by auto
  have "acc_ID ?a = i" by (simp add: new_account_def)
  with new l Cons.prems(2) show ?case
    by (intro exI [of _ "?a # new"]) (auto simp: nth_Cons split: nat.splits)
qed auto

lemma balance_loop_lookup:
  assumes "distinct (map fst pairs)"
  shows "map_of (balance_loop pairs accounts res) k =
     (case map_of pairs k of
        None \<Rightarrow> map_of res k
      | Some w \<Rightarrow> (case find (\<lambda>acc. acc_ID acc = w) accounts of
                    None \<Rightarrow> map_of res k | Some acc \<Rightarrow> Some (snapshot_of acc)))"
  using assms
proof (induction pairs accounts res rule: balance_loop.induct)
  case (2 k' w todo accounts res)
  have "map_of todo k' = None" using "2.prems" by (simp add: map_of_eq_None_iff)
  with 2 show ?case by (auto split: option.splits)
qed simp

lemma find_account:
  assumes "tb_laws c v" "LookupAccounts c s ids = Inr accounts" "w \<in> set ids"
  shows "find (\<lambda>acc. acc_ID acc = w) accounts = acct v s w"
proof -
  have tab: "set accounts = {a. \<exists>j \<in> set ids. acct v s j = Some a}"
    and ids: "acct v s j = Some a \<Longrightarrow> acc_ID a = j" for j a
    using tb_lawsD(9) [OF assms(1)] assms(2) unfolding lookup_law_def by blast+
  show ?thesis
  proof (cases "acct v s w")
    case None
    then show ?thesis using ids tab by (auto simp: find_None_iff)
  next
    case (Some a)
    with ids tab assms(3) have "a \<in> set accounts" "acc_ID a = w" by auto
    then obtain b where b: "find (\<lambda>acc. acc_ID acc = w) accounts = Some b"
      by (cases "find (\<lambda>acc. acc_ID acc = w) accounts") (auto simp: find_None_iff)
    then have "b \<in> set accounts" "acc_ID b = w" by (auto simp: find_Some_iff)
    with ids tab Some b show ?thesis by fastforce
  qed
qed

lemma created_accounts:
  assumes "tb_laws c v" "CreateTenantQuotaAccounts c tenantUUID existingIDs s = (s', Inr ids)"
    "r \<in> set AllResources"
  shows "\<exists>i a. map_of ids r = Some i \<and> acct v s' i = Some a \<and> LedgerID r = Inr (acc_Ledger a) \<and>
    acc_Code a = AccountCodeTenantQuota \<and> acc_UserData128 a = tenantUUID \<and>
    DebitsMustNotExceedCredits (acc_Flags a)"
proof -
  obtain s1 accounts rs where loop:
    "tenant_loop c tenantUUID existingIDs AllResources [] [] [] s = (s1, Inr (ids, accounts, rs))"
    using assms(2) by (auto simp: CreateTenantQuotaAccounts_def split: prod.splits sum.splits)
  with assms(2) obtain results u where call: "CreateAccounts c s1 accounts = (s', Inr results)"
    and chk: "check_account_results ''tenant account'' (length rs) results = Inr u"
    by (auto simp: CreateTenantQuotaAccounts_def split: prod.splits sum.splits)
  from tenant_loop_spec [OF loop] have len: "length accounts = length AllResources"
    and spec: "\<forall>k < length AllResources. \<exists>l. map_of ids (AllResources ! k) = Some (acc_ID (accounts ! k)) \<and>
        LedgerID (AllResources ! k) = Inr l \<and>
        accounts ! k = new_account (acc_ID (accounts ! k)) l AccountCodeTenantQuota quota_flags tenantUUID"
    by auto
  from assms(3) obtain k where k: "k < length AllResources" "r = AllResources ! k"
    by (auto simp: in_set_conv_nth)
  with spec obtain l where l: "map_of ids r = Some (acc_ID (accounts ! k))" "LedgerID r = Inr l"
    "accounts ! k = new_account (acc_ID (accounts ! k)) l AccountCodeTenantQuota quota_flags tenantUUID"
    by blast
  obtain b where "acct v s' (acc_ID (accounts ! k)) = Some b" "same_account b (accounts ! k)"
    using accountsD(6) [OF assms(1) call refl, of k] check_account_results_Inr [OF chk] k(1) len by auto
  moreover have "acc_Ledger (accounts ! k) = l" "acc_Code (accounts ! k) = AccountCodeTenantQuota"
    "acc_UserData128 (accounts ! k) = tenantUUID" "DebitsMustNotExceedCredits (acc_Flags (accounts ! k))"
    by (subst l(3), simp add: new_account_def quota_flags_def)+
  ultimately show ?thesis using l by (auto simp: same_account_def)
qed

section \<open>Properties\<close>

text \<open>
  When \<open>CreateTenantQuotaAccounts\<close> succeeds, every resource has an account under the
  identifier returned for it, on the resource's own ledger, with the tenant-quota code, the
  tenant's UUID and the flag \<open>DebitsMustNotExceedCredits\<close>: every quota wallet is under the
  hard limit, whether it was created now or existed already.
\<close>

lemma tenant_accounts_created:
  assumes "tb_laws c v" "CreateTenantQuotaAccounts c tenantUUID existingIDs s = (s', Inr ids)"
    "r \<in> set AllResources"
  shows "\<exists>i a. map_of ids r = Some i \<and> acct v s' i = Some a \<and> LedgerID r = Inr (acc_Ledger a) \<and>
    acc_Code a = AccountCodeTenantQuota \<and> acc_UserData128 a = tenantUUID \<and>
    DebitsMustNotExceedCredits (acc_Flags a)"
  by (rule created_accounts [OF assms])

lemma tenant_accounts_created_witness:
  "\<exists>s' ids i a. CreateTenantQuotaAccounts ref_client 5 [] empty_ref = (s', Inr ids) \<and>
     map_of ids ResourceCPUHours = Some i \<and> acct ref_view s' i = Some a \<and>
     acc_UserData128 a = 5 \<and> DebitsMustNotExceedCredits (acc_Flags a)"
proof -
  have "\<not> isl (snd (CreateTenantQuotaAccounts ref_client 5 [] empty_ref))" by code_simp
  then obtain s' ids where call: "CreateTenantQuotaAccounts ref_client 5 [] empty_ref = (s', Inr ids)"
    by (blast dest: returned)
  have "ResourceCPUHours \<in> set AllResources" by (simp add: AllResources_def)
  from tenant_accounts_created [OF ref_laws call this] call show ?thesis by blast
qed

lemma balance_loop_distinct:
  "distinct (map fst res) \<Longrightarrow> distinct (map fst (balance_loop pairs accounts res))"
  by (induction pairs accounts res rule: balance_loop.induct) (simp_all add: distinct_update split: option.split)

lemma balances_distinct: "LookupBalances c accountIDs s = Inr m \<Longrightarrow> distinct (map fst m)"
  by (auto simp: LookupBalances_def Let_def intro: balance_loop_distinct split: if_splits sum.splits)

lemma balances_exact:
  assumes "tb_laws c v" "distinct (map fst accountIDs)" "LookupBalances c accountIDs s = Inr m"
  shows "map_of m k = (case map_of accountIDs k of
     None \<Rightarrow> None | Some i \<Rightarrow> map_option snapshot_of (acct v s i))"
proof (cases "accountIDs = []")
  case True
  then show ?thesis using assms(3) by (simp add: LookupBalances_def)
next
  case False
  then obtain accounts where look: "LookupAccounts c s (map snd accountIDs) = Inr accounts"
    and m: "m = balance_loop accountIDs accounts []"
    using assms(3) by (auto simp: LookupBalances_def Let_def split: sum.splits)
  have "find (\<lambda>acc. acc_ID acc = w) accounts = acct v s w" if "map_of accountIDs k = Some w" for w
    using find_account [OF assms(1) look, of w] map_of_SomeD [OF that] by force
  then show ?thesis
    unfolding m by (auto simp: balance_loop_lookup [OF assms(2)] split: option.splits)
qed

text \<open>
  \<open>LookupBalances\<close> reports, under each requested key, the low 64 bits of the live balances
  of that key's account, and omits exactly the keys whose account does not exist.
\<close>

lemma lookup_balances_exact:
  assumes "tb_laws c v" "distinct (map fst accountIDs)" "LookupBalances c accountIDs s = Inr m"
  shows "map_of m k = (case map_of accountIDs k of
     None \<Rightarrow> None | Some i \<Rightarrow> map_option snapshot_of (acct v s i))"
  by (rule balances_exact [OF assms])

definition demo_wallets :: ref_tb where
  "demo_wallets = fst (CreateTenantQuotaAccounts ref_client 5 [] empty_ref)"

lemma lookup_balances_exact_witness:
  "\<exists>m. LookupBalances ref_client [(''cpu_hours'', 1000), (''gone'', 77)] demo_wallets = Inr m \<and>
     map_of m ''cpu_hours'' = map_option snapshot_of (acct ref_view demo_wallets 1000) \<and>
     map_of m ''gone'' = None \<and> map_of m ''cpu_hours'' \<noteq> None"
proof -
  let ?ids = "[(''cpu_hours'', 1000), (''gone'', 77)]"
  have "\<not> isl (LookupBalances ref_client ?ids demo_wallets)" by code_simp
  then obtain m where m: "LookupBalances ref_client ?ids demo_wallets = Inr m"
    by (cases "LookupBalances ref_client ?ids demo_wallets") auto
  have d: "distinct (map fst ?ids)" by simp
  have "ref_acct demo_wallets 77 = None" "ref_acct demo_wallets 1000 \<noteq> None" by code_simp+
  with m lookup_balances_exact [OF ref_laws d m, of "''cpu_hours''"]
    lookup_balances_exact [OF ref_laws d m, of "''gone''"] show ?thesis by auto
qed

end
