(* ===== verification/Ledger_Transfers.thy ===== *)
theory Ledger_Transfers
  imports Ledger_Accounts
begin

text \<open>
  \<open>internal/ledger/transfers.go\<close>: building TigerBeetle transfers for usage, allocations and
  gauge reservations, submitting them, and classifying the per-event results.
\<close>

section \<open>Data\<close>

record TransferResult =
  res_Resource :: ResourceType
  Accepted :: bool
  ExceedsCredits :: bool
  Exists :: bool

record UsageTransfer =
  ut_Resource :: ResourceType
  ut_OperatorID :: bytes16
  ut_TenantQuotaID :: bytes16
  ut_SinkID :: bytes16
  ut_Amount :: uint64
  ut_TransferID :: bytes16
  ut_ClusterUUID :: bytes16
  ut_HeartbeatTsNs :: uint64

record AllocationTransfer =
  at_Resource :: ResourceType
  at_OperatorID :: bytes16
  at_TenantQuotaID :: bytes16
  at_Amount :: uint64
  at_Code :: TransferCode
  at_TenantUUID :: bytes16
  at_PeriodStartNs :: uint64
  at_TransferID :: bytes16

record GaugePendingUpdate =
  gu_Resource :: ResourceType
  gu_TenantQuotaID :: bytes16
  gu_SinkID :: bytes16
  gu_OldPendingID :: "bytes16 option"
  gu_NewAmount :: uint64
  gu_ClusterUUID :: bytes16
  gu_HeartbeatTsNs :: uint64
  gu_NewPendingID :: bytes16
  gu_VoidTransferID :: bytes16

record GaugePendingResult =
  gr_NewPendingID :: bytes16
  gr_Accepted :: bool
  gr_ExceedsCredits :: bool

text \<open>\<open>types.ToUint128\<close> zero-extends a 64-bit amount.\<close>

definition ToUint128 :: "uint64 \<Rightarrow> bytes16" where
  "ToUint128 v = ucast v"

section \<open>Submission with per-event classification (submitBatch)\<close>

definition exists_result :: "CreateTransferResult \<Rightarrow> bool" where
  "exists_result r \<longleftrightarrow>
     r = TransferExists \<or> r = TransferExistsWithDifferentDebitAccountID \<or>
     r = TransferExistsWithDifferentCreditAccountID \<or> r = TransferExistsWithDifferentAmount"

definition blank_result :: "ResourceType \<Rightarrow> TransferResult" where
  "blank_result r = \<lparr>res_Resource = r, Accepted = False, ExceedsCredits = False, Exists = False\<rparr>"

fun classify ::
    "CreateTransferResult event_results \<Rightarrow> nat \<Rightarrow> TransferResult list \<Rightarrow> TransferResult list result" where
  "classify failed i [] = Inr []"
| "classify failed i (r # rs) =
     (case (case map_of failed i of
              None \<Rightarrow> Inr (r\<lparr>Accepted := True\<rparr>)
            | Some tbResult \<Rightarrow>
                if tbResult = TransferExceedsCredits then Inr (r\<lparr>ExceedsCredits := True\<rparr>)
                else if exists_result tbResult then Inr (r\<lparr>Exists := True, Accepted := True\<rparr>)
                else Inl (ErrAt ''transfer: unexpected result'' i)) of
        Inl e \<Rightarrow> Inl e
      | Inr r' \<Rightarrow> (case classify failed (Suc i) rs of Inl e \<Rightarrow> Inl e | Inr rs' \<Rightarrow> Inr (r' # rs')))"

text \<open>\<open>failed[r.Index] = r.Result\<close> for every listed result.\<close>

definition failed_map :: "CreateTransferResult event_results \<Rightarrow> CreateTransferResult event_results" where
  "failed_map tbResults = fold (\<lambda>(i, r) m. AList.update i r m) tbResults []"

definition submitBatch ::
    "'tb tb_client \<Rightarrow> Transfer list \<Rightarrow> ResourceType list \<Rightarrow> 'tb \<Rightarrow>
     'tb \<times> TransferResult list result" where
  "submitBatch c transfers resources s =
     (case CreateTransfers c s transfers of
        (s', Inl e) \<Rightarrow> (s', Inl (Wrap ''CreateTransfers'' e))
      | (s', Inr tbResults) \<Rightarrow>
          (s', classify (failed_map tbResults) 0 (map blank_result resources)))"

section \<open>Usage and allocations\<close>

definition usage_transfer :: "UsageTransfer \<Rightarrow> Transfer result" where
  "usage_transfer t =
     (case LedgerID (ut_Resource t) of
        Inl e \<Rightarrow> Inl e
      | Inr l \<Rightarrow> Inr
          \<lparr>tr_ID = ut_TransferID t, DebitAccountID = ut_TenantQuotaID t,
           CreditAccountID = ut_SinkID t, Amount = ToUint128 (ut_Amount t), PendingID = 0,
           tr_UserData128 = UUIDToUint128 (ut_ClusterUUID t), UserData64 = ut_HeartbeatTsNs t,
           tr_Ledger = l, tr_Code = CodeUsageRecord, tr_Flags = no_transfer_flags\<rparr>)"

definition SubmitUsageBatch ::
    "'tb tb_client \<Rightarrow> UsageTransfer list \<Rightarrow> 'tb \<Rightarrow> 'tb \<times> TransferResult list result" where
  "SubmitUsageBatch c transfers s =
     (case traverse usage_transfer transfers of
        Inl e \<Rightarrow> (s, Inl e)
      | Inr tbTransfers \<Rightarrow> submitBatch c tbTransfers (map ut_Resource transfers) s)"

definition allocation_transfer :: "AllocationTransfer \<Rightarrow> bytes16 \<Rightarrow> Transfer result" where
  "allocation_transfer a i =
     (case LedgerID (at_Resource a) of
        Inl e \<Rightarrow> Inl e
      | Inr l \<Rightarrow> Inr
          \<lparr>tr_ID = i, DebitAccountID = at_OperatorID a,
           CreditAccountID = at_TenantQuotaID a, Amount = ToUint128 (at_Amount a), PendingID = 0,
           tr_UserData128 = UUIDToUint128 (at_TenantUUID a), UserData64 = at_PeriodStartNs a,
           tr_Ledger = l, tr_Code = at_Code a, tr_Flags = no_transfer_flags\<rparr>)"

definition given_or_random :: "'tb tb_client \<Rightarrow> bytes16 \<Rightarrow> 'tb \<Rightarrow> 'tb \<times> bytes16" where
  "given_or_random c i s = (if i = 0 then RandomID c s else (s, i))"

fun build_allocations ::
    "'tb tb_client \<Rightarrow> AllocationTransfer list \<Rightarrow> 'tb \<Rightarrow> 'tb \<times> Transfer list result" where
  "build_allocations c [] s = (s, Inr [])"
| "build_allocations c (a # as) s =
     (case given_or_random c (at_TransferID a) s of (s1, i) \<Rightarrow>
      (case allocation_transfer a i of
         Inl e \<Rightarrow> (s1, Inl e)
       | Inr t \<Rightarrow>
         (case build_allocations c as s1 of
            (s2, Inl e) \<Rightarrow> (s2, Inl e) | (s2, Inr ts) \<Rightarrow> (s2, Inr (t # ts)))))"

definition SubmitAllocations ::
    "'tb tb_client \<Rightarrow> AllocationTransfer list \<Rightarrow> 'tb \<Rightarrow> 'tb \<times> TransferResult list result" where
  "SubmitAllocations c allocations s =
     (case build_allocations c allocations s of
        (s1, Inl e) \<Rightarrow> (s1, Inl e)
      | (s1, Inr tbTransfers) \<Rightarrow> submitBatch c tbTransfers (map at_Resource allocations) s1)"

section \<open>Gauge reservations\<close>

text \<open>\<open>meta\<close> records for each submitted transfer the update it belongs to and its role.\<close>

record meta =
  updateIdx :: nat
  isVoid :: bool

fun new_pending_ids ::
    "'tb tb_client \<Rightarrow> GaugePendingUpdate list \<Rightarrow> 'tb \<Rightarrow> 'tb \<times> bytes16 list" where
  "new_pending_ids c [] s = (s, [])"
| "new_pending_ids c (u # us) s =
     (case given_or_random c (gu_NewPendingID u) s of (s1, i) \<Rightarrow>
      (case new_pending_ids c us s1 of (s2, is) \<Rightarrow> (s2, i # is)))"

definition void_transfer :: "GaugePendingUpdate \<Rightarrow> bytes16 \<Rightarrow> bytes16 \<Rightarrow> uint32 \<Rightarrow> Transfer" where
  "void_transfer u voidID old l =
     \<lparr>tr_ID = voidID, DebitAccountID = gu_TenantQuotaID u, CreditAccountID = gu_SinkID u,
      Amount = ToUint128 0, PendingID = UUIDToUint128 old, tr_UserData128 = 0, UserData64 = 0,
      tr_Ledger = l, tr_Code = CodeGaugeReservation,
      tr_Flags = \<lparr>Pending = False, VoidPendingTransfer = True\<rparr>\<rparr>"

definition pending_transfer :: "GaugePendingUpdate \<Rightarrow> bytes16 \<Rightarrow> uint32 \<Rightarrow> Transfer" where
  "pending_transfer u i l =
     \<lparr>tr_ID = i, DebitAccountID = gu_TenantQuotaID u, CreditAccountID = gu_SinkID u,
      Amount = ToUint128 (gu_NewAmount u), PendingID = 0,
      tr_UserData128 = UUIDToUint128 (gu_ClusterUUID u), UserData64 = gu_HeartbeatTsNs u,
      tr_Ledger = l, tr_Code = CodeGaugeReservation,
      tr_Flags = \<lparr>Pending = True, VoidPendingTransfer = False\<rparr>\<rparr>"

text \<open>The transfers of one update: the void of the old reservation, then the new one.\<close>

definition gauge_transfers ::
    "'tb tb_client \<Rightarrow> nat \<Rightarrow> GaugePendingUpdate \<Rightarrow> bytes16 \<Rightarrow> 'tb \<Rightarrow>
     'tb \<times> (Transfer \<times> meta) list result" where
  "gauge_transfers c i u newID s =
     (case (case gu_OldPendingID u of
              None \<Rightarrow> (s, Inr [])
            | Some old \<Rightarrow>
              (case given_or_random c (gu_VoidTransferID u) s of (s1, voidID) \<Rightarrow>
                (s1, case LedgerID (gu_Resource u) of
                       Inl e \<Rightarrow> Inl e
                     | Inr l \<Rightarrow> Inr [(void_transfer u voidID old l,
                                    \<lparr>updateIdx = i, isVoid = True\<rparr>)]))) of
        (s1, Inl e) \<Rightarrow> (s1, Inl e)
      | (s1, Inr voids) \<Rightarrow>
          if gu_NewAmount u > 0
          then (s1, case LedgerID (gu_Resource u) of
                      Inl e \<Rightarrow> Inl e
                    | Inr l \<Rightarrow> Inr (voids @ [(pending_transfer u newID l,
                                            \<lparr>updateIdx = i, isVoid = False\<rparr>)]))
          else (s1, Inr voids))"

fun gauge_loop ::
    "'tb tb_client \<Rightarrow> nat \<Rightarrow> (GaugePendingUpdate \<times> bytes16) list \<Rightarrow> 'tb \<Rightarrow>
     'tb \<times> (Transfer \<times> meta) list result" where
  "gauge_loop c i [] s = (s, Inr [])"
| "gauge_loop c i ((u, newID) # us) s =
     (case gauge_transfers c i u newID s of
        (s1, Inl e) \<Rightarrow> (s1, Inl e)
      | (s1, Inr ts) \<Rightarrow>
        (case gauge_loop c (Suc i) us s1 of
           (s2, Inl e) \<Rightarrow> (s2, Inl e) | (s2, Inr rest) \<Rightarrow> (s2, Inr (ts @ rest))))"

definition pending_gone :: "CreateTransferResult \<Rightarrow> bool" where
  "pending_gone r \<longleftrightarrow>
     r = TransferPendingTransferNotFound \<or> r = TransferPendingTransferAlreadyVoided \<or>
     r = TransferPendingTransferAlreadyPosted"

fun gauge_classify ::
    "meta list \<Rightarrow> CreateTransferResult event_results \<Rightarrow> GaugePendingResult list \<Rightarrow>
     GaugePendingResult list result" where
  "gauge_classify metas [] results = Inr results"
| "gauge_classify metas ((i, r) # rs) results =
     (if length metas \<le> i then Inl (ErrPanic ''index out of range'')
      else
        (let m = metas ! i in
         if r = TransferExceedsCredits
         then gauge_classify metas rs
                (if isVoid m then results
                 else results[updateIdx m :=
                        (results ! updateIdx m)\<lparr>gr_Accepted := False, gr_ExceedsCredits := True\<rparr>])
         else if exists_result r then gauge_classify metas rs results
         else if pending_gone r
         then (if isVoid m then gauge_classify metas rs results
               else Inl (ErrAt ''gauge transfer: unexpected result on pending create'' i))
         else Inl (ErrAt ''gauge transfer: unexpected result'' i)))"

fun assign_pending_ids ::
    "meta list \<Rightarrow> bytes16 list \<Rightarrow> GaugePendingResult list \<Rightarrow> GaugePendingResult list" where
  "assign_pending_ids [] newIDs results = results"
| "assign_pending_ids (m # ms) newIDs results =
     assign_pending_ids ms newIDs
       (if \<not> isVoid m \<and> gr_Accepted (results ! updateIdx m)
        then results[updateIdx m :=
               (results ! updateIdx m)\<lparr>gr_NewPendingID := newIDs ! updateIdx m\<rparr>]
        else results)"

definition assumed_accepted :: GaugePendingResult where
  "assumed_accepted = \<lparr>gr_NewPendingID = 0, gr_Accepted = True, gr_ExceedsCredits = False\<rparr>"

definition SubmitGaugePendingUpdates ::
    "'tb tb_client \<Rightarrow> GaugePendingUpdate list \<Rightarrow> 'tb \<Rightarrow> 'tb \<times> GaugePendingResult list result" where
  "SubmitGaugePendingUpdates c updates s =
     (if updates = [] then (s, Inr [])
      else
        (let results = replicate (length updates) assumed_accepted in
         case new_pending_ids c updates s of (s1, newIDs) \<Rightarrow>
         (case gauge_loop c 0 (zip updates newIDs) s1 of
            (s2, Inl e) \<Rightarrow> (s2, Inl e)
          | (s2, Inr []) \<Rightarrow> (s2, Inr results)
          | (s2, Inr tms) \<Rightarrow>
            (case CreateTransfers c s2 (map fst tms) of
               (s3, Inl e) \<Rightarrow> (s3, Inl (Wrap ''CreateTransfers (gauge pending)'' e))
             | (s3, Inr tbResults) \<Rightarrow>
               (s3, case gauge_classify (map snd tms) tbResults results of
                      Inl e \<Rightarrow> Inl e
                    | Inr results' \<Rightarrow>
                        Inr (assign_pending_ids (map snd tms) newIDs results'))))))"

section \<open>Lemmas: classification\<close>

lemma failed_map_lookup:
  assumes "distinct (map fst rs)"
  shows "map_of (failed_map rs) = map_of rs"
proof -
  have "map_of (fold (\<lambda>(i, r) m. AList.update i r m) rs m) = map_of m ++ map_of rs" for m
    using assms
  proof (induction rs arbitrary: m)
    case (Cons x rs)
    obtain i r where x: "x = (i, r)" by fastforce
    with Cons.prems have "map_of rs i = None" by (auto simp: map_of_eq_None_iff)
    with Cons x show ?case by (auto simp: map_add_def fun_eq_iff split: option.splits)
  qed simp
  then show ?thesis by (simp add: failed_map_def)
qed

text \<open>What one outcome of the service makes of a blank result.\<close>

definition known_result :: "CreateTransferResult \<Rightarrow> bool" where
  "known_result r \<longleftrightarrow> r = TransferOK \<or> r = TransferExceedsCredits \<or> exists_result r"

definition settled :: "CreateTransferResult \<Rightarrow> TransferResult \<Rightarrow> TransferResult" where
  "settled r x = x\<lparr>Accepted := (r = TransferOK \<or> exists_result r),
     ExceedsCredits := (r = TransferExceedsCredits), Exists := exists_result r\<rparr>"

definition as_failed :: "CreateTransferResult \<Rightarrow> CreateTransferResult option" where
  "as_failed r = (if r = TransferOK then None else Some r)"

lemma exists_result_not_OK [simp]: "\<not> exists_result TransferOK" "\<not> exists_result TransferExceedsCredits"
  by (simp_all add: exists_result_def)

lemma settled_blank [simp]:
  "res_Resource (settled r (blank_result x)) = x"
  "Accepted (settled r y) \<longleftrightarrow> r = TransferOK \<or> exists_result r"
  "ExceedsCredits (settled r y) \<longleftrightarrow> r = TransferExceedsCredits"
  "Exists (settled r y) \<longleftrightarrow> exists_result r"
  by (simp_all add: settled_def blank_result_def)

text \<open>The verdict on one event, as the loop body of \<open>submitBatch\<close> takes it.\<close>

lemma classify_step:
  assumes "map_of failed i = as_failed r"
  shows "classify failed i (blank_result x # rs) =
    (if known_result r
     then (case classify failed (Suc i) rs of Inl e \<Rightarrow> Inl e | Inr rs' \<Rightarrow> Inr (settled r (blank_result x) # rs'))
     else Inl (ErrAt ''transfer: unexpected result'' i))"
  using assms
  by (cases "r = TransferOK"; cases "r = TransferExceedsCredits"; cases "exists_result r")
     (simp_all add: as_failed_def known_result_def settled_def blank_result_def split: sum.splits)

lemma classify_outcomes:
  assumes "length outs = length rs" "\<forall>k < length rs. map_of failed (i + k) = as_failed (outs ! k)"
  shows "if list_all known_result outs
    then classify failed i (map blank_result rs) = Inr (map2 settled outs (map blank_result rs))
    else isl (classify failed i (map blank_result rs))"
  using assms
proof (induction outs rs arbitrary: i rule: list_induct2)
  case (Cons r outs x rs)
  have head: "map_of failed i = as_failed r" using Cons.prems by fastforce
  have tail: "\<forall>k < length rs. map_of failed (Suc i + k) = as_failed (outs ! k)"
    using Cons.prems by auto
  from Cons.IH [OF tail] show ?case
    by (auto simp: classify_step [OF head] simp del: classify.simps(2) split: sum.splits if_splits)
qed simp

lemma batch_as_failed:
  assumes "run_events f 0 s ts = (s', rs)" "k < length ts"
  shows "map_of (failed_map rs) k = as_failed (outcomes f s ts ! k)"
  using run_events_lookup [OF assms(2), of f 0 s] run_events_index_distinct [of f 0 s ts] assms(1)
  by (simp add: failed_map_lookup as_failed_def)

text \<open>
  \<open>submitBatch\<close> from the laws: the service state is the one the events lead to, and the call
  returns the settled results exactly when every outcome is one the code knows.
\<close>

lemma submitBatch_spec:
  assumes "tb_laws c v" "length rs = length ts" "CreateTransfers c s ts = (s', Inr tbResults)"
  shows "submitBatch c ts rs s = (s', snd (submitBatch c ts rs s))"
    "s' = fst (run_events (commit v) 0 s ts)"
    "if list_all known_result (outcomes (commit v) s ts)
     then snd (submitBatch c ts rs s) = Inr (map2 settled (outcomes (commit v) s ts) (map blank_result rs))
     else isl (snd (submitBatch c ts rs s))"
proof -
  have run: "run_events (commit v) 0 s ts = (s', tbResults)"
    using assms(1,3) by (rule batch_okD)
  then show "s' = fst (run_events (commit v) 0 s ts)" by simp
  show "submitBatch c ts rs s = (s', snd (submitBatch c ts rs s))"
    using assms(3) by (simp add: submitBatch_def)
  show "if list_all known_result (outcomes (commit v) s ts)
     then snd (submitBatch c ts rs s) = Inr (map2 settled (outcomes (commit v) s ts) (map blank_result rs))
     else isl (snd (submitBatch c ts rs s))"
    using classify_outcomes [of "outcomes (commit v) s ts" rs "failed_map tbResults" 0]
      batch_as_failed [OF run] assms(2,3)
    by (simp add: submitBatch_def)
qed

lemma submitBatch_Inr:
  assumes "tb_laws c v" "length rs = length ts" "submitBatch c ts rs s = (s', Inr res)"
  shows "s' = fst (run_events (commit v) 0 s ts)"
    "list_all known_result (outcomes (commit v) s ts)"
    "res = map2 settled (outcomes (commit v) s ts) (map blank_result rs)"
proof -
  obtain tbResults where call: "CreateTransfers c s ts = (s', Inr tbResults)"
    using assms(3) by (auto simp: submitBatch_def split: prod.splits sum.splits)
  note spec = submitBatch_spec [OF assms(1,2) call]
  show "s' = fst (run_events (commit v) 0 s ts)" by (rule spec)
  show known: "list_all known_result (outcomes (commit v) s ts)"
    using spec(3) assms(3) by (auto split: if_splits)
  then show "res = map2 settled (outcomes (commit v) s ts) (map blank_result rs)"
    using spec(3) assms(3) by simp
qed

lemma submitBatch_state:
  assumes "tb_laws c v" "submitBatch c ts rs s = (s', r)"
  shows "s' = s \<or> s' = fst (run_events (commit v) 0 s ts)"
proof (cases "CreateTransfers c s ts")
  case (Pair s1 x)
  with assms batch_okD [OF assms(1)] batch_errD [OF assms(1)] show ?thesis
    by (cases x) (fastforce simp: submitBatch_def)+
qed

lemma commit_exists_in_use:
  assumes "tb_laws c v" "commit v s t = (s', r)" "exists_result r"
  shows "committed v s (tr_ID t) \<noteq> None"
proof -
  have "r = TransferExists \<or> r \<in> {TransferExistsWithDifferentDebitAccountID,
      TransferExistsWithDifferentCreditAccountID, TransferExistsWithDifferentAmount}"
    using assms(3) by (auto simp: exists_result_def)
  then show ?thesis
    using tb_lawsD(3) [OF assms(1)] assms(2) unfolding identifier_law_def by (metis option.distinct(1))
qed

lemma batch_exists_in_use:
  assumes "tb_laws c v" "k < length ts" "exists_result (outcomes (commit v) s ts ! k)"
  shows "committed v (fst (run_events (commit v) i s ts)) (tr_ID (ts ! k)) \<noteq> None"
  using assms(2,3)
proof (induction ts arbitrary: s i k)
  case (Cons t ts)
  show ?case
  proof (cases k)
    case 0
    with Cons.prems commit_exists_in_use [OF assms(1) prod.collapse [symmetric], of s t]
    obtain u where "committed v s (tr_ID t) = Some u" by auto
    from run_events_committed [OF assms(1) this] 0 show ?thesis by (metis nth_Cons_0 option.distinct(1))
  next
    case (Suc m)
    with Cons.prems Cons.IH [of m "fst (commit v s t)" 0] show ?thesis
      by (simp only: run_events_state_Cons) simp
  qed
qed simp

end
