(* ===== verification/Ledger_Submission.thy ===== *)
theory Ledger_Submission
  imports Ledger_Transfers
begin

text \<open>
  Correctness of the posted submission paths of \<open>internal/ledger/transfers.go\<close> against the
  laws of the service.  The locale \<open>batch_submission\<close> is what \<open>SubmitUsageBatch\<close> and
  \<open>SubmitAllocations\<close> have in common (build one posted transfer per item, submit the batch,
  classify the outcomes); its lemmas are proved once and interpreted on both.
\<close>

section \<open>The transfers that are built\<close>

lemma unat_ToUint128 [simp]: "unat (ToUint128 x) = unat x"
proof -
  have "unat x < 2 ^ 128" using unsigned_less [of x] by (rule order_less_le_trans) simp
  then show ?thesis by (simp add: ToUint128_def unsigned_ucast_eq take_bit_nat_eq_self)
qed

lemma usage_transferD:
  assumes "usage_transfer u = Inr t"
  shows "tr_ID t = ut_TransferID u" "DebitAccountID t = ut_TenantQuotaID u"
    "CreditAccountID t = ut_SinkID u" "unat (Amount t) = unat (ut_Amount u)" "posting t"
    "LedgerID (ut_Resource u) = Inr (tr_Ledger t)" "tr_Code t = CodeUsageRecord"
  using assms by (auto simp: usage_transfer_def posting_def no_transfer_flags_def split: sum.splits)

lemma allocation_transferD:
  assumes "allocation_transfer a i = Inr t"
  shows "tr_ID t = i" "DebitAccountID t = at_OperatorID a"
    "CreditAccountID t = at_TenantQuotaID a" "unat (Amount t) = unat (at_Amount a)" "posting t"
    "LedgerID (at_Resource a) = Inr (tr_Ledger t)" "tr_Code t = at_Code a"
  using assms by (auto simp: allocation_transfer_def posting_def no_transfer_flags_def split: sum.splits)

text \<open>With every identifier given, building allocations neither generates one nor fails late.\<close>

lemma build_allocations_given:
  "list_all (\<lambda>a. at_TransferID a \<noteq> 0) as \<Longrightarrow>
     build_allocations c as s = (s, traverse (\<lambda>a. allocation_transfer a (at_TransferID a)) as)"
  by (induction c as s rule: build_allocations.induct) (auto simp: given_or_random_def split: sum.splits)

text \<open>The sum over the items a batch newly moved, read off its results.\<close>

definition newly :: "('u \<Rightarrow> bool) \<Rightarrow> ('u \<Rightarrow> uint64) \<Rightarrow> 'u list \<Rightarrow> TransferResult list \<Rightarrow> nat" where
  "newly P amount us rs =
     sum_list (map (\<lambda>(u, r). if Accepted r \<and> \<not> Exists r \<and> P u then unat (amount u) else 0) (zip us rs))"

section \<open>What both submission paths promise\<close>

locale batch_submission =
  fixes submit :: "'tb tb_client \<Rightarrow> 'u list \<Rightarrow> 'tb \<Rightarrow> 'tb \<times> TransferResult list result"
    and build :: "'u \<Rightarrow> Transfer result" and resource :: "'u \<Rightarrow> ResourceType"
    and ident :: "'u \<Rightarrow> bytes16" and debit :: "'u \<Rightarrow> bytes16" and credit :: "'u \<Rightarrow> bytes16"
    and amount :: "'u \<Rightarrow> uint64" and ok :: "'u \<Rightarrow> bool"
  assumes submit: "list_all ok us \<Longrightarrow> submit c us s =
      (case traverse build us of Inl e \<Rightarrow> (s, Inl e) | Inr ts \<Rightarrow> submitBatch c ts (map resource us) s)"
    and built: "build u = Inr t \<Longrightarrow> posting t \<and> tr_ID t = ident u \<and> DebitAccountID t = debit u \<and>
      CreditAccountID t = credit u \<and> unat (Amount t) = unat (amount u)"
begin

lemma transfersD:
  assumes "traverse build us = Inr ts"
  shows "length ts = length us" "k < length us \<Longrightarrow> build (us ! k) = Inr (ts ! k)"
    "k < length us \<Longrightarrow> tr_ID (ts ! k) = ident (us ! k)" "\<forall>t \<in> set ts. posting t"
proof -
  show l: "length ts = length us" and t: "k < length us \<Longrightarrow> build (us ! k) = Inr (ts ! k)" for k
    using assms by (simp_all add: traverse_Inr_iff list_all2_conv_all_nth)
  show "k < length us \<Longrightarrow> tr_ID (ts ! k) = ident (us ! k)" "\<forall>t \<in> set ts. posting t"
    using l built [OF t] by (auto simp: in_set_conv_nth)
qed

lemma submit_Inr:
  assumes "tb_laws c v" "list_all ok us" "submit c us s = (s', Inr rs)"
  obtains ts where "traverse build us = Inr ts" "length ts = length us"
    "s' = fst (run_events (commit v) 0 s ts)" "list_all known_result (outcomes (commit v) s ts)"
    "rs = map2 settled (outcomes (commit v) s ts) (map blank_result (map resource us))"
proof -
  from assms(3) obtain ts where ts: "traverse build us = Inr ts"
    and call: "submitBatch c ts (map resource us) s = (s', Inr rs)"
    by (auto simp: submit [OF assms(2)] split: sum.splits)
  have "length (map resource us) = length ts" using transfersD(1) [OF ts] by simp
  from submitBatch_Inr [OF assms(1) this call] ts transfersD(1) [OF ts] show ?thesis
    by (rule_tac that) auto
qed

lemma results:
  assumes "tb_laws c v" "list_all ok us" "submit c us s = (s', Inr rs)"
  shows "length rs = length us"
    and "k < length us \<Longrightarrow> Accepted (rs ! k) \<Longrightarrow> committed v s' (ident (us ! k)) \<noteq> None"
    and "k < length us \<Longrightarrow> Accepted (rs ! k) \<Longrightarrow> \<not> Exists (rs ! k) \<Longrightarrow>
      build (us ! k) = Inr (the (committed v s' (ident (us ! k))))"
    and "k < length us \<Longrightarrow> Accepted (rs ! k) \<Longrightarrow> \<not> Exists (rs ! k) \<Longrightarrow> committed v s (ident (us ! k)) = None"
    and "k < length us \<Longrightarrow> ExceedsCredits (rs ! k) \<Longrightarrow> burnt v s' (ident (us ! k))"
    and "k < length us \<Longrightarrow> Accepted (rs ! k) \<longleftrightarrow> \<not> ExceedsCredits (rs ! k)"
    and "k < length us \<Longrightarrow> res_Resource (rs ! k) = resource (us ! k)"
proof -
  obtain ts where ts: "traverse build us = Inr ts" and len: "length ts = length us"
    and s': "s' = fst (run_events (commit v) 0 s ts)"
    and known: "list_all known_result (outcomes (commit v) s ts)"
    and rs: "rs = map2 settled (outcomes (commit v) s ts) (map blank_result (map resource us))"
    using assms by (rule submit_Inr)
  show "length rs = length us" using rs len by simp
  fix k assume k: "k < length us"
  let ?o = "outcomes (commit v) s ts ! k"
  have kt: "k < length ts" using k len by simp
  note tid = transfersD(3) [OF ts k]
  have rk: "rs ! k = settled ?o (blank_result (resource (us ! k)))"
    using rs len k by simp
  have o: "known_result ?o" using known kt by (simp add: list_all_length)
  show "Accepted (rs ! k) \<longleftrightarrow> \<not> ExceedsCredits (rs ! k)"
    "res_Resource (rs ! k) = resource (us ! k)"
    using rk o by (auto simp: known_result_def)
  show "committed v s' (ident (us ! k)) \<noteq> None" if "Accepted (rs ! k)"
    using that rk batch_settles [OF assms(1) kt, of s 0] batch_exists_in_use [OF assms(1) kt, of s 0] s' tid
    by auto
  show "build (us ! k) = Inr (the (committed v s' (ident (us ! k))))" "committed v s (ident (us ! k)) = None"
    if "Accepted (rs ! k)" "\<not> Exists (rs ! k)"
    using that rk batch_settles [OF assms(1) kt, of s 0] batch_OK_fresh [OF assms(1) kt, of s] s' tid
      transfersD(2) [OF ts k] by auto
  show "burnt v s' (ident (us ! k))" if "ExceedsCredits (rs ! k)"
    using that rk batch_burns [OF assms(1) kt, of s 0] s' tid by auto
qed

lemma newly_outcomes:
  assumes "list_all2 (\<lambda>u t. build u = Inr t) us ts" "length outs = length us"
    "rs = map2 settled outs (map blank_result (map resource us))"
  shows "newly (\<lambda>u. debit u = j) amount us rs = debit_sum j (zip ts outs) \<and>
    newly (\<lambda>u. credit u = j) amount us rs = credit_sum j (zip ts outs)"
  using assms
proof (induction us ts arbitrary: outs rs rule: list_all2_induct)
  case (Cons u us t ts)
  then obtain r outs' where outs: "outs = r # outs'" by (cases outs) auto
  from Cons.IH [of outs' "tl rs"] Cons.prems outs built [OF Cons.hyps(1)] show ?case
    by (auto simp: newly_def)
qed (simp add: newly_def)

lemma moves_exact:
  assumes "tb_laws c v" "list_all ok us" "submit c us s = (s', Inr rs)" "acct v s j = Some a"
  shows "\<exists>b. acct v s' j = Some b \<and>
    grown a (newly (\<lambda>u. debit u = j) amount us rs) (newly (\<lambda>u. credit u = j) amount us rs) b"
proof -
  obtain ts where ts: "traverse build us = Inr ts" "length ts = length us"
    and s': "s' = fst (run_events (commit v) 0 s ts)"
    and rs: "rs = map2 settled (outcomes (commit v) s ts) (map blank_result (map resource us))"
    using assms(1-3) by (rule submit_Inr)
  have "list_all2 (\<lambda>u t. build u = Inr t) us ts" using ts(1) by (simp add: traverse_Inr_iff)
  note sums = newly_outcomes [OF this _ rs, of j]
  from batch_grown [OF assms(1) transfersD(4) [OF ts(1)] assms(4), of 0] show ?thesis
    using sums ts(2) by (simp flip: s')
qed

lemma later_state:
  assumes "tb_laws c v" "list_all ok us" "traverse build us = Inr ts" "submit c us s = (s', out)"
  shows "s' = s \<or> s' = fst (run_events (commit v) 0 s ts)"
  using assms(3,4) submitBatch_state [OF assms(1)] by (auto simp: submit [OF assms(2)])

lemma resubmission:
  assumes "tb_laws c v" "list_all ok us" "submit c us s = (s1, Inr rs)" "\<forall>r \<in> set rs. Accepted r"
    "tb_reach c s1 s2" "submit c us s2 = (s3, out)"
  shows "unchanged v s2 s3"
    and "out = Inr rs' \<Longrightarrow> k < length us \<Longrightarrow> \<not> Exists (rs ! k) \<Longrightarrow> Accepted (rs' ! k) \<and> Exists (rs' ! k)"
proof -
  obtain ts where ts: "traverse build us = Inr ts" "length ts = length us"
    using assms(1-3) by (rule submit_Inr)
  note faithful = results [OF assms(1-3)]
  have acc: "Accepted (rs ! k)" if "k < length us" for k
    using assms(4) faithful(1) that by auto
  have use: "\<forall>t \<in> set ts. committed v s2 (tr_ID t) \<noteq> None"
    using faithful(2) acc ts(2) transfersD(3) [OF ts(1)] transfer_kept.reach_keeps [OF assms(5,1)]
    by (fastforce simp: in_set_conv_nth)
  show "unchanged v s2 s3"
    using later_state [OF assms(1,2) ts(1) assms(6)] batch_in_use [OF assms(1) use, of 0] by auto
  show "Accepted (rs' ! k) \<and> Exists (rs' ! k)"
    if out: "out = Inr rs'" and k: "k < length us" and new: "\<not> Exists (rs ! k)"
  proof -
    have "committed v s1 (tr_ID (ts ! k)) = Some (ts ! k)"
      using faithful(2,3) [OF k acc [OF k]] new transfersD(2,3) [OF ts(1) k] by auto
    then have "committed v s2 (tr_ID (ts ! k)) = Some (ts ! k)"
      by (rule transfer_kept.reach_keeps [OF assms(5,1)])
    then have o: "outcomes (commit v) s2 ts ! k = TransferExists"
      using batch_recorded_at [OF assms(1) use] k ts(2) by simp
    have "submit c us s2 = (s3, Inr rs')" using assms(6) out by simp
    with assms(1,2) show ?thesis
      by (rule submit_Inr) (use ts o k in \<open>auto simp: exists_result_def\<close>)
  qed
qed

lemma resubmission_answered:
  assumes "tb_laws c v" "list_all ok us" "submit c us s = (s1, Inr rs)"
    "\<forall>r \<in> set rs. Accepted r \<and> \<not> Exists r" "tb_reach c s1 s2" "traverse build us = Inr ts"
    "CreateTransfers c s2 ts = (s3, Inr tr)"
  shows "submit c us s2 = (s2, Inr (map (\<lambda>r. r\<lparr>Exists := True\<rparr>) rs))"
proof -
  note d = transfersD [OF assms(6)] and faithful = results [OF assms(1-3)]
  obtain outs where rs: "rs = map2 settled outs (map blank_result (map resource us))" "length outs = length us"
    using assms(1-3) by (rule submit_Inr) simp
  have "committed v s2 (tr_ID (ts ! k)) = Some (ts ! k)" if k: "k < length us" for k
  proof -
    have "Accepted (rs ! k)" "\<not> Exists (rs ! k)" using assms(4) faithful(1) k by auto
    then have "committed v s1 (tr_ID (ts ! k)) = Some (ts ! k)"
      using faithful(2,3) [OF k] d(2,3) [OF k] by auto
    then show ?thesis by (rule transfer_kept.reach_keeps [OF assms(5,1)])
  qed
  then have "\<forall>t \<in> set ts. committed v s2 (tr_ID t) = Some t" using d(1) by (auto simp: in_set_conv_nth)
  note again = batch_recorded [OF assms(1) this]
  have len: "length (map resource us) = length ts" using d(1) by simp
  note spec = submitBatch_spec [OF assms(1) len assms(7)]
  have "map2 settled (replicate (length us) TransferExists) (map blank_result (map resource us)) =
      map (\<lambda>r. r\<lparr>Exists := True\<rparr>) rs"
  proof (rule nth_equalityI)
    fix k assume "k < length (map2 settled (replicate (length us) TransferExists) (map blank_result (map resource us)))"
    then have k: "k < length us" by simp
    then have "Accepted (rs ! k)" "\<not> Exists (rs ! k)" using assms(4) faithful(1) by auto
    then have "outs ! k = TransferOK" using rs k by simp
    with k rs show "map2 settled (replicate (length us) TransferExists) (map blank_result (map resource us)) ! k =
        map (\<lambda>r. r\<lparr>Exists := True\<rparr>) rs ! k"
      by (simp add: settled_def blank_result_def exists_result_def)
  qed (use rs in simp)
  moreover have "s3 = s2" using batch_okD [OF assms(1,7)] again [of 0] by simp
  ultimately show ?thesis
    using spec(1,3) again len
    by (simp add: submit [OF assms(2)] assms(6) list_all_iff known_result_def exists_result_def)
qed

lemma exhausted_again:
  assumes "tb_laws c v" "list_all ok us" "submit c us s = (s1, Inr rs)"
    "k < length us" "ExceedsCredits (rs ! k)" "tb_reach c s1 s2" "submit c us s2 = (s3, out)"
  shows "\<exists>e. out = Inl e"
proof (cases out)
  case (Inr rs')
  with assms(7) have "submit c us s2 = (s3, Inr rs')" by simp
  with assms(1,2) obtain ts where ts: "traverse build us = Inr ts" "length ts = length us"
    and known: "list_all known_result (outcomes (commit v) s2 ts)"
    by (rule submit_Inr)
  have "burnt v s2 (tr_ID (ts ! k))"
    using results(5) [OF assms(1-5)] transfersD(3) [OF ts(1) assms(4)]
    by (simp add: burnt_kept.reach_keeps [OF assms(6,1)])
  then have "outcomes (commit v) s2 ts ! k = TransferIDAlreadyFailed"
    using batch_burnt [OF assms(1)] assms(4) ts(2) by simp
  with known assms(4) ts(2) show ?thesis
    by (auto simp: list_all_length known_result_def exists_result_def)
qed simp

lemma funded_accepted:
  assumes "tb_laws c v" "list_all ok us" "traverse build us = Inr ts" "funded v s ts"
    "CreateTransfers c s ts = (s', Inr tr)"
  shows "submit c us s =
    (s', Inr (map (\<lambda>u. (blank_result (resource u))\<lparr>Accepted := True\<rparr>) us))"
proof -
  have len: "length (map resource us) = length ts" using transfersD(1) [OF assms(3)] by simp
  note spec = submitBatch_spec [OF assms(1) len assms(5)]
  have "map2 settled (replicate (length us) TransferOK) (map blank_result (map resource us)) =
      map (\<lambda>u. (blank_result (resource u))\<lparr>Accepted := True\<rparr>) us"
    by (rule nth_equalityI) (simp_all add: settled_def blank_result_def)
  with spec(1,3) funded_outcomes [OF assms(1,4)] len show ?thesis
    by (simp add: submit [OF assms(2)] assms(3) list_all_iff known_result_def)
qed

end

interpretation usage: batch_submission SubmitUsageBatch usage_transfer ut_Resource ut_TransferID
  ut_TenantQuotaID ut_SinkID ut_Amount "\<lambda>_. True"
  by unfold_locales (auto simp: SubmitUsageBatch_def usage_transferD)

interpretation allocation: batch_submission SubmitAllocations
  "\<lambda>a. allocation_transfer a (at_TransferID a)" at_Resource at_TransferID
  at_OperatorID at_TenantQuotaID at_Amount "\<lambda>a. at_TransferID a \<noteq> 0"
  by unfold_locales
     (auto simp: SubmitAllocations_def build_allocations_given allocation_transferD split: sum.splits)

interpretation usage_call: ledger_call c "\<lambda>s. fst (SubmitUsageBatch c us s)" for c us
proof
  fix s
  show "tb_reach c s (fst (SubmitUsageBatch c us s))"
    using reach_refl [of c s]
    by (auto simp: SubmitUsageBatch_def submitBatch_def split: prod.splits sum.splits dest: reach_callI(1))
qed

lemma given_or_random_reach [ledger_reach]:
  "given_or_random c i s1 = (s2, j) \<Longrightarrow> tb_reach c s s1 \<Longrightarrow> tb_reach c s s2"
  by (auto simp: given_or_random_def RandomID_def split: if_splits dest: reach_callI(3))

lemma build_allocations_reach:
  "build_allocations c as s1 = (s2, r) \<Longrightarrow> tb_reach c s s1 \<Longrightarrow> tb_reach c s s2"
  by (induction as arbitrary: s1 r) (auto split: prod.splits sum.splits dest: given_or_random_reach)

interpretation allocation_call: ledger_call c "\<lambda>s. fst (SubmitAllocations c as s)" for c as
proof
  fix s
  obtain s1 r where loop: "build_allocations c as s = (s1, r)" by fastforce
  note r1 = build_allocations_reach [OF loop reach_refl]
  show "tb_reach c s (fst (SubmitAllocations c as s))"
    using loop r1
    by (auto simp: SubmitAllocations_def submitBatch_def split: prod.splits sum.splits dest: reach_callI(1))
qed

section \<open>Properties: usage\<close>

text \<open>A ledger with the three accounts of each resource and 100 units allocated to each wallet.\<close>

definition demo_accounts :: "bytes16 \<Rightarrow> uint32 \<Rightarrow> (bytes16 \<times> Account) list" where
  "demo_accounts i l =
     [(i, new_account i l AccountCodeOperator no_account_flags 0),
      (i + 1, new_account (i + 1) l AccountCodeSink no_account_flags 0),
      (i + 2, (new_account (i + 2) l AccountCodeTenantQuota quota_flags 5)\<lparr>CreditsPosted := 100\<rparr>)]"

definition demo_ledger :: ref_tb where
  "demo_ledger = \<lparr>ref_accounts = demo_accounts 10 1 @ demo_accounts 20 2 @ demo_accounts 30 3,
     ref_ids = [], ref_next = 1000\<rparr>"

definition demo_usage :: "bytes16 \<Rightarrow> uint64 \<Rightarrow> UsageTransfer" where
  "demo_usage i n = \<lparr>ut_Resource = ResourceCPUHours, ut_OperatorID = 10, ut_TenantQuotaID = 12,
     ut_SinkID = 11, ut_Amount = n, ut_TransferID = i, ut_ClusterUUID = 7, ut_HeartbeatTsNs = 0\<rparr>"

text \<open>
  \<open>SubmitUsageBatch\<close> reports every transfer as the service decided it: one result per
  transfer, in order; \<open>Accepted\<close> means its identifier is committed, \<open>Accepted\<close> without
  \<open>Exists\<close> means this very transfer was committed by this call, and \<open>ExceedsCredits\<close> (the
  only alternative to \<open>Accepted\<close>) means the service refused it and burnt its identifier.
\<close>

lemma usage_results_faithful:
  assumes "tb_laws c v" "SubmitUsageBatch c us s = (s', Inr rs)" "k < length us"
  shows "length rs = length us \<and> res_Resource (rs ! k) = ut_Resource (us ! k) \<and>
    (Accepted (rs ! k) \<longleftrightarrow> \<not> ExceedsCredits (rs ! k)) \<and>
    (Accepted (rs ! k) \<longrightarrow> committed v s' (ut_TransferID (us ! k)) \<noteq> None) \<and>
    (Accepted (rs ! k) \<and> \<not> Exists (rs ! k) \<longrightarrow> committed v s (ut_TransferID (us ! k)) = None \<and>
       usage_transfer (us ! k) = Inr (the (committed v s' (ut_TransferID (us ! k))))) \<and>
    (ExceedsCredits (rs ! k) \<longrightarrow> burnt v s' (ut_TransferID (us ! k)))"
  using usage.results(1) [OF assms(1) _ assms(2)] usage.results(2-7) [OF assms(1) _ assms(2,3)]
  by (auto simp: list_all_iff)

lemma demo_call:
  "\<not> isl (snd (SubmitUsageBatch ref_client [demo_usage 501 60, demo_usage 502 60, demo_usage 503 40] demo_ledger))"
  by code_simp

lemma usage_results_faithful_witness:
  "\<exists>s' rs. SubmitUsageBatch ref_client [demo_usage 501 60, demo_usage 502 60, demo_usage 503 40] demo_ledger =
       (s', Inr rs) \<and> length rs = 3 \<and> (Accepted (rs ! 1) \<longleftrightarrow> \<not> ExceedsCredits (rs ! 1))"
proof -
  let ?us = "[demo_usage 501 60, demo_usage 502 60, demo_usage 503 40]"
  obtain s' rs where call: "SubmitUsageBatch ref_client ?us demo_ledger = (s', Inr rs)"
    using returned [OF demo_call] by blast
  from usage_results_faithful [OF ref_laws call, of 1] call show ?thesis by simp
qed

text \<open>
  C14. A usage batch charges exactly what it reports: on every account, posted debits (and on
  the sink posted credits) grow by the sum of the amounts whose result is \<open>Accepted\<close> and not
  \<open>Exists\<close>; refused and duplicate transfers move nothing, and no other field changes.
\<close>

theorem usage_charges_exact:
  assumes "tb_laws c v" "SubmitUsageBatch c us s = (s', Inr rs)" "acct v s j = Some a"
  shows "\<exists>b. acct v s' j = Some b \<and>
    grown a (newly (\<lambda>u. ut_TenantQuotaID u = j) ut_Amount us rs)
      (newly (\<lambda>u. ut_SinkID u = j) ut_Amount us rs) b"
  by (rule usage.moves_exact [OF assms(1) _ assms(2,3)]) (simp add: list_all_iff)

theorem usage_charges_exact_witness:
  "\<exists>s' rs a b. SubmitUsageBatch ref_client [demo_usage 501 60, demo_usage 502 60, demo_usage 503 40] demo_ledger =
       (s', Inr rs) \<and> ref_acct demo_ledger 12 = Some a \<and> ref_acct s' 12 = Some b \<and>
       unat (DebitsPosted b) = unat (DebitsPosted a) +
         newly (\<lambda>u. ut_TenantQuotaID u = 12) ut_Amount
           [demo_usage 501 60, demo_usage 502 60, demo_usage 503 40] rs"
proof -
  let ?us = "[demo_usage 501 60, demo_usage 502 60, demo_usage 503 40]"
  obtain s' rs where call: "SubmitUsageBatch ref_client ?us demo_ledger = (s', Inr rs)"
    using returned [OF demo_call] by blast
  have "ref_acct demo_ledger 12 \<noteq> None" by code_simp
  then obtain a where a: "acct ref_view demo_ledger 12 = Some a" by auto
  from usage_charges_exact [OF ref_laws call a] call a show ?thesis by (auto simp: grown_def)
qed

text \<open>
  C15. Submitting a usage batch again is safe (a Temporal retry after a lost completion): if
  every transfer of a batch was accepted, then running the same submission against any later
  state of the ledger changes no account and no transfer, and a result it returns reports every
  transfer that was new before as \<open>Accepted\<close> and \<open>Exists\<close>.  If all of them were new, then the
  second submission succeeds whenever the client call is answered: it returns the results of
  the first one, each now marked \<open>Exists\<close>.
\<close>

theorem usage_resubmission:
  assumes "tb_laws c v" "SubmitUsageBatch c us s = (s1, Inr rs)" "\<forall>r \<in> set rs. Accepted r"
    "tb_reach c s1 s2" "SubmitUsageBatch c us s2 = (s3, out)"
  shows "unchanged v s2 s3 \<and>
    (\<forall>rs' k. out = Inr rs' \<and> k < length us \<and> \<not> Exists (rs ! k) \<longrightarrow>
       Accepted (rs' ! k) \<and> Exists (rs' ! k)) \<and>
    (\<forall>ts s' tr. (\<forall>r \<in> set rs. \<not> Exists r) \<and> traverse usage_transfer us = Inr ts \<and>
       CreateTransfers c s2 ts = (s', Inr tr) \<longrightarrow> out = Inr (map (\<lambda>r. r\<lparr>Exists := True\<rparr>) rs))"
proof -
  have all: "list_all (\<lambda>_. True) us" by (simp add: list_all_iff)
  note again = usage.resubmission_answered [OF assms(1) all assms(2) _ assms(4)]
  have "out = Inr (map (\<lambda>r. r\<lparr>Exists := True\<rparr>) rs)"
    if "\<forall>r \<in> set rs. \<not> Exists r" "traverse usage_transfer us = Inr ts" "CreateTransfers c s2 ts = (s', Inr tr)"
    for ts s' tr
    using again [OF _ that(2,3)] that(1) assms(3,5) by auto
  then show ?thesis using usage.resubmission [OF assms(1) all assms(2-5)] by blast
qed

theorem usage_resubmission_witness:
  "\<exists>s1 rs s3 out. SubmitUsageBatch ref_client [demo_usage 501 60] demo_ledger = (s1, Inr rs) \<and>
     SubmitUsageBatch ref_client [demo_usage 501 60] s1 = (s3, out) \<and> unchanged ref_view s1 s3 \<and>
     out = Inr (map (\<lambda>r. r\<lparr>Exists := True\<rparr>) rs) \<and> length rs = 1"
proof -
  let ?us = "[demo_usage 501 60]" and ?first = "snd (SubmitUsageBatch ref_client [demo_usage 501 60] demo_ledger)"
  have "case ?first of Inl e \<Rightarrow> False
      | Inr rs \<Rightarrow> list_all (\<lambda>r. Accepted r \<and> \<not> Exists r) rs \<and> length rs = 1" by code_simp
  then obtain s1 rs where call: "SubmitUsageBatch ref_client ?us demo_ledger = (s1, Inr rs)"
    and acc: "\<forall>r \<in> set rs. Accepted r" and new: "\<forall>r \<in> set rs. \<not> Exists r" and one: "length rs = 1"
    by (cases "SubmitUsageBatch ref_client ?us demo_ledger") (auto simp: list_all_iff split: sum.splits)
  obtain s3 out where again: "SubmitUsageBatch ref_client ?us s1 = (s3, out)" by fastforce
  obtain ts where ts: "traverse usage_transfer ?us = Inr ts"
    by (simp add: usage_transfer_def demo_usage_def LedgerID_def)
  obtain s' tr where "CreateTransfers ref_client s1 ts = (s', Inr tr)" using ref_answers by blast
  with usage_resubmission [OF ref_laws call acc reach_refl again] new ts
  have "unchanged ref_view s1 s3" "out = Inr (map (\<lambda>r. r\<lparr>Exists := True\<rparr>) rs)" by blast+
  with call again one show ?thesis by blast
qed

text \<open>
  C16. A batch with a refused transfer cannot be submitted again: once the service has answered
  \<open>ExceedsCredits\<close> for a transfer, its identifier is burnt, and \<open>submitBatch\<close> treats the answer
  to every later submission of that batch as an unexpected result, so the call fails whatever
  credits were issued in between.
\<close>

theorem usage_exhausted_resubmission_fails:
  assumes "tb_laws c v" "SubmitUsageBatch c us s = (s1, Inr rs)" "k < length us"
    "ExceedsCredits (rs ! k)" "tb_reach c s1 s2" "SubmitUsageBatch c us s2 = (s3, out)"
  shows "\<exists>e. out = Inl e"
  by (rule usage.exhausted_again [OF assms(1) _ assms(2-6)]) (simp add: list_all_iff)

theorem usage_exhausted_resubmission_fails_witness:
  "\<exists>s1 rs s3 e. SubmitUsageBatch ref_client [demo_usage 501 160] demo_ledger = (s1, Inr rs) \<and>
     SubmitUsageBatch ref_client [demo_usage 501 160] s1 = (s3, Inl e)"
proof -
  let ?us = "[demo_usage 501 160]" and ?first = "snd (SubmitUsageBatch ref_client [demo_usage 501 160] demo_ledger)"
  have "case ?first of Inl e \<Rightarrow> False | Inr rs \<Rightarrow> ExceedsCredits (rs ! 0)" by code_simp
  then obtain s1 rs where call: "SubmitUsageBatch ref_client ?us demo_ledger = (s1, Inr rs)"
    and exc: "ExceedsCredits (rs ! 0)"
    by (cases "SubmitUsageBatch ref_client ?us demo_ledger") (auto split: sum.splits)
  obtain s3 out where again: "SubmitUsageBatch ref_client ?us s1 = (s3, out)" by fastforce
  from usage_exhausted_resubmission_fails [OF ref_laws call _ exc reach_refl again] call again
  show ?thesis by auto
qed

text \<open>What a usage transfer needs to be accepted, stated over the request and the ledger before it.\<close>

definition usage_ready :: "'tb tb_view \<Rightarrow> 'tb \<Rightarrow> UsageTransfer \<Rightarrow> bool" where
  "usage_ready v s u \<longleftrightarrow>
     valid_id (ut_TransferID u) \<and> committed v s (ut_TransferID u) = None \<and> \<not> burnt v s (ut_TransferID u) \<and>
     ut_TenantQuotaID u \<noteq> ut_SinkID u \<and>
     (\<exists>a b. acct v s (ut_TenantQuotaID u) = Some a \<and> acct v s (ut_SinkID u) = Some b \<and>
        LedgerID (ut_Resource u) = Inr (acc_Ledger a) \<and> LedgerID (ut_Resource u) = Inr (acc_Ledger b))"

definition asked :: "(UsageTransfer \<Rightarrow> bool) \<Rightarrow> UsageTransfer list \<Rightarrow> nat" where
  "asked P us = sum_list (map (\<lambda>u. if P u then unat (ut_Amount u) else 0) us)"

lemma usage_ready_built:
  assumes "usage_ready v s u"
  obtains t where "usage_transfer u = Inr t" "well_addressed v s t"
proof -
  obtain a b where ab: "acct v s (ut_TenantQuotaID u) = Some a" "acct v s (ut_SinkID u) = Some b"
    "LedgerID (ut_Resource u) = Inr (acc_Ledger a)" "LedgerID (ut_Resource u) = Inr (acc_Ledger b)"
    using assms by (auto simp: usage_ready_def)
  then have "acc_Ledger a \<noteq> 0" by (auto simp: LedgerID_def split: if_splits)
  with ab assms show ?thesis
    by (intro that [OF _ well_addressed_def [THEN iffD2]])
       (auto simp: usage_transfer_def usage_ready_def posting_def no_transfer_flags_def CodeUsageRecord_def)
qed

lemma usage_ready_batch:
  assumes "\<forall>u \<in> set us. usage_ready v s u"
  shows "\<exists>ts. traverse usage_transfer us = Inr ts \<and> (\<forall>t \<in> set ts. well_addressed v s t) \<and>
    map tr_ID ts = map ut_TransferID us \<and>
    (\<forall>j. asked_debit j ts = asked (\<lambda>u. ut_TenantQuotaID u = j) us \<and>
         asked_credit j ts = asked (\<lambda>u. ut_SinkID u = j) us)"
  using assms
proof (induction us)
  case (Cons u us)
  then obtain ts where ts: "traverse usage_transfer us = Inr ts" "\<forall>t \<in> set ts. well_addressed v s t"
    "map tr_ID ts = map ut_TransferID us"
    "\<forall>j. asked_debit j ts = asked (\<lambda>u. ut_TenantQuotaID u = j) us \<and>
      asked_credit j ts = asked (\<lambda>u. ut_SinkID u = j) us" by auto
  obtain t where t: "usage_transfer u = Inr t" "well_addressed v s t"
    using usage_ready_built Cons.prems by (metis list.set_intros(1))
  from ts t usage_transferD(1-4) [OF t(1)] show ?case by (simp add: asked_def)
qed (simp add: asked_def)

lemma newly_all_accepted:
  "newly P ut_Amount us (map (\<lambda>u. (blank_result (ut_Resource u))\<lparr>Accepted := True\<rparr>) us) = asked P us"
  by (induction us) (simp_all add: newly_def asked_def blank_result_def)

text \<open>
  C17. A usage batch that is paid for is accepted whole: if the identifiers are distinct, valid
  and unused, every wallet and sink is an account on the ledger of the transfer's resource, and
  every account has room for the sums of the amounts asked of it, then the batch can be built;
  and if the service answers the call, \<open>SubmitUsageBatch\<close> reports every transfer \<open>Accepted\<close> and
  none as \<open>Exists\<close>, and on every account exactly those sums have been posted: to the debits
  of the wallets and to the credits of the sinks.
\<close>

theorem usage_funded_accepted:
  assumes "tb_laws c v" "distinct (map ut_TransferID us)" "\<forall>u \<in> set us. usage_ready v s u"
    "\<forall>j a. acct v s j = Some a \<longrightarrow>
       room a (asked (\<lambda>u. ut_TenantQuotaID u = j) us) (asked (\<lambda>u. ut_SinkID u = j) us)"
  shows "\<exists>ts. traverse usage_transfer us = Inr ts \<and>
    (\<forall>s' tr. CreateTransfers c s ts = (s', Inr tr) \<longrightarrow>
       SubmitUsageBatch c us s =
         (s', Inr (map (\<lambda>u. (blank_result (ut_Resource u))\<lparr>Accepted := True\<rparr>) us)) \<and>
       (\<forall>j a. acct v s j = Some a \<longrightarrow> (\<exists>b. acct v s' j = Some b \<and>
          grown a (asked (\<lambda>u. ut_TenantQuotaID u = j) us) (asked (\<lambda>u. ut_SinkID u = j) us) b)))"
proof -
  obtain ts where ts: "traverse usage_transfer us = Inr ts" "\<forall>t \<in> set ts. well_addressed v s t"
    "map tr_ID ts = map ut_TransferID us"
    "\<forall>j. asked_debit j ts = asked (\<lambda>u. ut_TenantQuotaID u = j) us \<and>
      asked_credit j ts = asked (\<lambda>u. ut_SinkID u = j) us"
    using usage_ready_batch [OF assms(3)] by blast
  then have f: "funded v s ts" using assms(2,4) by (simp add: funded_def)
  have all: "list_all (\<lambda>_. True) us" by (simp add: list_all_iff)
  show ?thesis
  proof (intro exI [of _ ts] conjI allI impI)
    fix s' tr assume call: "CreateTransfers c s ts = (s', Inr tr)"
    note sub = usage.funded_accepted [OF assms(1) all ts(1) f call]
    then show "SubmitUsageBatch c us s =
      (s', Inr (map (\<lambda>u. (blank_result (ut_Resource u))\<lparr>Accepted := True\<rparr>) us))" .
    show "\<exists>b. acct v s' j = Some b \<and>
        grown a (asked (\<lambda>u. ut_TenantQuotaID u = j) us) (asked (\<lambda>u. ut_SinkID u = j) us) b"
      if "acct v s j = Some a" for j a
      using usage.moves_exact [OF assms(1) all sub that] by (simp only: newly_all_accepted)
  qed (rule ts(1))
qed

lemma demo_room:
  "ref_acct demo_ledger j = Some a \<Longrightarrow> room a (if 12 = j then 60 else 0) (if 11 = j then 60 else 0)"
  by (auto simp: ref_acct_def demo_ledger_def demo_accounts_def new_account_def room_def debits_total_def
      quota_flags_def no_account_flags_def split: if_splits)

lemma demo_ready: "usage_ready ref_view demo_ledger (demo_usage 501 60)"
  by (simp add: usage_ready_def valid_id_def demo_usage_def demo_ledger_def demo_accounts_def new_account_def
      ref_acct_def ref_committed_def ref_burnt_def LedgerID_def)

theorem usage_funded_accepted_witness:
  "\<exists>s' b. SubmitUsageBatch ref_client [demo_usage 501 60] demo_ledger =
       (s', Inr [(blank_result ResourceCPUHours)\<lparr>Accepted := True\<rparr>]) \<and>
     ref_acct s' 12 = Some b \<and> unat (DebitsPosted b) = 60"
proof -
  let ?us = "[demo_usage 501 60]"
  have asked: "asked (\<lambda>u. ut_TenantQuotaID u = j) ?us = (if 12 = j then 60 else 0)"
    "asked (\<lambda>u. ut_SinkID u = j) ?us = (if 11 = j then 60 else 0)" for j
    by (simp_all add: asked_def demo_usage_def)
  have ready: "distinct (map ut_TransferID ?us)" "\<forall>u \<in> set ?us. usage_ready ref_view demo_ledger u"
    "\<forall>j a. acct ref_view demo_ledger j = Some a \<longrightarrow>
       room a (asked (\<lambda>u. ut_TenantQuotaID u = j) ?us) (asked (\<lambda>u. ut_SinkID u = j) ?us)"
    using demo_ready demo_room by (simp_all add: asked)
  obtain ts where ts: "\<And>s' tr. CreateTransfers ref_client demo_ledger ts = (s', Inr tr) \<Longrightarrow>
       SubmitUsageBatch ref_client ?us demo_ledger =
         (s', Inr (map (\<lambda>u. (blank_result (ut_Resource u))\<lparr>Accepted := True\<rparr>) ?us)) \<and>
       (\<forall>j a. acct ref_view demo_ledger j = Some a \<longrightarrow> (\<exists>b. acct ref_view s' j = Some b \<and>
          grown a (asked (\<lambda>u. ut_TenantQuotaID u = j) ?us) (asked (\<lambda>u. ut_SinkID u = j) ?us) b))"
    using usage_funded_accepted [OF ref_laws ready] by blast
  obtain s' tr where call: "CreateTransfers ref_client demo_ledger ts = (s', Inr tr)"
    using ref_answers by blast
  obtain a where a: "ref_acct demo_ledger 12 = Some a" "unat (DebitsPosted a) = 0"
    by (simp add: ref_acct_def demo_ledger_def demo_accounts_def new_account_def)
  have sub: "SubmitUsageBatch ref_client ?us demo_ledger =
      (s', Inr [(blank_result ResourceCPUHours)\<lparr>Accepted := True\<rparr>])"
    using ts [OF call] by (simp add: demo_usage_def)
  obtain b where "ref_acct s' 12 = Some b" "unat (DebitsPosted b) = 60"
    using ts [OF call, THEN conjunct2, rule_format, of 12 a] a by (auto simp: asked grown_def)
  with sub show ?thesis by blast
qed

section \<open>Properties: allocations\<close>

text \<open>
  Credits are issued exactly once and exactly as reported: with deterministic identifiers,
  \<open>SubmitAllocations\<close> moves, on every account, precisely the amounts of the allocations whose
  result is \<open>Accepted\<close> and not \<open>Exists\<close>, from the operator's debits to the wallet's credits.
\<close>

lemma allocation_credits_exact:
  assumes "tb_laws c v" "list_all (\<lambda>a. at_TransferID a \<noteq> 0) as"
    "SubmitAllocations c as s = (s', Inr rs)" "acct v s j = Some a"
  shows "\<exists>b. acct v s' j = Some b \<and>
    grown a (newly (\<lambda>u. at_OperatorID u = j) at_Amount as rs)
      (newly (\<lambda>u. at_TenantQuotaID u = j) at_Amount as rs) b"
  by (rule allocation.moves_exact [OF assms])

definition demo_allocation :: AllocationTransfer where
  "demo_allocation = \<lparr>at_Resource = ResourceCPUHours, at_OperatorID = 10, at_TenantQuotaID = 12,
     at_Amount = 50, at_Code = CodeQuotaAllocation, at_TenantUUID = 5, at_PeriodStartNs = 0,
     at_TransferID = 601\<rparr>"

lemma demo_allocation_call:
  "case snd (SubmitAllocations ref_client [demo_allocation] demo_ledger) of
     Inl e \<Rightarrow> False | Inr rs \<Rightarrow> list_all Accepted rs"
  by code_simp

lemma allocation_credits_exact_witness:
  "\<exists>s' rs a b. SubmitAllocations ref_client [demo_allocation] demo_ledger = (s', Inr rs) \<and>
     ref_acct demo_ledger 12 = Some a \<and> ref_acct s' 12 = Some b \<and>
     unat (CreditsPosted b) = unat (CreditsPosted a) +
       newly (\<lambda>u. at_TenantQuotaID u = 12) at_Amount [demo_allocation] rs"
proof -
  obtain s' rs where call: "SubmitAllocations ref_client [demo_allocation] demo_ledger = (s', Inr rs)"
    using demo_allocation_call
    by (cases "SubmitAllocations ref_client [demo_allocation] demo_ledger") (auto split: sum.splits)
  have ok: "list_all (\<lambda>a. at_TransferID a \<noteq> 0) [demo_allocation]" by (simp add: demo_allocation_def)
  have "ref_acct demo_ledger 12 \<noteq> None" by code_simp
  then obtain a where a: "acct ref_view demo_ledger 12 = Some a" by auto
  from allocation_credits_exact [OF ref_laws ok call a] call a show ?thesis by (auto simp: grown_def)
qed

text \<open>
  An allocation with a deterministic identifier is never credited twice: submitting it
  again against any later state of the ledger changes no account and no transfer.
\<close>

lemma allocation_resubmission:
  assumes "tb_laws c v" "list_all (\<lambda>a. at_TransferID a \<noteq> 0) as"
    "SubmitAllocations c as s = (s1, Inr rs)" "\<forall>r \<in> set rs. Accepted r"
    "tb_reach c s1 s2" "SubmitAllocations c as s2 = (s3, out)"
  shows "unchanged v s2 s3"
  by (rule allocation.resubmission(1) [OF assms])

lemma allocation_resubmission_witness:
  "\<exists>s1 s3 out. s1 = fst (SubmitAllocations ref_client [demo_allocation] demo_ledger) \<and>
     SubmitAllocations ref_client [demo_allocation] s1 = (s3, out) \<and> unchanged ref_view s1 s3"
proof -
  obtain s1 rs where call: "SubmitAllocations ref_client [demo_allocation] demo_ledger = (s1, Inr rs)"
    and acc: "\<forall>r \<in> set rs. Accepted r"
    using demo_allocation_call
    by (cases "SubmitAllocations ref_client [demo_allocation] demo_ledger")
       (auto simp: list_all_iff split: sum.splits)
  have ok: "list_all (\<lambda>a. at_TransferID a \<noteq> 0) [demo_allocation]" by (simp add: demo_allocation_def)
  obtain s3 out where again: "SubmitAllocations ref_client [demo_allocation] s1 = (s3, out)" by fastforce
  from allocation_resubmission [OF ref_laws ok call acc reach_refl again] call again show ?thesis by auto
qed

end
