(* ===== verification/Ledger_Gauge.thy ===== *)
theory Ledger_Gauge
  imports Ledger_Submission
begin

text \<open>
  Correctness of \<open>SubmitGaugePendingUpdates\<close> (\<open>internal/ledger/transfers.go\<close>): the void of an
  old reservation is submitted right before the reservation that replaces it, the results say
  what was reserved, and the pending debits of the wallet follow the gauge.
\<close>

section \<open>The events of a gauge batch\<close>

text \<open>With deterministic identifiers given, the batch is a pure function of the updates.\<close>

definition gauge_given :: "GaugePendingUpdate \<Rightarrow> bool" where
  "gauge_given u \<longleftrightarrow> gu_NewPendingID u \<noteq> 0 \<and> (gu_OldPendingID u \<noteq> None \<longrightarrow> gu_VoidTransferID u \<noteq> 0) \<and>
     gu_Resource u \<in> set AllResources"

definition gauge_ledger :: "GaugePendingUpdate \<Rightarrow> uint32" where
  "gauge_ledger u = (case LedgerID (gu_Resource u) of Inr l \<Rightarrow> l | Inl _ \<Rightarrow> 0)"

definition gauge_events :: "nat \<Rightarrow> GaugePendingUpdate \<Rightarrow> (Transfer \<times> meta) list" where
  "gauge_events i u =
     (case gu_OldPendingID u of
        None \<Rightarrow> []
      | Some old \<Rightarrow> [(void_transfer u (gu_VoidTransferID u) old (gauge_ledger u),
                     \<lparr>updateIdx = i, isVoid = True\<rparr>)]) @
     (if gu_NewAmount u > 0
      then [(pending_transfer u (gu_NewPendingID u) (gauge_ledger u), \<lparr>updateIdx = i, isVoid = False\<rparr>)]
      else [])"

fun gauge_plan :: "nat \<Rightarrow> GaugePendingUpdate list \<Rightarrow> (Transfer \<times> meta) list" where
  "gauge_plan i [] = []"
| "gauge_plan i (u # us) = gauge_events i u @ gauge_plan (Suc i) us"

lemma new_pending_ids_given:
  "list_all gauge_given us \<Longrightarrow> new_pending_ids c us s = (s, map gu_NewPendingID us)"
  by (induction us) (auto simp: gauge_given_def given_or_random_def)

lemma gauge_transfers_given:
  "gauge_given u \<Longrightarrow> gauge_transfers c i u (gu_NewPendingID u) s = (s, Inr (gauge_events i u))"
  using LedgerID_defined_iff [of "gu_Resource u"]
  by (auto simp: gauge_given_def gauge_transfers_def gauge_events_def gauge_ledger_def given_or_random_def
      split: option.splits)

lemma gauge_loop_given:
  "list_all gauge_given us \<Longrightarrow>
     gauge_loop c i (zip us (map gu_NewPendingID us)) s = (s, Inr (gauge_plan i us))"
  by (induction us arbitrary: i) (simp_all add: gauge_transfers_given)

lemma gauge_plan_meta:
  assumes "(t, m) \<in> set (gauge_plan i us)"
  shows "i \<le> updateIdx m" "updateIdx m < i + length us" "(t, m) \<in> set (gauge_events (updateIdx m) (us ! (updateIdx m - i)))"
  using assms
proof (induction i us rule: gauge_plan.induct)
  case (2 i u us)
  have ev: "(t, m) \<in> set (gauge_events i u) \<Longrightarrow> updateIdx m = i"
    by (auto simp: gauge_events_def split: option.splits if_splits)
  {
    case 1
    with 2 ev show ?case by auto
  next
    case 2
    with "2.IH" ev show ?case by auto
  next
    case 3
    show ?case
    proof (cases "(t, m) \<in> set (gauge_events i u)")
      case False
      with 3 have "(t, m) \<in> set (gauge_plan (Suc i) us)" by simp
      with "2.IH" have "Suc i \<le> updateIdx m"
        "(t, m) \<in> set (gauge_events (updateIdx m) (us ! (updateIdx m - Suc i)))" by auto
      moreover from this(1) have "updateIdx m - i = Suc (updateIdx m - Suc i)" by simp
      ultimately show ?thesis by (simp only: nth_Cons_Suc)
    qed (use ev in simp)
  }
qed simp_all

lemma gauge_plan_pending:
  "k < length us \<Longrightarrow> gu_NewAmount (us ! k) > 0 \<Longrightarrow>
     (pending_transfer (us ! k) (gu_NewPendingID (us ! k)) (gauge_ledger (us ! k)),
      \<lparr>updateIdx = i + k, isVoid = False\<rparr>) \<in> set (gauge_plan i us)"
proof (induction us arbitrary: i k)
  case (Cons u us)
  show ?case
  proof (cases k)
    case 0
    then show ?thesis using Cons.prems by (simp add: gauge_events_def)
  next
    case (Suc n)
    then show ?thesis using Cons.IH [of n "Suc i"] Cons.prems by simp
  qed
qed simp

section \<open>Classification\<close>

definition gauge_known :: "meta \<Rightarrow> CreateTransferResult \<Rightarrow> bool" where
  "gauge_known m r \<longleftrightarrow> r = TransferExceedsCredits \<or> exists_result r \<or> pending_gone r \<and> isVoid m"

definition refused :: "meta list \<Rightarrow> CreateTransferResult event_results \<Rightarrow> nat \<Rightarrow> bool" where
  "refused metas rs j \<longleftrightarrow>
     (\<exists>(i, r) \<in> set rs. r = TransferExceedsCredits \<and> \<not> isVoid (metas ! i) \<and> updateIdx (metas ! i) = j)"

definition refuse :: "GaugePendingResult \<Rightarrow> GaugePendingResult" where
  "refuse x = x\<lparr>gr_Accepted := False, gr_ExceedsCredits := True\<rparr>"

lemma refuse_idem [simp]: "refuse (refuse x) = refuse x"
  by (simp add: refuse_def)

lemma refused_simps [simp]:
  "\<not> refused metas [] j"
  "refused metas ((i, r) # rs) j \<longleftrightarrow>
     r = TransferExceedsCredits \<and> \<not> isVoid (metas ! i) \<and> updateIdx (metas ! i) = j \<or> refused metas rs j"
  by (auto simp: refused_def)

lemma nth_update: "j < length xs \<Longrightarrow> xs[i := x] ! j = (if i = j then x else xs ! j)"
  by simp

lemma gauge_classify_Inr:
  assumes "gauge_classify metas rs results = Inr results'"
  shows "length results' = length results"
    and "\<forall>(i, r) \<in> set rs. i < length metas \<and> gauge_known (metas ! i) r"
    and "j < length results \<Longrightarrow>
      results' ! j = (if refused metas rs j then refuse (results ! j) else results ! j)"
proof -
  have "length results' = length results \<and>
    (\<forall>(i, r) \<in> set rs. i < length metas \<and> gauge_known (metas ! i) r) \<and>
    (\<forall>j < length results. results' ! j = (if refused metas rs j then refuse (results ! j) else results ! j))"
    using assms
  proof (induction metas rs results rule: gauge_classify.induct)
    case (1 metas results)
    then show ?case by simp
  next
    case (2 metas i r rs results)
    let ?m = "metas ! i"
    have i: "i < length metas" using "2.prems" by (auto split: if_splits)
    then have ni: "\<not> length metas \<le> i" by simp
    consider (x) "r = TransferExceedsCredits" | (e) "r \<noteq> TransferExceedsCredits" "exists_result r"
      | (g) "r \<noteq> TransferExceedsCredits" "\<not> exists_result r" "pending_gone r" "isVoid ?m"
      using "2.prems" i by (auto simp: Let_def split: if_splits)
    then show ?case
    proof cases
      case x
      let ?results = "if isVoid ?m then results else results[updateIdx ?m := refuse (results ! updateIdx ?m)]"
      have "gauge_classify metas rs ?results = Inr results'"
        using "2.prems" i x by (simp add: Let_def refuse_def split: if_splits)
      from "2.IH"(1) [OF ni refl x, folded refuse_def, OF this] show ?thesis
        using i x by (auto simp: gauge_known_def nth_update)
    next
      case e
      with "2.prems" i have "gauge_classify metas rs results = Inr results'" by (simp add: Let_def)
      with "2.IH"(2) [OF ni refl e] show ?thesis using e i by (auto simp: gauge_known_def)
    next
      case g
      with "2.prems" i have "gauge_classify metas rs results = Inr results'" by (simp add: Let_def)
      with "2.IH"(3) [OF ni refl g] show ?thesis using g i by (auto simp: gauge_known_def)
    qed
  qed
  then show "length results' = length results"
    "\<forall>(i, r) \<in> set rs. i < length metas \<and> gauge_known (metas ! i) r"
    "j < length results \<Longrightarrow>
      results' ! j = (if refused metas rs j then refuse (results ! j) else results ! j)"
    by blast+
qed

lemma assign_pending_ids_nth:
  assumes "j < length results"
  shows "assign_pending_ids ms newIDs results ! j =
    (if gr_Accepted (results ! j) \<and> (\<exists>m \<in> set ms. \<not> isVoid m \<and> updateIdx m = j)
     then (results ! j)\<lparr>gr_NewPendingID := newIDs ! j\<rparr> else results ! j)"
  using assms
proof (induction ms newIDs results rule: assign_pending_ids.induct)
  case (2 m ms newIDs results)
  then show ?case by (cases "updateIdx m = j") (auto simp: nth_update)
qed simp

lemma length_assign_pending_ids [simp]: "length (assign_pending_ids ms newIDs results) = length results"
  by (induction ms newIDs results rule: assign_pending_ids.induct) simp_all

text \<open>The call from the laws: the state the events lead to, and the results it returns.\<close>

definition gauge_batch :: "GaugePendingUpdate list \<Rightarrow> Transfer list" where
  "gauge_batch us = map fst (gauge_plan 0 us)"

lemma gauge_submit_Inr:
  assumes "tb_laws c v" "list_all gauge_given us" "SubmitGaugePendingUpdates c us s = (s', Inr rs)"
  obtains results where "s' = fst (run_events (commit v) 0 s (gauge_batch us))"
    "gauge_classify (map snd (gauge_plan 0 us)) (snd (run_events (commit v) 0 s (gauge_batch us)))
       (replicate (length us) assumed_accepted) = Inr results"
    "rs = assign_pending_ids (map snd (gauge_plan 0 us)) (map gu_NewPendingID us) results"
proof (cases "gauge_plan 0 us = []")
  case True
  then have "s' = s \<and> rs = replicate (length us) assumed_accepted"
    using assms(2,3) by (cases "us = []")
      (auto simp: SubmitGaugePendingUpdates_def new_pending_ids_given gauge_loop_given Let_def)
  with True show ?thesis by (intro that) (simp_all add: gauge_batch_def)
next
  case False
  then obtain e es where plan: "gauge_plan 0 us = e # es" by (cases "gauge_plan 0 us") auto
  then have "us \<noteq> []" by auto
  with plan obtain tbResults results where
    call: "CreateTransfers c s (gauge_batch us) = (s', Inr tbResults)"
    and cl: "gauge_classify (map snd (gauge_plan 0 us)) tbResults (replicate (length us) assumed_accepted) = Inr results"
    and rs: "rs = assign_pending_ids (map snd (gauge_plan 0 us)) (map gu_NewPendingID us) results"
    using assms(2,3)
    by (auto simp: SubmitGaugePendingUpdates_def new_pending_ids_given gauge_loop_given gauge_batch_def Let_def
        split: prod.splits sum.splits list.splits)
  from batch_okD [OF assms(1) call] cl rs show ?thesis by (intro that) simp_all
qed

text \<open>An update is refused exactly when the service answered \<open>exceeds_credits\<close> to its reservation.\<close>

lemma refused_outcome:
  "refused (map snd (gauge_plan 0 us)) (snd (run_events f 0 s (gauge_batch us))) k \<longleftrightarrow>
     (\<exists>i < length (gauge_plan 0 us). outcomes f s (gauge_batch us) ! i = TransferExceedsCredits \<and>
        \<not> isVoid (snd (gauge_plan 0 us ! i)) \<and> updateIdx (snd (gauge_plan 0 us ! i)) = k)"
proof -
  have len: "length (gauge_batch us) = length (gauge_plan 0 us)" by (simp add: gauge_batch_def)
  show ?thesis
    unfolding refused_def by (auto simp: run_events_results len Bex_def)
qed

lemma gauge_event_at:
  assumes "i < length (gauge_plan 0 us)" "updateIdx (snd (gauge_plan 0 us ! i)) = k"
  shows "k < length us" "gauge_plan 0 us ! i \<in> set (gauge_events k (us ! k))"
  using gauge_plan_meta [of "fst (gauge_plan 0 us ! i)" "snd (gauge_plan 0 us ! i)" 0 us] assms
  by auto

lemma pending_event_id:
  assumes "(t, m) \<in> set (gauge_events k u)" "\<not> isVoid m"
  shows "tr_ID t = gu_NewPendingID u" "gu_NewAmount u > 0" "updateIdx m = k"
  using assms by (auto simp: gauge_events_def pending_transfer_def split: option.splits if_splits)

lemma gauge_results:
  assumes "tb_laws c v" "list_all gauge_given us" "SubmitGaugePendingUpdates c us s = (s', Inr rs)"
    "k < length us"
  shows "length rs = length us"
    and "rs ! k =
      (if refused (map snd (gauge_plan 0 us)) (snd (run_events (commit v) 0 s (gauge_batch us))) k
       then refuse assumed_accepted
       else if gu_NewAmount (us ! k) > 0
       then assumed_accepted\<lparr>gr_NewPendingID := gu_NewPendingID (us ! k)\<rparr> else assumed_accepted)"
proof -
  let ?ms = "map snd (gauge_plan 0 us)" and ?tb = "snd (run_events (commit v) 0 s (gauge_batch us))"
  obtain results where cl: "gauge_classify ?ms ?tb (replicate (length us) assumed_accepted) = Inr results"
    and rs: "rs = assign_pending_ids ?ms (map gu_NewPendingID us) results"
    using assms(1-3) by (rule gauge_submit_Inr)
  note c = gauge_classify_Inr [OF cl]
  show "length rs = length us" using c(1) rs by simp
  have "(\<exists>m \<in> set ?ms. \<not> isVoid m \<and> updateIdx m = k) \<longleftrightarrow> gu_NewAmount (us ! k) > 0"
  proof
    assume "\<exists>m \<in> set ?ms. \<not> isVoid m \<and> updateIdx m = k"
    then obtain t m where "(t, m) \<in> set (gauge_plan 0 us)" "\<not> isVoid m" "updateIdx m = k" by auto
    with gauge_plan_meta(3) [of t m 0 us] show "gu_NewAmount (us ! k) > 0"
      using pending_event_id(2) by fastforce
  next
    assume "gu_NewAmount (us ! k) > 0"
    from gauge_plan_pending [OF assms(4) this, of 0] show "\<exists>m \<in> set ?ms. \<not> isVoid m \<and> updateIdx m = k"
      by force
  qed
  with c(1,3) assms(4) show "rs ! k = (if refused ?ms ?tb k then refuse assumed_accepted
      else if gu_NewAmount (us ! k) > 0
      then assumed_accepted\<lparr>gr_NewPendingID := gu_NewPendingID (us ! k)\<rparr> else assumed_accepted)"
    unfolding rs by (simp add: assign_pending_ids_nth refuse_def assumed_accepted_def)
qed

lemma gauge_known_outcomes:
  assumes "tb_laws c v" "list_all gauge_given us" "SubmitGaugePendingUpdates c us s = (s', Inr rs)"
    "i < length (gauge_plan 0 us)"
  shows "outcomes (commit v) s (gauge_batch us) ! i = TransferOK \<or>
    gauge_known (snd (gauge_plan 0 us ! i)) (outcomes (commit v) s (gauge_batch us) ! i)"
proof -
  let ?r = "outcomes (commit v) s (gauge_batch us) ! i"
  obtain results where cl: "gauge_classify (map snd (gauge_plan 0 us))
      (snd (run_events (commit v) 0 s (gauge_batch us))) (replicate (length us) assumed_accepted) = Inr results"
    using assms(1-3) by (rule gauge_submit_Inr)
  have "?r \<noteq> TransferOK \<Longrightarrow> (i, ?r) \<in> set (snd (run_events (commit v) 0 s (gauge_batch us)))"
    using assms(4) by (simp add: run_events_results gauge_batch_def)
  with gauge_classify_Inr(2) [OF cl] assms(4) show ?thesis by fastforce
qed

lemma gauge_loop_reach:
  "gauge_loop c i us s1 = (s2, r) \<Longrightarrow> tb_reach c s s1 \<Longrightarrow> tb_reach c s s2"
proof (induction c i us s1 arbitrary: r rule: gauge_loop.induct)
  case (2 c i u newID us s1)
  have "gauge_transfers c i u newID s1 = (s', x) \<Longrightarrow> tb_reach c s s'" for s' x
    using "2.prems"(2)
    by (auto simp: gauge_transfers_def split: prod.splits sum.splits option.splits if_splits
        dest: given_or_random_reach)
  with 2 show ?case by (auto split: prod.splits sum.splits)
qed simp

lemma new_pending_ids_reach:
  "new_pending_ids c us s1 = (s2, r) \<Longrightarrow> tb_reach c s s1 \<Longrightarrow> tb_reach c s s2"
  by (induction us arbitrary: s1 r) (auto split: prod.splits dest: given_or_random_reach)

interpretation gauge_call: ledger_call c "\<lambda>s. fst (SubmitGaugePendingUpdates c us s)" for c us
proof
  fix s
  obtain s1 newIDs where ids: "new_pending_ids c us s = (s1, newIDs)" by fastforce
  obtain s2 r where loop: "gauge_loop c 0 (zip us newIDs) s1 = (s2, r)" by fastforce
  note r2 = gauge_loop_reach [OF loop new_pending_ids_reach [OF ids reach_refl]]
  show "tb_reach c s (fst (SubmitGaugePendingUpdates c us s))"
    using ids loop r2 reach_refl [of c s]
    by (auto simp: SubmitGaugePendingUpdates_def Let_def split: prod.splits sum.splits list.splits
        dest: reach_callI(1))
qed

section \<open>One gauge update\<close>

text \<open>The reservation an update replaces: none, or a live one on the same accounts, of size \<open>n\<close>.\<close>

definition replaces :: "'tb tb_view \<Rightarrow> 'tb \<Rightarrow> GaugePendingUpdate \<Rightarrow> nat \<Rightarrow> bool" where
  "replaces v s u n \<longleftrightarrow>
     (case gu_OldPendingID u of
        None \<Rightarrow> n = 0
      | Some old \<Rightarrow> \<exists>p. committed v s old = Some p \<and> reservation p \<and> \<not> voided v s old \<and>
          DebitAccountID p = gu_TenantQuotaID u \<and> CreditAccountID p = gu_SinkID u \<and>
          tr_Ledger p = gauge_ledger u \<and> tr_Code p = CodeGaugeReservation \<and> n = unat (Amount p))"

text \<open>An identifier that may still be used: not the reserved \<open>2 ^ 128 - 1\<close>, not taken, not burnt.\<close>

definition unused :: "'tb tb_view \<Rightarrow> 'tb \<Rightarrow> bytes16 \<Rightarrow> bool" where
  "unused v s i \<longleftrightarrow> i \<noteq> - 1 \<and> committed v s i = None \<and> \<not> burnt v s i"

lemma void_step:
  assumes laws: "tb_laws c v" and b: "books v s" and g: "gauge_given u"
    and old: "gu_OldPendingID u = Some old" "replaces v s u n" and ne: "gu_TenantQuotaID u \<noteq> gu_SinkID u"
    and new: "unused v s (gu_VoidTransferID u)"
    and step: "commit v s (void_transfer u (gu_VoidTransferID u) old (gauge_ledger u)) = (s1, r)"
    and a: "acct v s (gu_TenantQuotaID u) = Some a"
  shows "r = TransferOK" "n \<le> unat (DebitsPending a)"
    "acct v s1 (gu_TenantQuotaID u) = Some (a\<lparr>DebitsPending := DebitsPending a - of_nat n\<rparr>)"
    "committed v s1 = (committed v s)(gu_VoidTransferID u \<mapsto> void_transfer u (gu_VoidTransferID u) old (gauge_ledger u))"
proof -
  let ?t = "void_transfer u (gu_VoidTransferID u) old (gauge_ledger u)"
  obtain p where p: "committed v s old = Some p" "reservation p" "\<not> voided v s old"
    "DebitAccountID p = gu_TenantQuotaID u" "CreditAccountID p = gu_SinkID u"
    "tr_Ledger p = gauge_ledger u" "tr_Code p = CodeGaugeReservation" "n = unat (Amount p)"
    using old by (auto simp: replaces_def)
  have "unat (Amount p) \<le> reserved_debits v s (gu_TenantQuotaID u)"
    unfolding reserved_debits_def
    by (rule order_trans [OF _ total_member [where m = "committed v s", OF p(1)]]) (simp add: p)
  then show n: "n \<le> unat (DebitsPending a)"
    using b a p(8) by (simp add: books_def account_books_def)
  have t: "tr_ID ?t = gu_VoidTransferID u" "PendingID ?t = old" "VoidPendingTransfer (tr_Flags ?t)"
    by (simp_all add: void_transfer_def)
  have "voidable v s ?t p"
    using p g new n a ne old(1)
    by (auto simp: voidable_def valid_id_def void_transfer_def unused_def reservation_def gauge_given_def ToUint128_def)
  then have "snd (commit v s ?t) = TransferOK"
    using tb_lawsD(7) [OF laws] unfolding acceptance_law_def by blast
  with step show ok: "r = TransferOK" by simp
  from laws step have "acct v s1 = release_effect p (acct v s) \<and>
      committed v s1 = (committed v s)(gu_VoidTransferID u \<mapsto> ?t)"
    by (cases rule: commit_cases) (use ok t p(1) in auto)
  with a p(4,5,8) ne show "acct v s1 (gu_TenantQuotaID u) = Some (a\<lparr>DebitsPending := DebitsPending a - of_nat n\<rparr>)"
    "committed v s1 = (committed v s)(gu_VoidTransferID u \<mapsto> ?t)"
    by (simp_all add: effect_apply)
qed

lemma pending_step:
  assumes laws: "tb_laws c v" and pos: "gu_NewAmount u > 0"
    and step: "commit v s (pending_transfer u (gu_NewPendingID u) l) = (s1, r)"
    and new: "committed v s (gu_NewPendingID u) = None"
    and a: "acct v s (gu_TenantQuotaID u) = Some a"
  shows "\<exists>b. acct v s1 (gu_TenantQuotaID u) = Some b \<and> DebitsPosted b = DebitsPosted a \<and>
    unat (DebitsPending b) =
      unat (DebitsPending a) + (if r = TransferOK then unat (gu_NewAmount u) else 0)"
    "\<not> exists_result r"
proof -
  let ?t = "pending_transfer u (gu_NewPendingID u) l"
  have t: "tr_ID ?t = gu_NewPendingID u" "DebitAccountID ?t = gu_TenantQuotaID u"
    "Pending (tr_Flags ?t)" "\<not> VoidPendingTransfer (tr_Flags ?t)" "Amount ?t = ToUint128 (gu_NewAmount u)"
    by (simp_all add: pending_transfer_def)
  from laws step show "\<exists>b. acct v s1 (gu_TenantQuotaID u) = Some b \<and> DebitsPosted b = DebitsPosted a \<and>
    unat (DebitsPending b) =
      unat (DebitsPending a) + (if r = TransferOK then unat (gu_NewAmount u) else 0)"
  proof (cases rule: commit_cases)
    case (moved d e)
    then have "d = a" using a t(2) by simp
    with moved a t unat_balance_add(2) [OF moved(6)] show ?thesis by (simp add: effect_apply)
  qed (use a t in simp_all)
  show "\<not> exists_result r"
    using commit_exists_in_use [OF laws step] new t(1) by auto
qed

text \<open>The first event of an update: the void, if there is something to void.\<close>

lemma gauge_events_run:
  assumes laws: "tb_laws c v" and b: "books v s" and g: "gauge_given u" and rep: "replaces v s u n"
    and ne: "gu_TenantQuotaID u \<noteq> gu_SinkID u"
    and new: "unused v s (gu_VoidTransferID u)" "unused v s (gu_NewPendingID u)"
      "gu_VoidTransferID u \<noteq> gu_NewPendingID u"
    and a: "acct v s (gu_TenantQuotaID u) = Some a"
  shows "\<exists>a' r. acct v (fst (run_events (commit v) 0 s (gauge_batch [u]))) (gu_TenantQuotaID u) = Some a' \<and>
    DebitsPosted a' = DebitsPosted a \<and>
    unat (DebitsPending a') + n = unat (DebitsPending a) + (if r = TransferOK then unat (gu_NewAmount u) else 0) \<and>
    \<not> exists_result r \<and> (gu_NewAmount u = 0 \<longrightarrow> r = TransferOK) \<and>
    (r = TransferExceedsCredits \<longleftrightarrow>
       refused (map snd (gauge_plan 0 [u])) (snd (run_events (commit v) 0 s (gauge_batch [u]))) 0) \<and>
    last (TransferOK # outcomes (commit v) s (gauge_batch [u])) = r"
proof -
  let ?p = "pending_transfer u (gu_NewPendingID u) (gauge_ledger u)"
  show ?thesis
  proof (cases "gu_OldPendingID u")
    case None
    then have n: "n = 0" using rep by (simp add: replaces_def)
    obtain s1 r where step: "commit v s ?p = (s1, r)" by fastforce
    have "committed v s (gu_NewPendingID u) = None" using new(2) by (simp add: unused_def)
    note ps = pending_step [OF laws _ step this a]
    show ?thesis
    proof (cases "gu_NewAmount u > 0")
      case True
      with None step ps n show ?thesis by (auto simp: gauge_batch_def gauge_events_def)
    next
      case False
      then have "gu_NewAmount u = 0" by (simp add: word_gt_0)
      with None n a show ?thesis by (auto simp: gauge_batch_def gauge_events_def)
    qed
  next
    case (Some old)
    let ?v = "void_transfer u (gu_VoidTransferID u) old (gauge_ledger u)"
    obtain s1 r where step: "commit v s ?v = (s1, r)" by fastforce
    note vs = void_step [OF laws b g Some rep ne new(1) step a]
    let ?a1 = "a\<lparr>DebitsPending := DebitsPending a - of_nat n\<rparr>"
    have "unat (DebitsPending a) < 2 ^ LENGTH(128)" by (rule unsigned_less)
    with vs(2) have n: "n < 2 ^ 128" by simp
    then have "unat (of_nat n :: bytes16) = n" by (simp add: unsigned_of_nat take_bit_nat_eq_self)
    then have pend: "unat (DebitsPending ?a1) + n = unat (DebitsPending a)"
      using unat_sub_exact [of "of_nat n" "DebitsPending a"] vs(2) by simp
    have "committed v s1 (gu_NewPendingID u) = None" using vs(4) new(2,3) by (simp add: unused_def)
    note ps = pending_step [OF laws _ prod.collapse [symmetric] this vs(3)]
    show ?thesis
    proof (cases "gu_NewAmount u > 0")
      case True
      from ps(1) [OF True, of "gauge_ledger u"] obtain a2 where "acct v (fst (commit v s1 ?p)) (gu_TenantQuotaID u) = Some a2"
        "DebitsPosted a2 = DebitsPosted a"
        "unat (DebitsPending a2) + n = unat (DebitsPending a) +
          (if snd (commit v s1 ?p) = TransferOK then unat (gu_NewAmount u) else 0)"
        using pend by auto
      with True Some step vs(1) ps(2) [OF True, of "gauge_ledger u"] show ?thesis
        by (auto simp: gauge_batch_def gauge_events_def split_beta)
    next
      case False
      then have "gu_NewAmount u = 0" by (simp add: word_gt_0)
      with Some step vs(1,3) pend show ?thesis by (auto simp: gauge_batch_def gauge_events_def)
    qed
  qed
qed

section \<open>A small ledger for the examples\<close>

text \<open>The global accounts, one tenant with 100 units of CPU and 10 nodes allocated, all by the code's own operations.\<close>

definition demo_credit :: "ResourceType \<Rightarrow> bytes16 \<Rightarrow> bytes16 \<Rightarrow> uint64 \<Rightarrow> bytes16 \<Rightarrow> AllocationTransfer" where
  "demo_credit r operator quota n i = \<lparr>at_Resource = r, at_OperatorID = operator, at_TenantQuotaID = quota,
     at_Amount = n, at_Code = CodeQuotaAllocation, at_TenantUUID = 5, at_PeriodStartNs = 0, at_TransferID = i\<rparr>"

definition demo_books :: ref_tb where
  "demo_books = fst (SubmitAllocations ref_client
     [demo_credit ResourceCPUHours 1000 1006 100 601, demo_credit ResourceActiveNodes 1004 1008 10 602]
     (fst (CreateTenantQuotaAccounts ref_client 5 []
       (fst (CreateGlobalAccounts ref_client [] empty_ref)))))"

definition demo_recorded :: "AllocationTransfer \<Rightarrow> bytes16 \<times> id_status" where
  "demo_recorded a = (at_TransferID a, Committed (projr (allocation_transfer a (at_TransferID a))) False)"

lemma demo_books_eval [code]:
  "demo_books = \<lparr>ref_accounts =
     [(1000, (new_account 1000 1 1 no_account_flags 0)\<lparr>DebitsPosted := 100\<rparr>),
      (1001, new_account 1001 1 3 no_account_flags 0),
      (1002, new_account 1002 2 1 no_account_flags 0),
      (1003, new_account 1003 2 3 no_account_flags 0),
      (1004, (new_account 1004 3 1 no_account_flags 0)\<lparr>DebitsPosted := 10\<rparr>),
      (1005, new_account 1005 3 3 no_account_flags 0),
      (1006, (new_account 1006 1 2 quota_flags 5)\<lparr>CreditsPosted := 100\<rparr>),
      (1007, new_account 1007 2 2 quota_flags 5),
      (1008, (new_account 1008 3 2 quota_flags 5)\<lparr>CreditsPosted := 10\<rparr>)],
     ref_ids = [demo_recorded (demo_credit ResourceCPUHours 1000 1006 100 601),
                demo_recorded (demo_credit ResourceActiveNodes 1004 1008 10 602)],
     ref_next = 1009\<rparr>"
  by code_simp

definition demo_gauge :: "bytes16 option \<Rightarrow> uint64 \<Rightarrow> bytes16 \<Rightarrow> GaugePendingUpdate" where
  "demo_gauge old n i = \<lparr>gu_Resource = ResourceActiveNodes, gu_TenantQuotaID = 1008, gu_SinkID = 1005,
     gu_OldPendingID = old, gu_NewAmount = n, gu_ClusterUUID = 7, gu_HeartbeatTsNs = 0,
     gu_NewPendingID = i, gu_VoidTransferID = i + 1\<rparr>"

definition demo_reserved :: ref_tb where
  "demo_reserved = fst (SubmitGaugePendingUpdates ref_client [demo_gauge None 3 701] demo_books)"

lemma demo_reserved_eval [code]:
  "demo_reserved = \<lparr>ref_accounts =
     [(1000, (new_account 1000 1 1 no_account_flags 0)\<lparr>DebitsPosted := 100\<rparr>),
      (1001, new_account 1001 1 3 no_account_flags 0),
      (1002, new_account 1002 2 1 no_account_flags 0),
      (1003, new_account 1003 2 3 no_account_flags 0),
      (1004, (new_account 1004 3 1 no_account_flags 0)\<lparr>DebitsPosted := 10\<rparr>),
      (1005, (new_account 1005 3 3 no_account_flags 0)\<lparr>CreditsPending := 3\<rparr>),
      (1006, (new_account 1006 1 2 quota_flags 5)\<lparr>CreditsPosted := 100\<rparr>),
      (1007, new_account 1007 2 2 quota_flags 5),
      (1008, (new_account 1008 3 2 quota_flags 5)\<lparr>DebitsPending := 3, CreditsPosted := 10\<rparr>)],
     ref_ids = [demo_recorded (demo_credit ResourceCPUHours 1000 1006 100 601),
                demo_recorded (demo_credit ResourceActiveNodes 1004 1008 10 602),
                (701, Committed (pending_transfer (demo_gauge None 3 701) 701 3) False)],
     ref_next = 1009\<rparr>"
  by code_simp

lemma demo_books_reach: "tb_reach ref_client empty_ref demo_books" "tb_reach ref_client empty_ref demo_reserved"
  unfolding demo_reserved_def demo_books_def
  by (intro gauge_call.reach_from allocation_call.reach_from tenant_accounts_call.reach_from
      global_accounts_call.reach)+

lemma empty_ref_ledger: "empty_ledger ref_view empty_ref"
  by (simp add: empty_ledger_def empty_ref_def ref_acct_def ref_committed_def ref_voided_def ref_burnt_def)

lemma demo_reserved_books: "books ref_view demo_reserved"
  by (rule books_kept.reach_keeps [OF demo_books_reach(2) ref_laws empty_books [OF empty_ref_ledger]])

lemma demo_gauge_call:
  "case SubmitGaugePendingUpdates ref_client [demo_gauge (Some 701) 5 801] demo_reserved of
     (s', Inl e) \<Rightarrow> False
   | (s', Inr rs) \<Rightarrow> length rs = 1 \<and>
       list_all (\<lambda>r. r = TransferOK) (outcomes ref_commit demo_reserved (gauge_batch [demo_gauge (Some 701) 5 801]))"
  by code_simp

lemma demo_gauge_run:
  obtains s' r where
    "SubmitGaugePendingUpdates ref_client [demo_gauge (Some 701) 5 801] demo_reserved = (s', Inr [r])"
  using demo_gauge_call by (auto simp: length_Suc_conv split: prod.splits sum.splits)

lemma demo_gauge_given: "gauge_given (demo_gauge (Some 701) 5 801)"
  by (simp add: gauge_given_def demo_gauge_def AllResources_def)

section \<open>Properties\<close>

text \<open>
  Gauge results are faithful: with deterministic identifiers, \<open>SubmitGaugePendingUpdates\<close>
  returns one result per update; an accepted update that reserves something carries the
  identifier of its reservation, which is committed; one that reserves nothing and a refused
  one carry the zero identifier, and a refused one's identifier is burnt.
\<close>

lemma gauge_results_faithful:
  assumes "tb_laws c v" "list_all gauge_given us" "SubmitGaugePendingUpdates c us s = (s', Inr rs)"
    "k < length us"
  shows "length rs = length us \<and> (gr_Accepted (rs ! k) \<longleftrightarrow> \<not> gr_ExceedsCredits (rs ! k)) \<and>
    gr_NewPendingID (rs ! k) =
      (if gr_Accepted (rs ! k) \<and> gu_NewAmount (us ! k) > 0 then gu_NewPendingID (us ! k) else 0) \<and>
    (gr_Accepted (rs ! k) \<and> gu_NewAmount (us ! k) > 0 \<longrightarrow>
       committed v s' (gu_NewPendingID (us ! k)) \<noteq> None) \<and>
    (gr_ExceedsCredits (rs ! k) \<longrightarrow> burnt v s' (gu_NewPendingID (us ! k)))"
proof -
  let ?p = "gauge_plan 0 us" and ?o = "outcomes (commit v) s (gauge_batch us)"
  let ?ref = "refused (map snd ?p) (snd (run_events (commit v) 0 s (gauge_batch us))) k"
  have s': "s' = fst (run_events (commit v) 0 s (gauge_batch us))"
    using assms(1-3) by (rule gauge_submit_Inr)
  note r = gauge_results [OF assms]
  have len: "length (gauge_batch us) = length ?p" by (simp add: gauge_batch_def)
  have tid: "tr_ID (gauge_batch us ! i) = gu_NewPendingID (us ! k)"
    if "i < length ?p" "updateIdx (snd (?p ! i)) = k" "\<not> isVoid (snd (?p ! i))" for i
    using gauge_event_at(2) [OF that(1,2)] that pending_event_id(1) [of "fst (?p ! i)" "snd (?p ! i)"]
    by (simp add: gauge_batch_def)
  have burnt: "burnt v s' (gu_NewPendingID (us ! k))" if ref: ?ref
  proof -
    obtain i where i: "i < length ?p" "?o ! i = TransferExceedsCredits" "\<not> isVoid (snd (?p ! i))"
      "updateIdx (snd (?p ! i)) = k"
      using ref by (auto simp: refused_outcome)
    from batch_burns [OF assms(1), of i "gauge_batch us" s 0] i len s' tid [OF i(1,4,3)] show ?thesis by simp
  qed
  have com: "committed v s' (gu_NewPendingID (us ! k)) \<noteq> None"
    if nref: "\<not> ?ref" and pos: "gu_NewAmount (us ! k) > 0"
  proof -
    obtain i where i: "i < length ?p" "snd (?p ! i) = \<lparr>updateIdx = k, isVoid = False\<rparr>"
      using gauge_plan_pending [OF assms(4) pos, of 0] by (auto simp: in_set_conv_nth)
    with nref have "?o ! i \<noteq> TransferExceedsCredits" by (auto simp: refused_outcome)
    with gauge_known_outcomes [OF assms(1-3) i(1)] i(2) have "?o ! i = TransferOK \<or> exists_result (?o ! i)"
      by (auto simp: gauge_known_def)
    then show ?thesis
      using batch_settles [OF assms(1), of i "gauge_batch us" s 0]
        batch_exists_in_use [OF assms(1), of i "gauge_batch us" s 0] i len s' tid [OF i(1)] by auto
  qed
  show ?thesis
    using r burnt com by (auto simp: refuse_def assumed_accepted_def)
qed

lemma gauge_results_faithful_witness:
  "\<exists>s' r. SubmitGaugePendingUpdates ref_client [demo_gauge (Some 701) 5 801] demo_reserved = (s', Inr [r]) \<and>
     (gr_Accepted r \<longleftrightarrow> \<not> gr_ExceedsCredits r) \<and> gr_NewPendingID r = (if gr_Accepted r then 801 else 0)"
proof -
  obtain s' r where call:
    "SubmitGaugePendingUpdates ref_client [demo_gauge (Some 701) 5 801] demo_reserved = (s', Inr [r])"
    by (rule demo_gauge_run)
  have g: "list_all gauge_given [demo_gauge (Some 701) 5 801]" using demo_gauge_given by simp
  from gauge_results_faithful [OF ref_laws g call, of 0] call show ?thesis by (simp add: demo_gauge_def)
qed

text \<open>
  C18. A gauge update replaces the cluster's reservation: if the update names the live
  reservation of the wallet (or none), and its two identifiers are unused, then after the call
  the wallet's pending debits are what they were, minus the old reservation, plus the new
  amount exactly when the update is accepted; posted debits do not move.  In particular a
  refused update still gives the old reservation up.
\<close>

theorem gauge_replaces_reservation:
  assumes "tb_laws c v" "books v s" "gauge_given u" "replaces v s u n"
    "gu_TenantQuotaID u \<noteq> gu_SinkID u"
    "unused v s (gu_VoidTransferID u)" "unused v s (gu_NewPendingID u)"
    "gu_VoidTransferID u \<noteq> gu_NewPendingID u"
    "acct v s (gu_TenantQuotaID u) = Some a" "SubmitGaugePendingUpdates c [u] s = (s', Inr [r])"
  shows "\<exists>b. acct v s' (gu_TenantQuotaID u) = Some b \<and> DebitsPosted b = DebitsPosted a \<and>
    unat (DebitsPending b) + n =
      unat (DebitsPending a) + (if gr_Accepted r then unat (gu_NewAmount u) else 0)"
proof -
  let ?ref = "refused (map snd (gauge_plan 0 [u])) (snd (run_events (commit v) 0 s (gauge_batch [u]))) 0"
  have g: "list_all gauge_given [u]" using assms(3) by simp
  have s': "s' = fst (run_events (commit v) 0 s (gauge_batch [u]))"
    using assms(1) g assms(10) by (rule gauge_submit_Inr)
  obtain b o' where b: "acct v s' (gu_TenantQuotaID u) = Some b" "DebitsPosted b = DebitsPosted a"
    "unat (DebitsPending b) + n = unat (DebitsPending a) + (if o' = TransferOK then unat (gu_NewAmount u) else 0)"
    "\<not> exists_result o'" "gu_NewAmount u = 0 \<longrightarrow> o' = TransferOK" "o' = TransferExceedsCredits \<longleftrightarrow> ?ref"
    "last (TransferOK # outcomes (commit v) s (gauge_batch [u])) = o'"
    using gauge_events_run [OF assms(1-9)] s' by blast
  have "gr_Accepted r \<longleftrightarrow> \<not> ?ref"
    using gauge_results(2) [OF assms(1) g assms(10), of 0] by (auto simp: refuse_def assumed_accepted_def)
  moreover have "o' = TransferOK \<or> o' = TransferExceedsCredits"
  proof (cases "gu_NewAmount u > 0")
    case True
    let ?i = "length (gauge_plan 0 [u]) - 1"
    have i: "?i < length (gauge_plan 0 [u])" "snd (gauge_plan 0 [u] ! ?i) = \<lparr>updateIdx = 0, isVoid = False\<rparr>"
      "outcomes (commit v) s (gauge_batch [u]) ! ?i = o'"
      using True b(7) by (auto simp: gauge_events_def gauge_batch_def split: option.splits)
    from gauge_known_outcomes [OF assms(1) g assms(10) i(1)] i(2,3) b(4) show ?thesis
      by (auto simp: gauge_known_def)
  next
    case False
    then show ?thesis using b(5) by (simp add: word_gt_0)
  qed
  ultimately show ?thesis using b(1,2,3,6) by auto
qed

theorem gauge_replaces_reservation_witness:
  "\<exists>s' r a b. SubmitGaugePendingUpdates ref_client [demo_gauge (Some 701) 5 801] demo_reserved = (s', Inr [r]) \<and>
     ref_acct demo_reserved 1008 = Some a \<and> ref_acct s' 1008 = Some b \<and>
     unat (DebitsPending b) + 3 = unat (DebitsPending a) + (if gr_Accepted r then 5 else 0)"
proof -
  let ?u = "demo_gauge (Some 701) 5 801"
  obtain s' r where call: "SubmitGaugePendingUpdates ref_client [?u] demo_reserved = (s', Inr [r])"
    by (rule demo_gauge_run)
  have rep: "replaces ref_view demo_reserved ?u 3"
    by (simp add: replaces_def demo_gauge_def ref_committed_def ref_voided_def demo_reserved_eval
        demo_recorded_def demo_credit_def reservation_def pending_transfer_def gauge_ledger_def LedgerID_def
        CodeGaugeReservation_def resource_names)
  have ids: "unused ref_view demo_reserved (gu_VoidTransferID ?u)"
    "unused ref_view demo_reserved (gu_NewPendingID ?u)"
    by (simp_all add: unused_def ref_committed_def ref_burnt_def demo_reserved_eval demo_recorded_def
        demo_credit_def demo_gauge_def)
  have ne: "gu_TenantQuotaID ?u \<noteq> gu_SinkID ?u" "gu_VoidTransferID ?u \<noteq> gu_NewPendingID ?u"
    by (simp_all add: demo_gauge_def)
  have "ref_acct demo_reserved (gu_TenantQuotaID ?u) \<noteq> None"
    by (simp add: ref_acct_def demo_reserved_eval demo_gauge_def)
  then obtain a where a: "acct ref_view demo_reserved (gu_TenantQuotaID ?u) = Some a" by auto
  from gauge_replaces_reservation [OF ref_laws demo_reserved_books demo_gauge_given rep ne(1) ids ne(2) a call]
    a call show ?thesis by (auto simp: demo_gauge_def)
qed

lemma gauge_classify_recorded:
  "\<forall>(i, r) \<in> set rs. i < length metas \<and> r = TransferExists \<Longrightarrow> gauge_classify metas rs results = Inr results"
  by (induction metas rs results rule: gauge_classify.induct) (auto simp: Let_def exists_result_def)

text \<open>A gauge batch whose events are all accepted or recorded, once the client call is answered.\<close>

lemma gauge_settled:
  assumes "tb_laws c v" "list_all gauge_given us"
    "\<forall>r \<in> set (outcomes (commit v) s (gauge_batch us)). r = TransferOK \<or> r = TransferExists"
    "gauge_batch us = [] \<or> \<not> isl (snd (CreateTransfers c s (gauge_batch us)))"
  shows "SubmitGaugePendingUpdates c us s =
    (fst (run_events (commit v) 0 s (gauge_batch us)),
     Inr (assign_pending_ids (map snd (gauge_plan 0 us)) (map gu_NewPendingID us)
       (replicate (length us) assumed_accepted)))"
proof (cases "gauge_plan 0 us = []")
  case True
  then show ?thesis using assms(2)
    by (cases "us = []")
       (auto simp: SubmitGaugePendingUpdates_def new_pending_ids_given gauge_loop_given gauge_batch_def Let_def)
next
  case False
  then obtain e es where plan: "gauge_plan 0 us = e # es" by (cases "gauge_plan 0 us") auto
  then have ne: "us \<noteq> []" "gauge_batch us \<noteq> []" by (auto simp: gauge_batch_def)
  with assms(4) obtain s' tr where call: "CreateTransfers c s (gauge_batch us) = (s', Inr tr)"
    by (cases "CreateTransfers c s (gauge_batch us)") (auto simp: isl_def, metis sum.exhaust)
  note run = batch_okD [OF assms(1) call]
  have "i < length (gauge_plan 0 us) \<and> r = TransferExists" if "(i, r) \<in> set tr" for i r
  proof -
    have "i < length (gauge_batch us)" "r \<noteq> TransferOK" "outcomes (commit v) s (gauge_batch us) ! i = r"
      using that run run_events_results [of i r "commit v" 0 s "gauge_batch us"] by simp_all
    with assms(3) show ?thesis by (auto simp: gauge_batch_def)
  qed
  then have "gauge_classify (map snd (gauge_plan 0 us)) tr (replicate (length us) assumed_accepted) =
      Inr (replicate (length us) assumed_accepted)"
    by (intro gauge_classify_recorded) auto
  with call run ne plan show ?thesis
    by (simp add: SubmitGaugePendingUpdates_def new_pending_ids_given [OF assms(2)] gauge_loop_given [OF assms(2)]
        gauge_batch_def Let_def)
qed

lemma gauge_failed_state:
  assumes "tb_laws c v" "list_all gauge_given us"
  shows "fst (SubmitGaugePendingUpdates c us s) \<in> {s, fst (run_events (commit v) 0 s (gauge_batch us))}"
  using assms(2) batch_okD [OF assms(1), of s "gauge_batch us"] batch_errD [OF assms(1), of s "gauge_batch us"]
  by (auto simp: SubmitGaugePendingUpdates_def new_pending_ids_given gauge_loop_given gauge_batch_def Let_def
      split: prod.splits sum.splits list.splits)

text \<open>
  C19. Gauge updates may be retried: if every event of a gauge batch was committed (now or
  before), then submitting the same updates against any later state of the ledger leaves that
  state exactly as it is, and if the client call is answered (or there is nothing to submit) it
  succeeds and returns the same results.
\<close>

theorem gauge_resubmission:
  assumes "tb_laws c v" "list_all gauge_given us" "SubmitGaugePendingUpdates c us s = (s1, Inr rs)"
    "\<forall>r \<in> set (outcomes (commit v) s (gauge_batch us)). r = TransferOK \<or> r = TransferExists"
    "tb_reach c s1 s2"
  shows "fst (SubmitGaugePendingUpdates c us s2) = s2 \<and>
    (gauge_batch us = [] \<or> \<not> isl (snd (CreateTransfers c s2 (gauge_batch us))) \<longrightarrow>
       SubmitGaugePendingUpdates c us s2 = (s2, Inr rs))"
proof -
  have s1: "s1 = fst (run_events (commit v) 0 s (gauge_batch us))"
    using assms(1-3) by (rule gauge_submit_Inr)
  have "committed v s1 (tr_ID t) = Some t" if t: "t \<in> set (gauge_batch us)" for t
  proof -
    obtain k where k: "k < length (gauge_batch us)" "t = gauge_batch us ! k"
      using t by (auto simp: in_set_conv_nth)
    have "outcomes (commit v) s (gauge_batch us) ! k \<in> set (outcomes (commit v) s (gauge_batch us))"
      using k(1) by simp
    with assms(4) batch_settles [OF assms(1) k(1), of s 0] show ?thesis unfolding s1 k(2) by blast
  qed
  then have "\<forall>t \<in> set (gauge_batch us). committed v s2 (tr_ID t) = Some t"
    by (auto intro: transfer_kept.reach_keeps [OF assms(5,1)])
  note again = batch_recorded [OF assms(1) this]
  have "gauge_batch us = [] \<or> \<not> isl (snd (CreateTransfers c s (gauge_batch us)))"
    using assms(2,3)
    by (auto simp: SubmitGaugePendingUpdates_def new_pending_ids_given gauge_loop_given gauge_batch_def Let_def
        split: if_splits prod.splits sum.splits list.splits)
  from gauge_settled [OF assms(1,2,4) this] assms(3)
  have rs: "rs = assign_pending_ids (map snd (gauge_plan 0 us)) (map gu_NewPendingID us)
      (replicate (length us) assumed_accepted)" by simp
  show ?thesis
    using gauge_failed_state [OF assms(1,2), of s2] gauge_settled [OF assms(1,2), of s2] again rs by auto
qed

theorem gauge_resubmission_witness:
  "\<exists>s1 r. SubmitGaugePendingUpdates ref_client [demo_gauge (Some 701) 5 801] demo_reserved = (s1, Inr [r]) \<and>
     SubmitGaugePendingUpdates ref_client [demo_gauge (Some 701) 5 801] s1 = (s1, Inr [r])"
proof -
  obtain s1 r where call:
    "SubmitGaugePendingUpdates ref_client [demo_gauge (Some 701) 5 801] demo_reserved = (s1, Inr [r])"
    by (rule demo_gauge_run)
  have g: "list_all gauge_given [demo_gauge (Some 701) 5 801]" using demo_gauge_given by simp
  have "\<forall>r \<in> set (outcomes (commit ref_view) demo_reserved (gauge_batch [demo_gauge (Some 701) 5 801])).
      r = TransferOK \<or> r = TransferExists"
    using demo_gauge_call by (auto simp: list_all_iff split: prod.splits sum.splits)
  from gauge_resubmission [OF ref_laws g call this reach_refl] call
    ref_answers [of s1 "gauge_batch [demo_gauge (Some 701) 5 801]"] show ?thesis by auto
qed

end
