(* ===== verification/TB_Activities.thy ===== *)
theory TB_Activities
  imports Ledger_Gauge
begin

text \<open>
  \<open>internal/accounting/signals.go\<close> and \<open>internal/accounting/activities_tb.go\<close>: the signals of
  the accounting workflow and the TigerBeetle-facing activities.  An activity is one attempt:
  it takes the service state and returns the new state with its result.  Go ranges over a map
  in an unspecified order; where the code builds a map and ranges over it, the order is the
  parameter \<open>iter\<close>, a function that rearranges the map's entries.
\<close>

section \<open>Signals\<close>

record HeartbeatSignal =
  ClusterID :: string
  ClusterUUID :: bytes16
  SequenceNumber :: uint64
  CPUMillisecondsDelta :: int64
  MemoryMBSecondsDelta :: int64
  ActiveNodes :: int32
  HeartbeatTimestampNs :: int64

record QuotaAdjustmentSignal =
  adj_ResourceType :: string
  adj_Amount :: int64
  adj_Reason :: string
  adj_Code :: uint16

record RegisterClusterSignal =
  reg_ClusterID :: string

section \<open>Inputs and results\<close>

type_synonym id_map = "(string, bytes16) gomap"
type_synonym nested_ids = "(string, id_map) gomap"

record TBAccountMap =
  OperatorIDs :: id_map
  TenantQuotaIDs :: id_map
  SinkIDs :: id_map

record TBBatchInput =
  bi_TenantID :: string
  bi_TenantUUID :: bytes16
  bi_AccountMap :: TBAccountMap
  bi_Heartbeats :: "HeartbeatSignal list"
  bi_GlobalOperatorIDs :: id_map
  bi_GlobalSinkIDs :: id_map
  bi_PendingGaugeIDs :: nested_ids
  bi_NewGaugePendingIDs :: nested_ids
  bi_GaugeVoidIDs :: nested_ids

record ResourceBatchResult =
  rb_Accepted :: bool
  rb_ExceedsCredits :: bool
  rb_Exists :: bool

record TBBatchResult =
  PerResource :: "(string, ResourceBatchResult) gomap"
  GaugeUpdates :: nested_ids

record SubmitAllocationInput =
  ai_TenantUUID :: bytes16
  ai_TenantQuotaIDs :: id_map
  ai_GlobalOperatorIDs :: id_map
  ai_Credits :: "(string, int64) gomap"
  ai_PeriodStartNs :: int64
  ai_TransferIDs :: id_map

record QuotaSnapshotData =
  CreditsTotal :: int64
  qs_DebitsPosted :: int64
  qs_DebitsPending :: int64

text \<open>A lookup in a map of maps; a missing outer or inner key is not found.\<close>

definition lookup2 :: "('k, ('l, 'v) gomap) gomap \<Rightarrow> 'k \<Rightarrow> 'l \<Rightarrow> 'v option" where
  "lookup2 m k l = (case map_of m k of None \<Rightarrow> None | Some m' \<Rightarrow> map_of m' l)"

text \<open>\<open>if m[k] == nil { m[k] = make(...) }; m[k][l] = v\<close>\<close>

definition update2 :: "'k \<Rightarrow> 'l \<Rightarrow> 'v \<Rightarrow> ('k, ('l, 'v) gomap) gomap \<Rightarrow> ('k, ('l, 'v) gomap) gomap" where
  "update2 k l v m =
     AList.update k (AList.update l v (case map_of m k of None \<Rightarrow> [] | Some m' \<Rightarrow> m')) m"

section \<open>SubmitTBBatch\<close>

definition heartbeatAmount :: "HeartbeatSignal \<Rightarrow> ResourceType \<Rightarrow> int64" where
  "heartbeatAmount hb r =
     (if r = ResourceCPUHours then CPUMillisecondsDelta hb
      else if r = ResourceMemoryGBHours then MemoryMBSecondsDelta hb
      else if r = ResourceActiveNodes then scast (ActiveNodes hb)
      else 0)"

text \<open>The usage transfer of one heartbeat for one resource, or none (\<open>continue\<close>).\<close>

definition usage_of_heartbeat ::
    "hash \<Rightarrow> TBBatchInput \<Rightarrow> HeartbeatSignal \<Rightarrow> ResourceType \<Rightarrow> UsageTransfer option result" where
  "usage_of_heartbeat H input hb r =
     (if IsGauge r then Inr None
      else
        (let amount = heartbeatAmount hb r in
         if amount = 0 then Inr None
         else
           (case map_of (bi_GlobalOperatorIDs input) r of
              None \<Rightarrow> Inr None
            | Some operatorBytes \<Rightarrow>
              (case map_of (TenantQuotaIDs (bi_AccountMap input)) r of
                 None \<Rightarrow> Inr None
               | Some quotaBytes \<Rightarrow>
                 (case map_of (bi_GlobalSinkIDs input) r of
                    None \<Rightarrow> Inr None
                  | Some sinkBytes \<Rightarrow>
                    (case LedgerID r of
                       Inl e \<Rightarrow> Inl e
                     | Inr l \<Rightarrow> Inr (Some
                         \<lparr>ut_Resource = r, ut_OperatorID = UUIDToUint128 operatorBytes,
                          ut_TenantQuotaID = UUIDToUint128 quotaBytes,
                          ut_SinkID = UUIDToUint128 sinkBytes, ut_Amount = amount,
                          ut_TransferID = DeriveTransferID H (ClusterUUID hb) (SequenceNumber hb) l,
                          ut_ClusterUUID = ClusterUUID hb,
                          ut_HeartbeatTsNs = HeartbeatTimestampNs hb\<rparr>)))))))"

definition collect :: "'a option list \<Rightarrow> 'a list" where
  "collect xs = List.map_filter (\<lambda>x. x) xs"

definition usage_transfers :: "hash \<Rightarrow> TBBatchInput \<Rightarrow> UsageTransfer list result" where
  "usage_transfers H input =
     (case traverse (\<lambda>(hb, r). usage_of_heartbeat H input hb r)
             (concat (map (\<lambda>hb. map (\<lambda>r. (hb, r)) AllResources) (bi_Heartbeats input))) of
        Inl e \<Rightarrow> Inl e
      | Inr xs \<Rightarrow> Inr (collect xs))"

fun record_usage ::
    "ResourceType list \<Rightarrow> TransferResult list \<Rightarrow> (string, ResourceBatchResult) gomap \<Rightarrow>
     (string, ResourceBatchResult) gomap" where
  "record_usage (r # rs) (t # ts) m =
     record_usage rs ts
       (AList.update r \<lparr>rb_Accepted = Accepted t, rb_ExceedsCredits = ExceedsCredits t,
                        rb_Exists = Exists t\<rparr> m)"
| "record_usage _ _ m = m"

text \<open>The latest heartbeat of each cluster, by sequence number.\<close>

fun latest_by_cluster ::
    "HeartbeatSignal list \<Rightarrow> (string, HeartbeatSignal) gomap \<Rightarrow> (string, HeartbeatSignal) gomap" where
  "latest_by_cluster [] m = m"
| "latest_by_cluster (hb # hbs) m =
     latest_by_cluster hbs
       (case map_of m (ClusterID hb) of
          None \<Rightarrow> AList.update (ClusterID hb) hb m
        | Some prev \<Rightarrow> if SequenceNumber hb > SequenceNumber prev
                      then AList.update (ClusterID hb) hb m else m)"

definition gauge_update ::
    "TBBatchInput \<Rightarrow> string \<Rightarrow> HeartbeatSignal \<Rightarrow> ResourceType \<Rightarrow> GaugePendingUpdate option" where
  "gauge_update input clusterID hb r =
     (if \<not> IsGauge r then None
      else
        (case map_of (TenantQuotaIDs (bi_AccountMap input)) r of
           None \<Rightarrow> None
         | Some quotaBytes \<Rightarrow>
           (case map_of (bi_GlobalSinkIDs input) r of
              None \<Rightarrow> None
            | Some sinkBytes \<Rightarrow> Some
                \<lparr>gu_Resource = r, gu_TenantQuotaID = UUIDToUint128 quotaBytes,
                 gu_SinkID = UUIDToUint128 sinkBytes,
                 gu_OldPendingID = lookup2 (bi_PendingGaugeIDs input) clusterID r,
                 gu_NewAmount = heartbeatAmount hb r, gu_ClusterUUID = ClusterUUID hb,
                 gu_HeartbeatTsNs = HeartbeatTimestampNs hb,
                 gu_NewPendingID =
                   (case lookup2 (bi_NewGaugePendingIDs input) clusterID r of
                      None \<Rightarrow> 0 | Some i \<Rightarrow> UUIDToUint128 i),
                 gu_VoidTransferID =
                   (case lookup2 (bi_GaugeVoidIDs input) clusterID r of
                      None \<Rightarrow> 0 | Some i \<Rightarrow> UUIDToUint128 i)\<rparr>)))"

text \<open>\<open>gaugeUpdates\<close> with \<open>gaugeKeys\<close>, in the order the map is ranged over.\<close>

definition gauge_updates ::
    "TBBatchInput \<Rightarrow> (string, HeartbeatSignal) gomap \<Rightarrow> ((string \<times> string) \<times> GaugePendingUpdate) list" where
  "gauge_updates input latest =
     collect (concat (map (\<lambda>(clusterID, hb).
       map (\<lambda>r. map_option (Pair (clusterID, r)) (gauge_update input clusterID hb r)) AllResources) latest))"

fun record_gauges ::
    "(string \<times> string) list \<Rightarrow> GaugePendingResult list \<Rightarrow> TBBatchResult \<Rightarrow> TBBatchResult" where
  "record_gauges ((clusterID, resource) # ks) (gr # grs) result =
     record_gauges ks grs
       (result\<lparr>PerResource := AList.update resource
                 \<lparr>rb_Accepted = gr_Accepted gr, rb_ExceedsCredits = gr_ExceedsCredits gr,
                  rb_Exists = False\<rparr> (PerResource result),
               GaugeUpdates := update2 clusterID resource (Uint128ToBytes (gr_NewPendingID gr))
                 (GaugeUpdates result)\<rparr>)"
| "record_gauges _ _ result = result"

definition submit_usage_part ::
    "'tb tb_client \<Rightarrow> UsageTransfer list \<Rightarrow> 'tb \<Rightarrow> 'tb \<times> (string, ResourceBatchResult) gomap result" where
  "submit_usage_part c transfers s =
     (if transfers = [] then (s, Inr [])
      else
        (case SubmitUsageBatch c transfers s of
           (s', Inl e) \<Rightarrow> (s', Inl (Wrap ''SubmitUsageBatch'' e))
         | (s', Inr tbResults) \<Rightarrow> (s', Inr (record_usage (map ut_Resource transfers) tbResults []))))"

definition SubmitTBBatch ::
    "'tb tb_client \<Rightarrow> hash \<Rightarrow> ((string, HeartbeatSignal) gomap \<Rightarrow> (string, HeartbeatSignal) gomap) \<Rightarrow>
     TBBatchInput \<Rightarrow> 'tb \<Rightarrow> 'tb \<times> TBBatchResult result" where
  "SubmitTBBatch c H iter input s =
     (case usage_transfers H input of
        Inl e \<Rightarrow> (s, Inl e)
      | Inr transfers \<Rightarrow>
        (case submit_usage_part c transfers s of
           (s1, Inl e) \<Rightarrow> (s1, Inl e)
         | (s1, Inr perResource) \<Rightarrow>
           (let result = \<lparr>PerResource = perResource, GaugeUpdates = []\<rparr>;
                updates = gauge_updates input (iter (latest_by_cluster (bi_Heartbeats input) []))
            in
              if updates = [] then (s1, Inr result)
              else
                (case SubmitGaugePendingUpdates c (map snd updates) s1 of
                   (s2, Inl e) \<Rightarrow> (s2, Inl (Wrap ''SubmitGaugePendingUpdates'' e))
                 | (s2, Inr gaugeResults) \<Rightarrow>
                     (s2, Inr (record_gauges (map fst updates) gaugeResults result))))))"

section \<open>The other TigerBeetle activities\<close>

definition CreateTenantTBAccounts :: "'tb tb_client \<Rightarrow> bytes16 \<Rightarrow> 'tb \<Rightarrow> 'tb \<times> id_map result" where
  "CreateTenantTBAccounts c tenantUUID s =
     (case CreateTenantQuotaAccounts c tenantUUID [] s of
        (s', Inl e) \<Rightarrow> (s', Inl (Wrap ''CreateTenantQuotaAccounts'' e))
      | (s', Inr ids) \<Rightarrow> (s', Inr (map (\<lambda>(r, i). (r, Uint128ToBytes i)) ids)))"

definition allocation_of_credit ::
    "SubmitAllocationInput \<Rightarrow> string \<times> int64 \<Rightarrow> AllocationTransfer option" where
  "allocation_of_credit input rc =
     (case rc of (r, credits) \<Rightarrow>
        (case map_of (ai_GlobalOperatorIDs input) r of
           None \<Rightarrow> None
         | Some opBytes \<Rightarrow>
           (case map_of (ai_TenantQuotaIDs input) r of
              None \<Rightarrow> None
            | Some quotaBytes \<Rightarrow> Some
                \<lparr>at_Resource = r, at_OperatorID = UUIDToUint128 opBytes,
                 at_TenantQuotaID = UUIDToUint128 quotaBytes, at_Amount = credits,
                 at_Code = CodeQuotaAllocation, at_TenantUUID = ai_TenantUUID input,
                 at_PeriodStartNs = ai_PeriodStartNs input,
                 at_TransferID = (case map_of (ai_TransferIDs input) r of
                                    None \<Rightarrow> 0 | Some i \<Rightarrow> UUIDToUint128 i)\<rparr>)))"

definition SubmitAllocationTransfers ::
    "'tb tb_client \<Rightarrow> SubmitAllocationInput \<Rightarrow> 'tb \<Rightarrow> 'tb \<times> unit result" where
  "SubmitAllocationTransfers c input s =
     (let allocations = collect (map (allocation_of_credit input) (ai_Credits input)) in
      if allocations = [] then (s, Inr ())
      else
        (case SubmitAllocations c allocations s of
           (s', Inl e) \<Rightarrow> (s', Inl e)
         | (s', Inr _) \<Rightarrow> (s', Inr ())))"

definition LookupAccountBalances ::
    "'tb tb_client \<Rightarrow> id_map \<Rightarrow> 'tb \<Rightarrow> (string, QuotaSnapshotData) gomap result" where
  "LookupAccountBalances c tenantQuotaIDs s =
     (case LookupBalances c tenantQuotaIDs s of
        Inl e \<Rightarrow> Inl (Wrap ''LookupBalances'' e)
      | Inr balances \<Rightarrow> Inr (map (\<lambda>(r, b). (r,
          \<lparr>CreditsTotal = bs_CreditsPosted b, qs_DebitsPosted = bs_DebitsPosted b,
           qs_DebitsPending = bs_DebitsPending b\<rparr>)) balances))"

section \<open>Lemmas: maps of maps\<close>

lemma lookup2_update2 [simp]:
  "lookup2 (update2 k l v m) k' l' = (if k' = k \<and> l' = l then Some v else lookup2 m k' l')"
  by (auto simp: lookup2_def update2_def split: option.splits)

lemma set_collect: "x \<in> set (collect xs) \<longleftrightarrow> Some x \<in> set xs"
  by (force simp: collect_def List.map_filter_def)

lemma collect_Nil [simp]: "collect [] = []"
  by (simp add: collect_def List.map_filter_def)

lemma collect_Cons [simp]:
  "collect (x # xs) = (case x of None \<Rightarrow> collect xs | Some y \<Rightarrow> y # collect xs)"
  by (simp add: collect_def List.map_filter_def split: option.splits)

lemma collect_append [simp]: "collect (xs @ ys) = collect xs @ collect ys"
  by (simp add: collect_def List.map_filter_def)

section \<open>Lemmas: what a batch submits\<close>

lemma ledger_known: "r \<in> set AllResources \<Longrightarrow> \<exists>l. LedgerID r = Inr l"
  by (simp add: LedgerID_defined_iff)

lemma usage_of_heartbeat_known:
  "r \<in> set AllResources \<Longrightarrow> \<exists>x. usage_of_heartbeat H input hb r = Inr x"
  using ledger_known [of r] by (auto simp: usage_of_heartbeat_def Let_def split: option.splits)

lemma usage_of_heartbeat_Some:
  assumes "usage_of_heartbeat H input hb r = Inr (Some u)"
  shows "\<not> IsGauge r" "ut_Resource u = r" "ut_Amount u = heartbeatAmount hb r" "heartbeatAmount hb r \<noteq> 0"
    "\<exists>l. LedgerID r = Inr l \<and> ut_TransferID u = DeriveTransferID H (ClusterUUID hb) (SequenceNumber hb) l"
    "map_of (TenantQuotaIDs (bi_AccountMap input)) r = Some (ut_TenantQuotaID u)"
    "map_of (bi_GlobalSinkIDs input) r = Some (ut_SinkID u)"
    "map_of (bi_GlobalOperatorIDs input) r = Some (ut_OperatorID u)"
  using assms by (auto simp: usage_of_heartbeat_def Let_def split: if_splits option.splits sum.splits)

lemma traverse_total:
  "(\<And>x. x \<in> set xs \<Longrightarrow> \<exists>y. f x = Inr y) \<Longrightarrow> \<exists>ys. traverse f xs = Inr ys"
proof (induction xs)
  case (Cons x xs)
  then obtain y ys where "f x = Inr y" "traverse f xs = Inr ys" by fastforce
  then show ?case by simp
qed simp

lemma traverse_set:
  "traverse f xs = Inr ys \<Longrightarrow> y \<in> set ys \<longleftrightarrow> (\<exists>x \<in> set xs. f x = Inr y)"
  by (induction xs arbitrary: ys) (auto split: sum.splits)

lemma usage_transfers_total: "\<exists>us. usage_transfers H input = Inr us"
proof -
  have "\<exists>ys. traverse (\<lambda>(hb, r). usage_of_heartbeat H input hb r)
      (concat (map (\<lambda>hb. map (\<lambda>r. (hb, r)) AllResources) (bi_Heartbeats input))) = Inr ys"
    by (rule traverse_total) (auto intro: usage_of_heartbeat_known)
  then show ?thesis by (auto simp: usage_transfers_def)
qed

lemma usage_transfers_mem:
  assumes "usage_transfers H input = Inr us"
  shows "u \<in> set us \<longleftrightarrow>
    (\<exists>hb \<in> set (bi_Heartbeats input). \<exists>r \<in> set AllResources. usage_of_heartbeat H input hb r = Inr (Some u))"
  using assms
  by (auto simp: usage_transfers_def set_collect traverse_set split: sum.splits) blast

text \<open>Transfers a batch may put on the ledger: the usage of its heartbeats and gauge events.\<close>

definition gauge_event :: "Transfer \<Rightarrow> bool" where
  "gauge_event t \<longleftrightarrow> Pending (tr_Flags t) \<or> VoidPendingTransfer (tr_Flags t)"

lemma gauge_event_not_posting: "gauge_event t \<Longrightarrow> \<not> posting t"
  by (auto simp: gauge_event_def posting_def)

lemma gauge_loop_events:
  "gauge_loop c i us s = (s', Inr tms) \<Longrightarrow> t \<in> set (map fst tms) \<Longrightarrow> gauge_event t"
proof (induction c i us s arbitrary: tms s' rule: gauge_loop.induct)
  case (2 c i u newID us s)
  have ev: "gauge_transfers c i u newID s = (s1, Inr ts) \<Longrightarrow> t \<in> set (map fst ts) \<Longrightarrow> gauge_event t" for s1 ts
    by (auto simp: gauge_transfers_def gauge_event_def void_transfer_def pending_transfer_def
        split: prod.splits sum.splits option.splits if_splits)
  obtain s1 ts s2 rest where "gauge_transfers c i u newID s = (s1, Inr ts)"
    "gauge_loop c (Suc i) us s1 = (s2, Inr rest)" "tms = ts @ rest"
    using "2.prems"(1) by (auto split: prod.splits sum.splits)
  with ev "2.IH" "2.prems"(2) show ?case by fastforce
qed simp

lemma submit_usage_part_reach:
  "submit_usage_part c us s = (s', r) \<Longrightarrow> tb_reach c s s'"
  using usage_call.reach [of c s us]
  by (auto simp: submit_usage_part_def split: if_splits prod.splits sum.splits intro: reach_refl)

interpretation batch_activity: ledger_call c "\<lambda>s. fst (SubmitTBBatch c H iter input s)" for c H iter input
proof
  fix s
  obtain us where us: "usage_transfers H input = Inr us" using usage_transfers_total by blast
  obtain s1 r where part: "submit_usage_part c us s = (s1, r)" by fastforce
  note r1 = submit_usage_part_reach [OF part]
  show "tb_reach c s (fst (SubmitTBBatch c H iter input s))"
  proof (cases r)
    case (Inr m)
    let ?us = "map snd (gauge_updates input (iter (latest_by_cluster (bi_Heartbeats input) [])))"
    obtain s2 r2 where "SubmitGaugePendingUpdates c ?us s1 = (s2, r2)" by fastforce
    with gauge_call.reach_from [OF r1, of ?us] r1 us part Inr show ?thesis
      by (cases r2) (auto simp: SubmitTBBatch_def Let_def)
  qed (use us part r1 in \<open>simp add: SubmitTBBatch_def\<close>)
qed

interpretation accounts_activity: ledger_call c "\<lambda>s. fst (CreateTenantTBAccounts c t s)" for c t
proof
  fix s
  show "tb_reach c s (fst (CreateTenantTBAccounts c t s))"
    using tenant_accounts_call.reach [of c s t "[]"]
    by (cases "CreateTenantQuotaAccounts c t [] s"; cases "snd (CreateTenantQuotaAccounts c t [] s)")
       (auto simp: CreateTenantTBAccounts_def)
qed

interpretation allocation_activity: ledger_call c "\<lambda>s. fst (SubmitAllocationTransfers c input s)" for c input
proof
  fix s
  let ?as = "collect (map (allocation_of_credit input) (ai_Credits input))"
  show "tb_reach c s (fst (SubmitAllocationTransfers c input s))"
    using allocation_call.reach [of c s ?as] reach_refl [of c s]
    by (cases "SubmitAllocations c ?as s"; cases "snd (SubmitAllocations c ?as s)")
       (auto simp: SubmitAllocationTransfers_def Let_def)
qed

end
