(* ===== verification/PG_Activities.thy ===== *)
theory PG_Activities
  imports PG_Store TB_Activities
begin

text \<open>
  \<open>internal/accounting/activities_pg.go\<close>: the PostgreSQL-facing activities, one attempt each, on
  the database of theory \<open>PG_Store\<close>.  \<open>uuid.Parse\<close> is the parameter \<open>parse\<close>.  The warnings that
  \<open>CheckSoftLimits\<close> logs are part of its result: they are the alert.
\<close>

section \<open>Inputs\<close>

type_synonym uuid_parser = "string \<Rightarrow> bytes16 result"

record InsertTenantInput =
  it_TenantID :: string
  it_Name :: string
  it_BillingTier :: string

record InsertClusterInput =
  ic_ClusterID :: string
  ic_TenantID :: string
  ic_CloudProvider :: string
  ic_Region :: string

text \<open>Fields that no activity reads (\<open>GlobalMap\<close>, \<open>AccountMap\<close>, \<open>LedgerClient\<close>) are left out.\<close>

record InsertTBAccountMappingInput =
  im_TenantID :: string
  im_AccountMap :: id_map

record UpdateQuotaSnapshotsInput =
  us_TenantID :: string
  us_TenantUUID :: bytes16
  us_Snapshots :: "(string, QuotaSnapshotData) gomap"

record InsertCreditAdjustmentInput =
  ia_TenantID :: string
  ia_ResourceType :: string
  ia_Amount :: int64
  ia_Reason :: string
  ia_TransferID :: bytes16

record CheckSoftLimitsInput =
  cs_TenantID :: string
  cs_Snapshots :: "(string, QuotaSnapshotData) gomap"

record ResetSoftLimitAlertInput =
  rs_TenantID :: string
  rs_ResourceType :: string

record UpdateClusterStatusInput =
  uc_ClusterID :: string
  uc_Status :: string

section \<open>Activities\<close>

text \<open>A prologue parses an identifier and returns its error wrapped.\<close>

definition with_uuid ::
    "uuid_parser \<Rightarrow> string \<Rightarrow> string \<Rightarrow> (bytes16 \<Rightarrow> pg \<Rightarrow> pg \<times> 'a result) \<Rightarrow> pg \<Rightarrow> pg \<times> 'a result" where
  "with_uuid parse label i k db =
     (case parse i of Inl e \<Rightarrow> (db, Inl (Wrap label e)) | Inr u \<Rightarrow> k u db)"

definition drop_value :: "'s \<times> 'a result \<Rightarrow> 's \<times> unit result" where
  "drop_value p = (fst p, case snd p of Inl e \<Rightarrow> Inl e | Inr _ \<Rightarrow> Inr ())"

definition InsertTenant :: "uuid_parser \<Rightarrow> InsertTenantInput \<Rightarrow> pg \<Rightarrow> pg \<times> unit result" where
  "InsertTenant parse input = with_uuid parse ''parse tenant UUID'' (it_TenantID input) (\<lambda>tenantUUID db.
     drop_value (q_InsertTenant tenantUUID (it_Name input) (it_BillingTier input) db))"

definition InsertCluster :: "uuid_parser \<Rightarrow> InsertClusterInput \<Rightarrow> pg \<Rightarrow> pg \<times> unit result" where
  "InsertCluster parse input = with_uuid parse ''parse cluster UUID'' (ic_ClusterID input) (\<lambda>clusterUUID.
     with_uuid parse ''parse tenant UUID'' (ic_TenantID input) (\<lambda>tenantUUID db.
       drop_value (q_InsertCluster clusterUUID tenantUUID (ic_CloudProvider input) (ic_Region input) db)))"

definition wrap_error :: "string \<Rightarrow> 's \<times> 'a result \<Rightarrow> 's \<times> 'a result" where
  "wrap_error label p = (fst p, case snd p of Inl e \<Rightarrow> Inl (Wrap label e) | Inr x \<Rightarrow> Inr x)"

definition InsertTBAccountMapping ::
    "uuid_parser \<Rightarrow> InsertTBAccountMappingInput \<Rightarrow> pg \<Rightarrow> pg \<times> unit result" where
  "InsertTBAccountMapping parse input = with_uuid parse ''parse tenant UUID'' (im_TenantID input) (\<lambda>tenantUUID.
     foreach (\<lambda>(resourceType, i) db.
       wrap_error (''InsertTBAccountMapping '' @ resourceType)
         (q_InsertTBAccountMapping tenantUUID resourceType ''tenant_quota'' (le_bytes 16 i) db))
       (im_AccountMap input))"

definition UpdateQuotaSnapshots ::
    "uuid_parser \<Rightarrow> UpdateQuotaSnapshotsInput \<Rightarrow> pg \<Rightarrow> pg \<times> unit result" where
  "UpdateQuotaSnapshots parse input = with_uuid parse ''parse tenant UUID'' (us_TenantID input) (\<lambda>tenantUUID.
     foreach (\<lambda>(resourceType, snap) db.
       wrap_error (''UpsertQuotaSnapshot '' @ resourceType)
         (q_UpsertQuotaSnapshot tenantUUID resourceType (CreditsTotal snap) (qs_DebitsPosted snap)
            (qs_DebitsPending snap) db))
       (us_Snapshots input))"

definition InsertCreditAdjustment ::
    "uuid_parser \<Rightarrow> InsertCreditAdjustmentInput \<Rightarrow> pg \<Rightarrow> pg \<times> unit result" where
  "InsertCreditAdjustment parse input = with_uuid parse ''parse tenant UUID'' (ia_TenantID input)
     (\<lambda>tenantUUID. q_InsertCreditAdjustment tenantUUID (ia_ResourceType input) (ia_Amount input)
        (if ia_Reason input \<noteq> [] then Some (ia_Reason input) else None) (le_bytes 16 (ia_TransferID input)))"

text \<open>The loop of \<open>CheckSoftLimits\<close> over the configurations, with the resources warned about.\<close>

definition crosses :: "(string, QuotaSnapshotData) gomap \<Rightarrow> QuotaConfig \<Rightarrow> bool" where
  "crosses snapshots cfg \<longleftrightarrow>
     (case qc_SoftLimit cfg of
        None \<Rightarrow> False
      | Some softLimit \<Rightarrow>
          \<not> qc_SoftLimitAlertSent cfg \<and>
          (case map_of snapshots (qc_ResourceType cfg) of
             None \<Rightarrow> False
           | Some snap \<Rightarrow> sint softLimit \<le> sint (qs_DebitsPosted snap + qs_DebitsPending snap)))"

fun check_configs ::
    "bytes16 \<Rightarrow> (string, QuotaSnapshotData) gomap \<Rightarrow> QuotaConfig list \<Rightarrow> pg \<Rightarrow>
     pg \<times> string list \<times> unit result" where
  "check_configs tenantUUID snapshots [] db = (db, [], Inr ())"
| "check_configs tenantUUID snapshots (cfg # cfgs) db =
     (if \<not> crosses snapshots cfg then check_configs tenantUUID snapshots cfgs db
      else
        (case q_MarkSoftLimitAlertSent tenantUUID (qc_ResourceType cfg) db of
           (db', Inl e) \<Rightarrow>
             (db', [qc_ResourceType cfg], Inl (Wrap (''MarkSoftLimitAlertSent '' @ qc_ResourceType cfg) e))
         | (db', Inr _) \<Rightarrow>
             (case check_configs tenantUUID snapshots cfgs db' of (db'', alerts, r) \<Rightarrow>
                (db'', qc_ResourceType cfg # alerts, r))))"

definition CheckSoftLimits ::
    "uuid_parser \<Rightarrow> CheckSoftLimitsInput \<Rightarrow> pg \<Rightarrow> pg \<times> string list \<times> unit result" where
  "CheckSoftLimits parse input db =
     (case parse (cs_TenantID input) of
        Inl e \<Rightarrow> (db, [], Inl (Wrap ''parse tenant UUID'' e))
      | Inr tenantUUID \<Rightarrow>
        (case q_ListQuotaConfigsByTenant tenantUUID db of
           (db', Inl e) \<Rightarrow> (db', [], Inl (Wrap ''ListQuotaConfigsByTenant'' e))
         | (db', Inr configs) \<Rightarrow> check_configs tenantUUID (cs_Snapshots input) configs db'))"

definition ResetSoftLimitAlert ::
    "uuid_parser \<Rightarrow> ResetSoftLimitAlertInput \<Rightarrow> pg \<Rightarrow> pg \<times> unit result" where
  "ResetSoftLimitAlert parse input = with_uuid parse ''parse tenant UUID'' (rs_TenantID input)
     (\<lambda>tenantUUID. q_ResetSoftLimitAlert tenantUUID (rs_ResourceType input))"

definition UpdateClusterStatus ::
    "uuid_parser \<Rightarrow> UpdateClusterStatusInput \<Rightarrow> pg \<Rightarrow> pg \<times> unit result" where
  "UpdateClusterStatus parse input = with_uuid parse ''parse cluster UUID'' (uc_ClusterID input)
     (\<lambda>clusterUUID. q_UpdateClusterStatus clusterUUID (uc_Status input))"

definition DeregisterCluster :: "uuid_parser \<Rightarrow> string \<Rightarrow> pg \<Rightarrow> pg \<times> unit result" where
  "DeregisterCluster parse clusterID =
     with_uuid parse ''parse cluster UUID'' clusterID q_DeregisterCluster"

definition DeleteTenant :: "uuid_parser \<Rightarrow> string \<Rightarrow> pg \<Rightarrow> pg \<times> unit result" where
  "DeleteTenant parse tenantID = with_uuid parse ''parse tenant UUID'' tenantID q_DeleteTenant"

section \<open>Any sequence of attempts keeps the schema\<close>

text \<open>An attempt of an activity; workflows and handlers issue them in any order.\<close>

datatype pg_attempt =
    TenantAttempt InsertTenantInput
  | ClusterAttempt InsertClusterInput
  | MappingAttempt InsertTBAccountMappingInput
  | SnapshotsAttempt UpdateQuotaSnapshotsInput
  | AdjustmentAttempt InsertCreditAdjustmentInput
  | SoftLimitsAttempt CheckSoftLimitsInput
  | ResetAttempt ResetSoftLimitAlertInput
  | ClusterStatusAttempt UpdateClusterStatusInput
  | DeregisterAttempt string
  | DeleteTenantAttempt string

fun run_pg_attempt :: "uuid_parser \<Rightarrow> pg_attempt \<Rightarrow> pg \<Rightarrow> pg" where
  "run_pg_attempt parse (TenantAttempt i) db = fst (InsertTenant parse i db)"
| "run_pg_attempt parse (ClusterAttempt i) db = fst (InsertCluster parse i db)"
| "run_pg_attempt parse (MappingAttempt i) db = fst (InsertTBAccountMapping parse i db)"
| "run_pg_attempt parse (SnapshotsAttempt i) db = fst (UpdateQuotaSnapshots parse i db)"
| "run_pg_attempt parse (AdjustmentAttempt i) db = fst (InsertCreditAdjustment parse i db)"
| "run_pg_attempt parse (SoftLimitsAttempt i) db = fst (CheckSoftLimits parse i db)"
| "run_pg_attempt parse (ResetAttempt i) db = fst (ResetSoftLimitAlert parse i db)"
| "run_pg_attempt parse (ClusterStatusAttempt i) db = fst (UpdateClusterStatus parse i db)"
| "run_pg_attempt parse (DeregisterAttempt i) db = fst (DeregisterCluster parse i db)"
| "run_pg_attempt parse (DeleteTenantAttempt i) db = fst (DeleteTenant parse i db)"

lemma fst_drop_value [simp]: "fst (drop_value p) = fst p"
  by (simp add: drop_value_def)

lemma fst_wrap_error [simp]: "fst (wrap_error label p) = fst p"
  by (simp add: wrap_error_def)

lemma wrap_errorD: "wrap_error label p = (s, res) \<Longrightarrow> \<exists>res'. p = (s, res') \<and> isl res' = isl res"
  by (cases p) (auto simp: wrap_error_def split: sum.splits)

text \<open>
  What every statement but the reset of an alert keeps, every attempt of an activity but the
  reset keeps; and what the reset keeps too, every attempt keeps.
\<close>

locale pg_frame =
  fixes P :: "pg \<Rightarrow> bool"
  assumes script: "P db \<Longrightarrow> P (db\<lparr>pg_script := os\<rparr>)"
    and insert_tenant: "P db \<Longrightarrow> P (fst (q_InsertTenant t n b db))"
    and insert_cluster: "P db \<Longrightarrow> P (fst (q_InsertCluster c t p r db))"
    and insert_mapping: "P db \<Longrightarrow> P (fst (q_InsertTBAccountMapping t r a i db))"
    and upsert_snapshot: "P db \<Longrightarrow> P (fst (q_UpsertQuotaSnapshot t r x y z db))"
    and insert_adjustment: "P db \<Longrightarrow> P (fst (q_InsertCreditAdjustment t r x y' i db))"
    and mark_alert: "P db \<Longrightarrow> P (fst (q_MarkSoftLimitAlertSent t r db))"
    and update_cluster: "P db \<Longrightarrow> P (fst (q_UpdateClusterStatus c r db))"
    and deregister_cluster: "P db \<Longrightarrow> P (fst (q_DeregisterCluster c db))"
    and delete_tenant: "P db \<Longrightarrow> P (fst (q_DeleteTenant t db))"
begin

lemmas statements_keep =
  insert_tenant insert_cluster insert_mapping upsert_snapshot insert_adjustment mark_alert
  update_cluster deregister_cluster delete_tenant

lemma with_uuid_keep:
  "(\<And>u db. P db \<Longrightarrow> P (fst (k u db))) \<Longrightarrow> P db \<Longrightarrow> P (fst (with_uuid parse label i k db))"
  by (simp add: with_uuid_def split: sum.split)

lemma foreach_keep: "(\<And>x db. P db \<Longrightarrow> P (fst (f x db))) \<Longrightarrow> P db \<Longrightarrow> P (fst (foreach f xs db))"
  by (rule foreach_invariant)

lemma query_keep: "P db \<Longrightarrow> P (fst (query body db))"
  by (cases rule: statement_cases [of "\<lambda>db. (db, body db)" db]) (simp_all add: query_def script)

lemma check_configs_keep: "P db \<Longrightarrow> P (fst (check_configs t snaps cfgs db))"
proof (induction cfgs arbitrary: db)
  case (Cons cfg cfgs)
  have "P (fst (q_MarkSoftLimitAlertSent t (qc_ResourceType cfg) db))"
    by (rule mark_alert) (rule Cons.prems)
  then show ?case
    using Cons.IH [OF Cons.prems] Cons.IH [of "fst (q_MarkSoftLimitAlertSent t (qc_ResourceType cfg) db)"]
    by (auto split: prod.splits sum.splits)
qed simp

lemma soft_limits_keep: "P db \<Longrightarrow> P (fst (CheckSoftLimits parse i db))"
proof -
  assume ok: "P db"
  show ?thesis
  proof (cases "parse (cs_TenantID i)")
    case (Inr t)
    obtain db' r where q: "q_ListQuotaConfigsByTenant t db = (db', r)" by fastforce
    then have "P db'"
      using query_keep [OF ok] unfolding q_ListQuotaConfigsByTenant_def by (metis fst_conv)
    with Inr q show ?thesis
      by (cases r) (simp_all add: CheckSoftLimits_def check_configs_keep)
  qed (simp add: CheckSoftLimits_def ok)
qed

lemma inserts_keep:
  assumes "P db"
  shows "P (fst (InsertTenant parse i1 db))" "P (fst (InsertCluster parse i2 db))"
    "P (fst (InsertCreditAdjustment parse i3 db))"
  unfolding InsertTenant_def InsertCluster_def InsertCreditAdjustment_def
  by (intro with_uuid_keep assms; simp add: statements_keep)+

lemma loops_keep:
  assumes "P db"
  shows "P (fst (InsertTBAccountMapping parse i1 db))" "P (fst (UpdateQuotaSnapshots parse i2 db))"
  unfolding InsertTBAccountMapping_def UpdateQuotaSnapshots_def
  by (intro with_uuid_keep assms foreach_keep; simp add: statements_keep split: prod.split)+

lemma updates_keep:
  assumes "P db"
  shows "P (fst (UpdateClusterStatus parse i2 db))"
    "P (fst (DeregisterCluster parse i3 db))" "P (fst (DeleteTenant parse i4 db))"
  unfolding UpdateClusterStatus_def DeregisterCluster_def DeleteTenant_def
  by (intro with_uuid_keep assms statements_keep; simp)+

lemma attempt_frame: "\<nexists>i. a = ResetAttempt i \<Longrightarrow> P db \<Longrightarrow> P (run_pg_attempt parse a db)"
  by (cases a) (simp_all add: inserts_keep loops_keep updates_keep soft_limits_keep)

end

locale pg_invariant = pg_frame +
  assumes reset_alert: "P db \<Longrightarrow> P (fst (q_ResetSoftLimitAlert t r db))"
begin

lemma reset_keeps: "P db \<Longrightarrow> P (fst (ResetSoftLimitAlert parse i db))"
  unfolding ResetSoftLimitAlert_def by (rule with_uuid_keep) (simp_all add: reset_alert)

lemma attempt_keeps: "P db \<Longrightarrow> P (run_pg_attempt parse a db)"
  by (cases "\<exists>i. a = ResetAttempt i") (auto simp: reset_keeps intro: attempt_frame)

lemma attempts_keep: "P db \<Longrightarrow> P (fold (run_pg_attempt parse) attempts db)"
  by (induction attempts arbitrary: db) (simp_all add: attempt_keeps)

end

interpretation schema: pg_invariant schema_ok
  by unfold_locales (simp_all add: schema_kept)

section \<open>Rows written in a loop\<close>

text \<open>
  A loop that writes one row per entry of a map, each write either done, or failed with or
  without effect.  \<open>put\<close> is what a write does to the value shown for its key; doing it twice is
  doing it once.  That is enough for a loop to be retried until it returns.
\<close>

locale row_writer =
  fixes view :: "'s \<Rightarrow> 'k \<Rightarrow> 'w" and key :: "'r \<Rightarrow> 'k" and put :: "'v \<Rightarrow> 'w \<Rightarrow> 'w"
    and write_row :: "'r \<times> 'v \<Rightarrow> 's \<Rightarrow> 's \<times> unit result"
  assumes put_put: "put v (put v w) = put v w"
    and key_inj: "key r = key r' \<Longrightarrow> r = r'"
    and write_row_effect: "write_row (r, v) s = (s', res) \<Longrightarrow>
      view s' = (view s)(key r := put v (view s (key r))) \<or> isl res \<and> view s' = view s"
begin

definition after_all :: "('r \<times> 'v) list \<Rightarrow> ('k \<Rightarrow> 'w) \<Rightarrow> ('k \<Rightarrow> 'w) \<Rightarrow> bool" where
  "after_all xs f g \<longleftrightarrow>
     (\<forall>r. g (key r) = (case map_of xs r of None \<Rightarrow> f (key r) | Some v \<Rightarrow> put v (f (key r)))) \<and>
     (\<forall>k. k \<notin> range key \<longrightarrow> g k = f k)"

definition after_some :: "('r \<times> 'v) list \<Rightarrow> ('k \<Rightarrow> 'w) \<Rightarrow> ('k \<Rightarrow> 'w) \<Rightarrow> bool" where
  "after_some xs f g \<longleftrightarrow>
     (\<forall>r. g (key r) = f (key r) \<or> (\<exists>v. map_of xs r = Some v \<and> g (key r) = put v (f (key r)))) \<and>
     (\<forall>k. k \<notin> range key \<longrightarrow> g k = f k)"

lemma after_some_refl [simp]: "after_some xs f f"
  by (simp add: after_some_def)

lemma after_some_trans: "after_some xs f g \<Longrightarrow> after_some xs g h \<Longrightarrow> after_some xs f h"
  unfolding after_some_def by (metis option.inject put_put)

lemma after_some_all: "after_some xs f g \<Longrightarrow> after_all xs g h \<Longrightarrow> after_all xs f h"
  unfolding after_some_def after_all_def
  by (auto split: option.splits) (metis option.distinct(1) option.inject put_put)+

lemma after_some_Cons:
  assumes "after_some xs f g" and "map_of xs r = None"
  shows "after_some ((r, v) # xs) f g"
proof -
  have "g (key r') = f (key r') \<or> (\<exists>v'. map_of ((r, v) # xs) r' = Some v' \<and> g (key r') = put v' (f (key r')))" for r'
    using assms by (cases "r' = r") (auto simp: after_some_def)
  with assms(1) show ?thesis by (simp add: after_some_def)
qed

lemma write_all:
  assumes "foreach write_row xs s = (s', res)" and "distinct (map fst xs)"
  shows "after_some xs (view s) (view s') \<and> (\<not> isl res \<longrightarrow> after_all xs (view s) (view s'))"
  using assms
proof (induction xs arbitrary: s)
  case Nil
  then show ?case by (auto simp: after_all_def)
next
  case (Cons x xs)
  obtain r v where x: "x = (r, v)" by (cases x)
  obtain s1 res1 where w: "write_row (r, v) s = (s1, res1)" by fastforce
  have fresh: "map_of xs r = None" using Cons.prems(2) x by (simp add: map_of_eq_None_iff)
  have here: "after_some (x # xs) (view s) (view s1)"
    using write_row_effect [OF w] x by (auto simp: after_some_def dest: key_inj)
  show ?case
  proof (cases res1)
    case (Inl e)
    then show ?thesis using Cons.prems(1) x w here by auto
  next
    case (Inr u)
    have s1: "view s1 = (view s)(key r := put v (view s (key r)))" using write_row_effect [OF w] Inr by simp
    have rest: "foreach write_row xs s1 = (s', res)" using Cons.prems(1) x w Inr by simp
    note IH = Cons.IH [OF rest] Cons.prems(2)
    have "after_some (x # xs) (view s1) (view s')"
      using IH x fresh by (simp add: after_some_Cons)
    moreover have "after_all (x # xs) (view s) (view s')" if "\<not> isl res"
      using IH that x fresh unfolding after_all_def s1 by (auto dest: key_inj split: option.splits)
    ultimately show ?thesis using here by (blast intro: after_some_trans)
  qed
qed

lemma retried:
  assumes "with_retries n (foreach write_row xs) s = (s', Inr ())" and "distinct (map fst xs)"
  shows "after_all xs (view s) (view s')"
proof -
  have "\<exists>s0. after_some xs (view s) (view s0) \<and> foreach write_row xs s0 = (s', Inr ())"
    using write_all assms(2)
    by (intro with_retries_last [OF assms(1)]) (auto intro: after_some_trans)
  then show ?thesis
    using write_all assms(2) by (fastforce intro: after_some_all)
qed

end

section \<open>Snapshots\<close>

text \<open>What \<open>quota_snapshots\<close> shows for a tenant and a resource.\<close>

definition pg_snapshot :: "pg \<Rightarrow> bytes16 \<times> string \<Rightarrow> (QuotaSnapshotData \<times> int64 option) option" where
  "pg_snapshot db k =
     (case find (snapshot_key (fst k) (snd k)) (quota_snapshots db) of
        None \<Rightarrow> None
      | Some s \<Rightarrow> Some (\<lparr>CreditsTotal = sn_CreditsTotal s, qs_DebitsPosted = sn_DebitsPosted s,
                          qs_DebitsPending = sn_DebitsPending s\<rparr>, sn_Available s))"

definition shown :: "QuotaSnapshotData \<Rightarrow> (QuotaSnapshotData \<times> int64 option) option" where
  "shown d = Some (d, available (CreditsTotal d) (qs_DebitsPosted d) (qs_DebitsPending d))"

lemma pg_snapshot_script [simp]: "pg_snapshot (db\<lparr>pg_script := os\<rparr>) = pg_snapshot db"
  by (simp add: pg_snapshot_def fun_eq_iff)

lemma find_updated:
  "p row \<Longrightarrow> x \<in> set xs \<Longrightarrow> p x \<Longrightarrow> find p (update_where p (\<lambda>_. row) xs) = Some row"
  by (induction xs) (auto simp: update_where_def)

lemma find_not_updated:
  "\<not> q row \<Longrightarrow> (\<And>x. p x \<Longrightarrow> \<not> q x) \<Longrightarrow> find q (update_where p (\<lambda>_. row) xs) = find q xs"
  by (induction xs) (auto simp: update_where_def)

lemma find_snoc: "find p (xs @ [x]) = (case find p xs of None \<Rightarrow> if p x then Some x else None | Some y \<Rightarrow> Some y)"
  by (induction xs) auto

lemma upsert_body:
  assumes "upsert_snapshot t r (CreditsTotal d) (qs_DebitsPosted d) (qs_DebitsPending d) db = (db', res)"
  shows "pg_snapshot db' = (if isl res then pg_snapshot db else (pg_snapshot db)((t, r) := shown d))"
proof (cases "available (CreditsTotal d) (qs_DebitsPosted d) (qs_DebitsPending d)")
  case None
  then show ?thesis using assms by (auto simp: upsert_snapshot_def)
next
  case (Some a)
  define row where "row = \<lparr>sn_TenantID = t, sn_ResourceType = r, sn_CreditsTotal = CreditsTotal d,
    sn_DebitsPosted = qs_DebitsPosted d, sn_DebitsPending = qs_DebitsPending d, sn_Available = Some a,
    sn_SnapshotAt = pg_now db\<rparr>"
  have row: "snapshot_key t r row" by (simp add: row_def snapshot_key_def)
  have other: "\<not> snapshot_key t' r' row" "snapshot_key t r x \<Longrightarrow> \<not> snapshot_key t' r' x"
    if "t' \<noteq> t \<or> r' \<noteq> r" for t' r' x
    using that row by (auto simp: snapshot_key_def)
  have row_shown: "Some (\<lparr>CreditsTotal = sn_CreditsTotal row, qs_DebitsPosted = sn_DebitsPosted row,
      qs_DebitsPending = sn_DebitsPending row\<rparr>, sn_Available row) = shown d"
    by (simp add: row_def shown_def Some)
  show ?thesis
  proof (cases "\<exists>x \<in> set (quota_snapshots db). snapshot_key t r x")
    case True
    then have "db' = db\<lparr>quota_snapshots := update_where (snapshot_key t r) (\<lambda>_. row) (quota_snapshots db)\<rparr>"
      "res = Inr ()"
      using assms Some by (auto simp: upsert_snapshot_def row_def Let_def)
    then show ?thesis
      using True row other row_shown
      by (auto simp: fun_eq_iff pg_snapshot_def find_updated find_not_updated)
  next
    case False
    then have none: "find (snapshot_key t r) (quota_snapshots db) = None" by (simp add: find_None_iff)
    consider "db' = db" "isl res" | "db' = db\<lparr>quota_snapshots := quota_snapshots db @ [row]\<rparr>" "res = Inr ()"
      using assms Some False by (auto simp: upsert_snapshot_def row_def Let_def split: if_splits)
    then show ?thesis
      using none row other row_shown
      by cases (auto simp: fun_eq_iff pg_snapshot_def find_snoc split: option.splits)
  qed
qed

lemma upsert_effect:
  assumes "q_UpsertQuotaSnapshot t r (CreditsTotal d) (qs_DebitsPosted d) (qs_DebitsPending d) db = (db', res)"
  shows "pg_snapshot db' = (pg_snapshot db)((t, r) := shown d) \<or> isl res \<and> pg_snapshot db' = pg_snapshot db"
  using assms unfolding q_UpsertQuotaSnapshot_def
proof (rule statement_effect, goal_cases)
  case (1 db db' res)
  show ?case using upsert_body [OF 1] by (simp add: fun_upd_def split: if_splits)
qed simp

interpretation snapshot_rows: row_writer pg_snapshot "Pair t" "\<lambda>d _. shown d"
  "\<lambda>(resourceType, snap) db. wrap_error (''UpsertQuotaSnapshot '' @ resourceType)
     (q_UpsertQuotaSnapshot t resourceType (CreditsTotal snap) (qs_DebitsPosted snap)
        (qs_DebitsPending snap) db)" for t
proof (unfold_locales, goal_cases)
  case (3 r d db db' res)
  then obtain res1 where q: "q_UpsertQuotaSnapshot t r (CreditsTotal d) (qs_DebitsPosted d)
      (qs_DebitsPending d) db = (db', res1)" and "isl res1 = isl res"
    by (auto dest: wrap_errorD)
  then show ?case using upsert_effect [OF q] by simp
qed simp_all

text \<open>
  C25. The PostgreSQL projection is exact under retries: however many attempts of
  \<open>UpdateQuotaSnapshots\<close> failed half way, with rows written or answers lost, once an attempt
  returns without error \<open>quota_snapshots\<close> shows the given balances with their computed available
  column for exactly the resources of the input, and every other tenant and resource as before.
\<close>

theorem snapshots_retry_exact:
  assumes "with_retries n (UpdateQuotaSnapshots parse input) db = (db', Inr ())"
    and "parse (us_TenantID input) = Inr t" and "distinct (map fst (us_Snapshots input))"
  shows "pg_snapshot db' (t', r) =
    (case map_of (us_Snapshots input) r of
       None \<Rightarrow> pg_snapshot db (t', r)
     | Some d \<Rightarrow> if t' = t then shown d else pg_snapshot db (t', r))"
proof -
  have "UpdateQuotaSnapshots parse input = foreach (\<lambda>(resourceType, snap) db.
     wrap_error (''UpsertQuotaSnapshot '' @ resourceType)
       (q_UpsertQuotaSnapshot t resourceType (CreditsTotal snap) (qs_DebitsPosted snap)
          (qs_DebitsPending snap) db)) (us_Snapshots input)"
    by (simp add: UpdateQuotaSnapshots_def with_uuid_def assms(2) fun_eq_iff)
  then have "snapshot_rows.after_all t (us_Snapshots input) (pg_snapshot db) (pg_snapshot db')"
    using assms(1,3) by (intro snapshot_rows.retried) simp_all
  then show ?thesis
    unfolding snapshot_rows.after_all_def by (cases "t' = t") (auto split: option.splits)
qed

section \<open>Soft limits\<close>

text \<open>The configurations of a tenant that a check with the given snapshots warns about.\<close>

definition crossing :: "bytes16 \<Rightarrow> (string, QuotaSnapshotData) gomap \<Rightarrow> pg \<Rightarrow> string set" where
  "crossing t snaps db =
     qc_ResourceType ` {c \<in> set (quota_configs db). qc_TenantID c = t \<and> crosses snaps c}"

text \<open>The alert flags after warning about a set of resources.\<close>

definition alerted :: "bytes16 \<Rightarrow> string set \<Rightarrow> QuotaConfig list \<Rightarrow> QuotaConfig list" where
  "alerted t rs = update_where (\<lambda>c. qc_TenantID c = t \<and> qc_ResourceType c \<in> rs)
     (\<lambda>c. c\<lparr>qc_SoftLimitAlertSent := True\<rparr>)"

lemma alerted_empty [simp]: "alerted t {} cfgs = cfgs"
  by (simp add: alerted_def update_where_def)

lemma alerted_alerted: "alerted t rs (alerted t rs' cfgs) = alerted t (rs \<union> rs') cfgs"
  by (auto simp: alerted_def update_where_def)

lemma alerted_sent:
  assumes "c \<in> set (alerted t rs cfgs)" and "qc_TenantID c = t" and "qc_ResourceType c \<in> rs"
  shows "qc_SoftLimitAlertSent c"
proof -
  obtain c' where c: "c = (if qc_TenantID c' = t \<and> qc_ResourceType c' \<in> rs
      then c'\<lparr>qc_SoftLimitAlertSent := True\<rparr> else c')"
    using assms(1) unfolding alerted_def update_where_set by blast
  show ?thesis
    using assms(2,3) by (cases "qc_TenantID c' = t \<and> qc_ResourceType c' \<in> rs") (simp_all add: c)
qed

lemma set_alert_configs: "quota_configs (set_alert True t r db) = alerted t {r} (quota_configs db)"
  by (simp add: set_alert_def alerted_def)

lemma mark_effect:
  assumes "q_MarkSoftLimitAlertSent t r db = (db', res)"
  shows "quota_configs db' = alerted t {r} (quota_configs db) \<or> isl res \<and> quota_configs db' = quota_configs db"
  using assms unfolding q_MarkSoftLimitAlertSent_def
  by (cases rule: statement_cases [of "\<lambda>db. (set_alert True t r db, Inr ())" db])
    (auto simp: set_alert_configs)

lemma check_configs_alerts:
  "check_configs t snaps cfgs db = (db', alerts, res) \<Longrightarrow>
     set alerts \<subseteq> qc_ResourceType ` {c \<in> set cfgs. crosses snaps c}"
proof (induction cfgs arbitrary: db alerts)
  case (Cons cfg cfgs)
  show ?case
  proof (cases "crosses snaps cfg")
    case True
    from Cons.prems True consider "alerts = [qc_ResourceType cfg]"
      | db1 alerts1 where "check_configs t snaps cfgs db1 = (db', alerts1, res)"
        "alerts = qc_ResourceType cfg # alerts1"
      by (auto split: prod.splits sum.splits)
    then show ?thesis using True Cons.IH by cases fastforce+
  next
    case False
    then show ?thesis using Cons.IH [of db alerts] Cons.prems by auto
  qed
qed simp

text \<open>A check that fails leaves it open whether its last warning was marked.\<close>

definition marked :: "string list \<Rightarrow> 'e + 'a \<Rightarrow> string list" where
  "marked alerts res = (if isl res then butlast alerts else alerts)"

lemma check_configs_marked:
  assumes "check_configs t snaps cfgs db = (db', alerts, res)"
  shows "(\<exists>rs. set (marked alerts res) \<subseteq> rs \<and> quota_configs db' = alerted t rs (quota_configs db)) \<and>
    (\<not> isl res \<longrightarrow> set alerts = qc_ResourceType ` {c \<in> set cfgs. crosses snaps c})"
  using assms
proof (induction cfgs arbitrary: db alerts)
  case Nil
  then show ?case by (auto simp: marked_def intro: exI [of _ "{}"])
next
  case (Cons cfg cfgs)
  show ?case
  proof (cases "crosses snaps cfg")
    case True
    obtain db1 r1 where mark: "q_MarkSoftLimitAlertSent t (qc_ResourceType cfg) db = (db1, r1)" by fastforce
    show ?thesis
    proof (cases r1)
      case (Inl e)
      with Cons.prems True mark have "alerts = [qc_ResourceType cfg]" "isl res" "db' = db1" by auto
      with mark_effect [OF mark] show ?thesis by (auto simp: marked_def intro: exI [of _ "{}"])
    next
      case (Inr u)
      with Cons.prems True mark obtain alerts1 where
        rest: "check_configs t snaps cfgs db1 = (db', alerts1, res)"
        and alerts: "alerts = qc_ResourceType cfg # alerts1"
        by (auto split: prod.splits)
      have here: "quota_configs db1 = alerted t {qc_ResourceType cfg} (quota_configs db)"
        using mark_effect [OF mark] Inr by simp
      note IH = Cons.IH [OF rest]
      obtain rs where rs: "set (marked alerts1 res) \<subseteq> rs" "quota_configs db' = alerted t rs (quota_configs db1)"
        using IH by blast
      have "set (marked alerts res) \<subseteq> rs \<union> {qc_ResourceType cfg}"
        using rs(1) by (auto simp: marked_def alerts split: if_splits)
      with rs(2) here IH True show ?thesis by (auto simp: alerted_alerted alerts)
    qed
  next
    case False
    then show ?thesis using Cons.IH [of db alerts] Cons.prems by auto
  qed
qed

lemma check_configs_distinct:
  "check_configs t snaps cfgs db = (db', alerts, res) \<Longrightarrow> distinct (map qc_ResourceType cfgs) \<Longrightarrow> distinct alerts"
proof (induction cfgs arbitrary: db alerts)
  case (Cons cfg cfgs)
  show ?case
  proof (cases "crosses snaps cfg")
    case True
    from Cons.prems(1) True consider "alerts = [qc_ResourceType cfg]"
      | db1 alerts1 where "check_configs t snaps cfgs db1 = (db', alerts1, res)"
        "alerts = qc_ResourceType cfg # alerts1"
      by (auto split: prod.splits sum.splits)
    then show ?thesis
    proof cases
      case 2
      with check_configs_alerts [OF 2(1)] Cons show ?thesis by auto
    qed simp
  qed (use Cons in auto)
qed simp

lemma CheckSoftLimits_configs:
  assumes "CheckSoftLimits parse input db = (db', alerts, res)" and "parse (cs_TenantID input) = Inr t"
  obtains "alerts = []" "isl res"
  | db1 where "quota_configs db1 = quota_configs db"
    "check_configs t (cs_Snapshots input) (filter (\<lambda>c. qc_TenantID c = t) (quota_configs db)) db1 = (db', alerts, res)"
proof -
  let ?body = "\<lambda>db. Inr (filter (\<lambda>c. qc_TenantID c = t) (quota_configs db)) :: QuotaConfig list result"
  obtain db1 r1 where q: "query ?body db = (db1, r1)" by fastforce
  show ?thesis
  proof (cases r1)
    case (Inl e)
    then show ?thesis
      using that(1) assms q by (auto simp: CheckSoftLimits_def q_ListQuotaConfigsByTenant_def)
  next
    case (Inr cfgs)
    then obtain os where "db1 = db\<lparr>pg_script := os\<rparr>" "cfgs = filter (\<lambda>c. qc_TenantID c = t) (quota_configs db)"
      using q by (auto elim!: query_Inr)
    then show ?thesis
      using that(2) [of db1] assms q Inr by (simp add: CheckSoftLimits_def q_ListQuotaConfigsByTenant_def)
  qed
qed

text \<open>The alert of a tenant and resource is recorded as sent, and the attempts that withdraw it.\<close>

definition alert_sent :: "bytes16 \<Rightarrow> string \<Rightarrow> pg \<Rightarrow> bool" where
  "alert_sent t r db \<longleftrightarrow>
     (\<forall>c \<in> set (quota_configs db). qc_TenantID c = t \<and> qc_ResourceType c = r \<longrightarrow> qc_SoftLimitAlertSent c)"

fun resets :: "uuid_parser \<Rightarrow> bytes16 \<Rightarrow> string \<Rightarrow> pg_attempt \<Rightarrow> bool" where
  "resets parse t r (ResetAttempt i) \<longleftrightarrow> parse (rs_TenantID i) = Inr t \<and> rs_ResourceType i = r"
| "resets parse t r _ \<longleftrightarrow> False"

lemma alert_sent_script [simp]: "alert_sent t r (db\<lparr>pg_script := os\<rparr>) = alert_sent t r db"
  by (simp add: alert_sent_def)

lemma set_alert_sent:
  "alert_sent t r db \<Longrightarrow> b \<or> t' \<noteq> t \<or> r' \<noteq> r \<Longrightarrow> alert_sent t r (set_alert b t' r' db)"
  by (auto simp: alert_sent_def set_alert_def update_where_set split: if_splits)

lemma configs_kept:
  "quota_configs (fst (q_InsertTenant t n b db)) = quota_configs db"
  "quota_configs (fst (q_InsertCluster c t p r db)) = quota_configs db"
  "quota_configs (fst (q_InsertTBAccountMapping t r a i db)) = quota_configs db"
  "quota_configs (fst (q_UpsertQuotaSnapshot t r x y z db)) = quota_configs db"
  "quota_configs (fst (q_InsertCreditAdjustment t r x y' i db)) = quota_configs db"
  "quota_configs (fst (q_UpdateClusterStatus c r db)) = quota_configs db"
  "quota_configs (fst (q_DeregisterCluster c db)) = quota_configs db"
  "quota_configs (fst (q_DeleteTenant t db)) = quota_configs db"
  unfolding q_InsertTenant_def q_InsertCluster_def q_InsertTBAccountMapping_def q_UpsertQuotaSnapshot_def
    q_InsertCreditAdjustment_def q_UpdateClusterStatus_def q_DeregisterCluster_def q_DeleteTenant_def
  by (rule statement_frame; simp add: upsert_snapshot_def Let_def split: option.split)+

lemma alert_sent_mark:
  "alert_sent t r db \<Longrightarrow> alert_sent t r (fst (q_MarkSoftLimitAlertSent t' r' db))"
  unfolding q_MarkSoftLimitAlertSent_def
  by (rule statement_invariant [where P = "alert_sent t r"]) (simp_all add: set_alert_sent)

interpretation alert_kept: pg_frame "alert_sent t r" for t r
  by unfold_locales (simp_all add: alert_sent_mark, simp_all add: alert_sent_def configs_kept)

lemma alert_sent_attempts:
  assumes "\<forall>a \<in> set attempts. \<not> resets parse t r a" "alert_sent t r db"
  shows "alert_sent t r (fold (run_pg_attempt parse) attempts db)"
  using assms
proof (induction attempts arbitrary: db)
  case (Cons a attempts)
  have "alert_sent t r (run_pg_attempt parse a db)"
  proof (cases "\<exists>i. a = ResetAttempt i")
    case True
    then obtain i where a: "a = ResetAttempt i" by blast
    have "alert_sent t r (fst (q_ResetSoftLimitAlert t' (rs_ResourceType i) db))"
      if "parse (rs_TenantID i) = Inr t'" for t'
      unfolding q_ResetSoftLimitAlert_def
      by (rule statement_invariant [where P = "alert_sent t r"])
         (use Cons.prems a that in \<open>auto intro: set_alert_sent\<close>)
    with a Cons.prems(2) show ?thesis by (simp add: ResetSoftLimitAlert_def with_uuid_def split: sum.split)
  next
    case False
    then show ?thesis using Cons.prems(2) by (rule alert_kept.attempt_frame)
  qed
  with Cons show ?case by simp
qed simp

lemma check_sent:
  assumes "CheckSoftLimits parse input db = (db1, alerts, res)" "parse (cs_TenantID input) = Inr t"
    "r \<in> set (marked alerts res)"
  shows "alert_sent t r db1"
proof (cases rule: CheckSoftLimits_configs [OF assms(1,2)])
  case 1
  then show ?thesis using assms(3) by (simp add: marked_def)
next
  case (2 db0)
  then obtain rs where rs: "set (marked alerts res) \<subseteq> rs" "quota_configs db1 = alerted t rs (quota_configs db)"
    using check_configs_marked [OF 2(2)] by auto
  show ?thesis
    unfolding alert_sent_def rs(2) using rs(1) assms(3) alerted_sent by blast
qed


section \<open>Inserts under retries\<close>

lemma inserted_again:
  assumes "parse (it_TenantID input) = Inr t" and "tenant_exists t db"
    and "with_retries n (InsertTenant parse input) db = (db', res)"
  shows "isl res \<and> tenants db' = tenants db"
proof -
  have step: "tenants (fst (InsertTenant parse input s)) = tenants db \<and> isl (snd (InsertTenant parse input s))"
    if "tenants s = tenants db" for s
  proof -
    have "tenant_exists t (s\<lparr>pg_script := os\<rparr>)" for os
      using assms(2) that by (simp add: tenant_exists_def)
    note ex = this
    obtain os e where "q_InsertTenant t (it_Name input) (it_BillingTier input) s = (s\<lparr>pg_script := os\<rparr>, Inl e)"
      unfolding q_InsertTenant_def by (rule statement_failing [rotated]) (auto simp: ex)
    then show ?thesis
      using assms(1) that by (simp add: InsertTenant_def with_uuid_def drop_value_def)
  qed
  have "\<exists>s0. tenants s0 = tenants db \<and> InsertTenant parse input s0 = (db', res)"
    using step by (intro with_retries_last [OF assms(3)]) (auto simp: prod_eq_iff)
  then show ?thesis using step by force
qed

section \<open>The account mapping\<close>

text \<open>The account identifier recorded for a tenant and resource; the first one written stays.\<close>

definition quota_mapping :: "bytes16 \<Rightarrow> string \<Rightarrow> TbAccountID \<Rightarrow> bool" where
  "quota_mapping t r a \<longleftrightarrow> ta_TenantID a = t \<and> ta_ResourceType a = r \<and> ta_AccountType a = ''tenant_quota''"

definition mapped_account :: "pg \<Rightarrow> bytes16 \<times> string \<Rightarrow> byte list option" where
  "mapped_account db k =
     map_option ta_TbAccountID (find (quota_mapping (fst k) (snd k)) (tb_account_ids db))"

definition first_wins :: "bytes16 \<Rightarrow> byte list option \<Rightarrow> byte list option" where
  "first_wins i w = (case w of None \<Rightarrow> Some (le_bytes 16 i) | Some b \<Rightarrow> Some b)"

lemma mapped_account_script [simp]: "mapped_account (db\<lparr>pg_script := os\<rparr>) = mapped_account db"
  by (simp add: mapped_account_def fun_eq_iff)

lemma mapping_effect:
  assumes "q_InsertTBAccountMapping t r ''tenant_quota'' (le_bytes 16 i) db = (db', res)"
  shows "mapped_account db' = (mapped_account db)((t, r) := first_wins i (mapped_account db (t, r))) \<or>
    isl res \<and> mapped_account db' = mapped_account db"
  using assms unfolding q_InsertTBAccountMapping_def quota_mapping_def [symmetric]
proof (rule statement_effect, goal_cases)
  case (1 db db' res)
  show ?case
  proof (cases "\<exists>a \<in> set (tb_account_ids db). quota_mapping t r a")
    case True
    then have "mapped_account db (t, r) \<noteq> None" by (auto simp: mapped_account_def find_None_iff)
    then show ?thesis
      using True 1 by (auto simp: account_types_def first_wins_def fun_eq_iff split: option.split)
  next
    case False
    then have "find (quota_mapping t r) (tb_account_ids db) = None" by (auto simp: find_None_iff)
    with False 1 show ?thesis
      by (auto simp: account_types_def mapped_account_def first_wins_def quota_mapping_def fun_eq_iff
          find_snoc split: option.split if_splits)
  qed
qed simp

interpretation mapping_rows: row_writer mapped_account "Pair t" first_wins
  "\<lambda>(resourceType, i) db. wrap_error (''InsertTBAccountMapping '' @ resourceType)
     (q_InsertTBAccountMapping t resourceType ''tenant_quota'' (le_bytes 16 i) db)" for t
proof (unfold_locales, goal_cases)
  case (3 r i db db' res)
  then obtain res1 where q: "q_InsertTBAccountMapping t r ''tenant_quota'' (le_bytes 16 i) db = (db', res1)"
    and "isl res1 = isl res"
    by (auto dest: wrap_errorD)
  then show ?case using mapping_effect [OF q] by simp
qed (simp_all add: first_wins_def split: option.split)

lemma mapping_retried:
  assumes "with_retries n (InsertTBAccountMapping parse input) db = (db', Inr ())"
    and "parse (im_TenantID input) = Inr t" and "distinct (map fst (im_AccountMap input))"
  shows "mapped_account db' (t', r) =
    (case map_of (im_AccountMap input) r of
       None \<Rightarrow> mapped_account db (t', r)
     | Some i \<Rightarrow> if t' = t then first_wins i (mapped_account db (t, r)) else mapped_account db (t', r))"
proof -
  have "InsertTBAccountMapping parse input = foreach (\<lambda>(resourceType, i) db.
     wrap_error (''InsertTBAccountMapping '' @ resourceType)
       (q_InsertTBAccountMapping t resourceType ''tenant_quota'' (le_bytes 16 i) db)) (im_AccountMap input)"
    by (simp add: InsertTBAccountMapping_def with_uuid_def assms(2) fun_eq_iff)
  then have "mapping_rows.after_all t (im_AccountMap input) (mapped_account db) (mapped_account db')"
    using assms(1,3) by (intro mapping_rows.retried) simp_all
  then show ?thesis
    unfolding mapping_rows.after_all_def by (cases "t' = t") (auto split: option.splits)
qed

text \<open>
  Recording the account mapping is idempotent under retries: when \<open>InsertTBAccountMapping\<close>
  returns, every resource of the input that had no recorded account has the 16 bytes of the given
  one, an account recorded earlier stays, and nothing else changes.
\<close>

lemma mapping_retry_exact:
  assumes "with_retries n (InsertTBAccountMapping parse input) db = (db', Inr ())"
    and "parse (im_TenantID input) = Inr t" and "distinct (map fst (im_AccountMap input))"
  shows "mapped_account db' (t', r) =
    (case map_of (im_AccountMap input) r of
       None \<Rightarrow> mapped_account db (t', r)
     | Some i \<Rightarrow> if t' = t then first_wins i (mapped_account db (t, r)) else mapped_account db (t', r))"
  by (rule mapping_retried [OF assms])

section \<open>The tables under any sequence of attempts\<close>


text \<open>Where a row can come from: it was there before, or an attempt asked for exactly this row.\<close>

definition tenant_from :: "uuid_parser \<Rightarrow> pg_attempt set \<Rightarrow> pg \<Rightarrow> Tenant \<Rightarrow> bool" where
  "tenant_from parse A db0 x \<longleftrightarrow>
     ((\<exists>y \<in> set (tenants db0). t_ID x = t_ID y \<and> t_Name x = t_Name y \<and> t_BillingTier x = t_BillingTier y \<and>
         (t_DeletedAt x = t_DeletedAt y \<or> (\<exists>i. DeleteTenantAttempt i \<in> A \<and> parse i = Inr (t_ID x)))) \<or>
      (\<exists>i. TenantAttempt i \<in> A \<and> parse (it_TenantID i) = Inr (t_ID x) \<and> t_Name x = it_Name i \<and>
         t_BillingTier x = it_BillingTier i \<and>
         (t_DeletedAt x = None \<or> (\<exists>i. DeleteTenantAttempt i \<in> A \<and> parse i = Inr (t_ID x)))))"

definition status_asked :: "uuid_parser \<Rightarrow> pg_attempt set \<Rightarrow> WorkloadCluster \<Rightarrow> bool" where
  "status_asked parse A x \<longleftrightarrow>
     (\<exists>i. ClusterStatusAttempt i \<in> A \<and> parse (uc_ClusterID i) = Inr (wc_ID x) \<and> uc_Status i = wc_Status x) \<or>
     (\<exists>i. DeregisterAttempt i \<in> A \<and> parse i = Inr (wc_ID x) \<and> wc_Status x = ''deregistered'')"

definition cluster_from :: "uuid_parser \<Rightarrow> pg_attempt set \<Rightarrow> pg \<Rightarrow> WorkloadCluster \<Rightarrow> bool" where
  "cluster_from parse A db0 x \<longleftrightarrow>
     ((\<exists>y \<in> set (workload_clusters db0). wc_ID x = wc_ID y \<and> wc_TenantID x = wc_TenantID y \<and>
         wc_CloudProvider x = wc_CloudProvider y \<and> wc_Region x = wc_Region y \<and>
         (wc_Status x = wc_Status y \<or> status_asked parse A x)) \<or>
      (\<exists>i. ClusterAttempt i \<in> A \<and> parse (ic_ClusterID i) = Inr (wc_ID x) \<and>
         parse (ic_TenantID i) = Inr (wc_TenantID x) \<and> wc_CloudProvider x = ic_CloudProvider i \<and>
         wc_Region x = ic_Region i \<and> (wc_Status x = ''healthy'' \<or> status_asked parse A x)))"

definition mapping_from :: "uuid_parser \<Rightarrow> pg_attempt set \<Rightarrow> pg \<Rightarrow> TbAccountID \<Rightarrow> bool" where
  "mapping_from parse A db0 x \<longleftrightarrow> x \<in> set (tb_account_ids db0) \<or>
     (\<exists>i b. MappingAttempt i \<in> A \<and> parse (im_TenantID i) = Inr (ta_TenantID x) \<and>
        (ta_ResourceType x, b) \<in> set (im_AccountMap i) \<and> ta_AccountType x = ''tenant_quota'' \<and>
        ta_TbAccountID x = le_bytes 16 b)"

definition snapshot_from :: "uuid_parser \<Rightarrow> pg_attempt set \<Rightarrow> pg \<Rightarrow> QuotaSnapshot \<Rightarrow> bool" where
  "snapshot_from parse A db0 x \<longleftrightarrow> x \<in> set (quota_snapshots db0) \<or>
     (\<exists>i d. SnapshotsAttempt i \<in> A \<and> parse (us_TenantID i) = Inr (sn_TenantID x) \<and>
        (sn_ResourceType x, d) \<in> set (us_Snapshots i) \<and> sn_CreditsTotal x = CreditsTotal d \<and>
        sn_DebitsPosted x = qs_DebitsPosted d \<and> sn_DebitsPending x = qs_DebitsPending d \<and>
        sn_Available x = available (CreditsTotal d) (qs_DebitsPosted d) (qs_DebitsPending d))"

definition adjustment_from :: "uuid_parser \<Rightarrow> pg_attempt set \<Rightarrow> pg \<Rightarrow> CreditAdjustment \<Rightarrow> bool" where
  "adjustment_from parse A db0 x \<longleftrightarrow> x \<in> set (credit_adjustments db0) \<or>
     (\<exists>i. AdjustmentAttempt i \<in> A \<and> parse (ia_TenantID i) = Inr (ca_TenantID x) \<and>
        ca_ResourceType x = ia_ResourceType i \<and> ca_Amount x = ia_Amount i \<and>
        ca_Reason x = (if ia_Reason i = [] then None else Some (ia_Reason i)) \<and>
        ca_TbTransferID x = le_bytes 16 (ia_TransferID i))"

definition written :: "uuid_parser \<Rightarrow> pg_attempt set \<Rightarrow> pg \<Rightarrow> pg \<Rightarrow> bool" where
  "written parse A db0 db \<longleftrightarrow>
     (\<forall>x \<in> set (tenants db). tenant_from parse A db0 x) \<and>
     (\<forall>x \<in> set (workload_clusters db). cluster_from parse A db0 x) \<and>
     (\<forall>x \<in> set (tb_account_ids db). mapping_from parse A db0 x) \<and>
     (\<forall>x \<in> set (quota_snapshots db). snapshot_from parse A db0 x) \<and>
     (\<forall>x \<in> set (credit_adjustments db). adjustment_from parse A db0 x) \<and>
     tb_global_account_ids db = tb_global_account_ids db0 \<and>
     map (\<lambda>c. c\<lparr>qc_SoftLimitAlertSent := False\<rparr>) (quota_configs db) =
       map (\<lambda>c. c\<lparr>qc_SoftLimitAlertSent := False\<rparr>) (quota_configs db0)"

lemma written_script [simp]: "written parse A db0 (db\<lparr>pg_script := os\<rparr>) = written parse A db0 db"
  by (simp add: written_def)

lemma written_statement:
  "written parse A db0 db \<Longrightarrow> (\<And>db. written parse A db0 db \<Longrightarrow> written parse A db0 (fst (body db))) \<Longrightarrow>
     written parse A db0 (fst (statement body db))"
  by (rule statement_invariant [where P = "written parse A db0"]) simp_all

lemma written_refl: "written parse A db db"
  by (auto simp: written_def tenant_from_def cluster_from_def mapping_from_def snapshot_from_def adjustment_from_def)

lemma written_tenant:
  assumes "written parse A db0 db" "TenantAttempt i \<in> A"
  shows "written parse A db0 (fst (InsertTenant parse i db))"
  using assms
  by (auto simp: InsertTenant_def with_uuid_def q_InsertTenant_def split: sum.splits intro!: written_statement)
     (auto simp: written_def tenant_from_def Let_def)

lemma written_cluster:
  assumes "written parse A db0 db" "ClusterAttempt i \<in> A"
  shows "written parse A db0 (fst (InsertCluster parse i db))"
  using assms
  by (auto simp: InsertCluster_def with_uuid_def q_InsertCluster_def split: sum.splits intro!: written_statement)
     (auto simp: written_def cluster_from_def Let_def)

lemma written_mapping_row:
  assumes "written parse A db0 db" "MappingAttempt i \<in> A" "parse (im_TenantID i) = Inr t"
    "(r, b) \<in> set (im_AccountMap i)"
  shows "written parse A db0 (fst (q_InsertTBAccountMapping t r ''tenant_quota'' (le_bytes 16 b) db))"
proof -
  have new: "mapping_from parse A db0 \<lparr>ta_TenantID = t, ta_ResourceType = r, ta_AccountType = ''tenant_quota'',
      ta_TbAccountID = le_bytes 16 b, ta_CreatedAt = now\<rparr>" for now
    unfolding mapping_from_def using assms(2-4) by force
  show ?thesis
    unfolding q_InsertTBAccountMapping_def
    by (rule written_statement [OF assms(1)]) (auto simp: written_def new)
qed

lemma written_mapping:
  assumes "written parse A db0 db" "MappingAttempt i \<in> A"
  shows "written parse A db0 (fst (InsertTBAccountMapping parse i db))"
proof (cases "parse (im_TenantID i)")
  case (Inr t)
  have row: "written parse A db0 (fst (q_InsertTBAccountMapping t r ''tenant_quota'' (le_bytes 16 b) db))"
    if "(r, b) \<in> set (im_AccountMap i)" "written parse A db0 db" for r b db
    using that assms(2) Inr by (intro written_mapping_row)
  show ?thesis
    unfolding InsertTBAccountMapping_def with_uuid_def Inr sum.case
    by (rule foreach_invariant [where I = "written parse A db0"]) (use row assms(1) in \<open>auto split: prod.split\<close>)
qed (simp add: InsertTBAccountMapping_def with_uuid_def assms(1))

lemma written_upsert:
  assumes "written parse A db0 db" "SnapshotsAttempt i \<in> A" "parse (us_TenantID i) = Inr t"
    "(r, d) \<in> set (us_Snapshots i)"
  shows "written parse A db0
    (fst (upsert_snapshot t r (CreditsTotal d) (qs_DebitsPosted d) (qs_DebitsPending d) db))"
proof -
  have new: "snapshot_from parse A db0 \<lparr>sn_TenantID = t, sn_ResourceType = r, sn_CreditsTotal = CreditsTotal d,
      sn_DebitsPosted = qs_DebitsPosted d, sn_DebitsPending = qs_DebitsPending d,
      sn_Available = Some a, sn_SnapshotAt = now\<rparr>"
    if "available (CreditsTotal d) (qs_DebitsPosted d) (qs_DebitsPending d) = Some a" for a now
    unfolding snapshot_from_def using assms(2-4) that by force
  show ?thesis
    using assms(1)
    by (auto simp: upsert_snapshot_def written_def update_where_set Let_def new split: option.splits)
qed

lemma written_snapshots:
  assumes "written parse A db0 db" "SnapshotsAttempt i \<in> A"
  shows "written parse A db0 (fst (UpdateQuotaSnapshots parse i db))"
proof (cases "parse (us_TenantID i)")
  case (Inr t)
  have row: "written parse A db0 (fst (q_UpsertQuotaSnapshot t r (CreditsTotal d) (qs_DebitsPosted d)
      (qs_DebitsPending d) db))" if "(r, d) \<in> set (us_Snapshots i)" "written parse A db0 db" for r d db
    unfolding q_UpsertQuotaSnapshot_def
    by (rule written_statement [OF that(2)]) (rule written_upsert [where i = i], simp_all add: assms(2) Inr that(1))
  show ?thesis
    unfolding UpdateQuotaSnapshots_def with_uuid_def Inr sum.case
    by (rule foreach_invariant [where I = "written parse A db0"]) (use row assms(1) in \<open>auto split: prod.split\<close>)
qed (simp add: UpdateQuotaSnapshots_def with_uuid_def assms(1))

lemma written_adjustment:
  assumes "written parse A db0 db" "AdjustmentAttempt i \<in> A"
  shows "written parse A db0 (fst (InsertCreditAdjustment parse i db))"
  using assms
  by (auto simp: InsertCreditAdjustment_def with_uuid_def q_InsertCreditAdjustment_def split: sum.splits
      intro!: written_statement)
     (auto simp: written_def adjustment_from_def Let_def)

lemma written_alert:
  "written parse A db0 db \<Longrightarrow> written parse A db0 (set_alert b t r db)"
  by (auto simp: written_def set_alert_def update_where_def comp_def if_distrib cong: if_cong)

lemma written_mark: "written parse A db0 db \<Longrightarrow> written parse A db0 (fst (q_MarkSoftLimitAlertSent t r db))"
  unfolding q_MarkSoftLimitAlertSent_def by (rule written_statement) (simp_all add: written_alert)

lemma written_checks: "written parse A db0 db \<Longrightarrow> written parse A db0 (fst (check_configs t snaps cfgs db))"
proof (induction cfgs arbitrary: db)
  case (Cons cfg cfgs)
  from Cons.IH [OF Cons.prems] Cons.IH [OF written_mark [OF Cons.prems, of t "qc_ResourceType cfg"]]
    written_mark [OF Cons.prems, of t "qc_ResourceType cfg"]
  show ?case by (auto split: prod.splits sum.splits)
qed simp

lemma written_soft_limits:
  assumes "written parse A db0 db"
  shows "written parse A db0 (fst (CheckSoftLimits parse i db))"
proof (cases "parse (cs_TenantID i)")
  case (Inr t)
  obtain db' r where q: "q_ListQuotaConfigsByTenant t db = (db', r)" by fastforce
  have "written parse A db0 (fst (q_ListQuotaConfigsByTenant t db))"
    unfolding q_ListQuotaConfigsByTenant_def query_def by (rule written_statement [OF assms]) simp
  with Inr q show ?thesis by (cases r) (simp_all add: CheckSoftLimits_def written_checks)
qed (simp add: CheckSoftLimits_def assms)

lemma written_reset:
  "written parse A db0 db \<Longrightarrow> written parse A db0 (fst (ResetSoftLimitAlert parse i db))"
  by (auto simp: ResetSoftLimitAlert_def with_uuid_def q_ResetSoftLimitAlert_def split: sum.splits
      intro!: written_statement written_alert)

lemma cluster_from_status:
  assumes "cluster_from parse A db0 y" "status_asked parse A (y\<lparr>wc_Status := st, wc_DeregisteredAt := d\<rparr>)"
  shows "cluster_from parse A db0 (y\<lparr>wc_Status := st, wc_DeregisteredAt := d\<rparr>)"
  using assms by (auto simp: cluster_from_def)

lemma tenant_from_deleted:
  assumes "tenant_from parse A db0 y" "DeleteTenantAttempt k \<in> A" "parse k = Inr (t_ID y)"
  shows "tenant_from parse A db0 (y\<lparr>t_Status := st, t_DeletedAt := d\<rparr>)"
  using assms by (auto simp: tenant_from_def)

lemma written_clusters:
  assumes "written parse A db0 db" "\<And>y. cluster_from parse A db0 y \<Longrightarrow> p y \<Longrightarrow> cluster_from parse A db0 (f y)"
  shows "written parse A db0 (db\<lparr>workload_clusters := update_where p f (workload_clusters db)\<rparr>)"
  using assms by (auto simp: written_def update_where_set)

lemma written_status:
  assumes "written parse A db0 db" "ClusterStatusAttempt i \<in> A"
  shows "written parse A db0 (fst (UpdateClusterStatus parse i db))"
proof (cases "parse (uc_ClusterID i)")
  case (Inr c)
  have st: "cluster_from parse A db0 (y\<lparr>wc_Status := uc_Status i\<rparr>)" if "cluster_from parse A db0 y" "wc_ID y = c" for y
    using cluster_from_status [OF that(1), where st = "uc_Status i" and d = "wc_DeregisteredAt y"] that(2) assms(2) Inr
    by (auto simp: status_asked_def)
  have "written parse A db0 (fst (q_UpdateClusterStatus c (uc_Status i) db))"
    unfolding q_UpdateClusterStatus_def
    by (rule written_statement [OF assms(1)]) (auto intro!: written_clusters st)
  with Inr show ?thesis by (simp add: UpdateClusterStatus_def with_uuid_def)
qed (simp add: UpdateClusterStatus_def with_uuid_def assms(1))

lemma written_deregister:
  assumes "written parse A db0 db" "DeregisterAttempt i \<in> A"
  shows "written parse A db0 (fst (DeregisterCluster parse i db))"
proof (cases "parse i")
  case (Inr c)
  have "written parse A db0 (fst (q_DeregisterCluster c db))"
    unfolding q_DeregisterCluster_def
    by (rule written_statement [OF assms(1)])
       (use assms(2) Inr in \<open>auto intro!: written_clusters cluster_from_status simp: status_asked_def\<close>)
  with Inr show ?thesis by (simp add: DeregisterCluster_def with_uuid_def)
qed (simp add: DeregisterCluster_def with_uuid_def assms(1))

lemma written_delete:
  assumes "written parse A db0 db" "DeleteTenantAttempt i \<in> A"
  shows "written parse A db0 (fst (DeleteTenant parse i db))"
proof (cases "parse i")
  case (Inr t)
  have "written parse A db0 (fst (q_DeleteTenant t db))"
    unfolding q_DeleteTenant_def
    by (rule written_statement [OF assms(1)])
       (use assms(2) Inr in \<open>auto simp: written_def update_where_set intro!: tenant_from_deleted\<close>)
  with Inr show ?thesis by (simp add: DeleteTenant_def with_uuid_def)
qed (simp add: DeleteTenant_def with_uuid_def assms(1))

lemma written_attempt:
  "written parse A db0 db \<Longrightarrow> a \<in> A \<Longrightarrow> written parse A db0 (run_pg_attempt parse a db)"
  by (cases a) (simp_all add: written_tenant written_cluster written_mapping written_snapshots written_adjustment
      written_soft_limits written_reset written_status written_deregister written_delete)

text \<open>
  C26. The database holds what was asked for and nothing else: after any sequence of activity
  attempts, in any order, with failures and lost answers anywhere, every row of every table was
  there before or is the row one of the attempts asked for, with the identifiers of that
  attempt in their own columns: tenants with their name and tier, clusters with their tenant,
  provider and region, wallet accounts with the bytes given for that tenant and resource,
  snapshots with the given balances and the available column computed from them, adjustments with
  their amount, reason and transfer.  A tenant is deleted only if an attempt deletes that tenant,
  a cluster's status is the initial one or one an attempt set for that cluster, no configuration
  changes except for its alert flag, and the global accounts do not change.
\<close>

theorem activities_write_as_asked: "written parse (set attempts) db (fold (run_pg_attempt parse) attempts db)"
proof -
  have "written parse A db (fold (run_pg_attempt parse) as db')" if "set as \<subseteq> A" "written parse A db db'" for A as db'
    using that by (induction as arbitrary: db') (simp_all add: written_attempt)
  then show ?thesis using written_refl by blast
qed

section \<open>A concrete database\<close>

definition demo_parse :: uuid_parser where
  "demo_parse s = (if s = ''t'' then Inr 7 else Inl (Msg ''invalid UUID length''))"

definition demo_config :: QuotaConfig where
  "demo_config = \<lparr>qc_TenantID = 7, qc_ResourceType = ''cpu_hours'', qc_BasePlanID = None, qc_HardLimit = 100,
     qc_SoftLimit = Some 80, qc_BurstCredits = 0, qc_BillingPeriod = ''monthly'', qc_SoftLimitAlertSent = False\<rparr>"

definition demo_pg :: "outcome list \<Rightarrow> pg" where
  "demo_pg script =
     \<lparr>tenants = [\<lparr>t_ID = 7, t_Name = ''acme'', t_BillingTier = ''pro'', t_Status = ''active'', t_CreatedAt = 0,
                  t_DeletedAt = None\<rparr>],
      workload_clusters = [], quota_configs = [demo_config], tb_account_ids = [],
      tb_global_account_ids = [], quota_snapshots = [], credit_adjustments = [], pg_now = 5,
      pg_random = of_nat, pg_drawn = 0, pg_script = script\<rparr>"

definition demo_balance :: QuotaSnapshotData where
  "demo_balance = \<lparr>CreditsTotal = 100, qs_DebitsPosted = 60, qs_DebitsPending = 25\<rparr>"

text \<open>Two resources; the first attempt writes one row and loses the answer of the other.\<close>

definition demo_snapshots :: UpdateQuotaSnapshotsInput where
  "demo_snapshots = \<lparr>us_TenantID = ''t'', us_TenantUUID = 7,
     us_Snapshots = [(''cpu_hours'', demo_balance), (''active_nodes'', demo_balance)]\<rparr>"

definition demo_mapping :: InsertTBAccountMappingInput where
  "demo_mapping = \<lparr>im_TenantID = ''t'', im_AccountMap = [(''cpu_hours'', 300), (''active_nodes'', 301)]\<rparr>"

lemmas demo_pg_defs = demo_parse_def demo_config_def demo_pg_def demo_balance_def demo_snapshots_def
  demo_mapping_def with_uuid_def statement_def wrap_error_def tenant_exists_def

lemma demo_available: "available 100 60 25 = Some 15"
  by (simp add: available_def bigint_def)

lemma demo_snapshots_run:
  "\<exists>db'. with_retries 1 (UpdateQuotaSnapshots demo_parse demo_snapshots)
     (demo_pg [Answered, AnswerLost ErrCanceled]) = (db', Inr ())"
  by (simp add: demo_pg_defs UpdateQuotaSnapshots_def q_UpsertQuotaSnapshot_def upsert_snapshot_def
      demo_available snapshot_key_def update_where_def)

theorem snapshots_retry_exact_witness:
  "\<exists>db'. with_retries 1 (UpdateQuotaSnapshots demo_parse demo_snapshots)
      (demo_pg [Answered, AnswerLost ErrCanceled]) = (db', Inr ()) \<and>
    pg_snapshot db' (7, ''cpu_hours'') = shown demo_balance"
proof -
  obtain db' where run: "with_retries 1 (UpdateQuotaSnapshots demo_parse demo_snapshots)
      (demo_pg [Answered, AnswerLost ErrCanceled]) = (db', Inr ())"
    using demo_snapshots_run by blast
  moreover have "pg_snapshot db' (7, ''cpu_hours'') = shown demo_balance"
    using snapshots_retry_exact [OF run, of 7 7 "''cpu_hours''"]
    by (simp add: demo_parse_def demo_snapshots_def)
  ultimately show ?thesis by blast
qed

lemma demo_mapping_run:
  "\<exists>db'. with_retries 1 (InsertTBAccountMapping demo_parse demo_mapping)
     (demo_pg [Answered, AnswerLost ErrCanceled]) = (db', Inr ())"
  by (simp add: demo_pg_defs InsertTBAccountMapping_def q_InsertTBAccountMapping_def account_types_def)

lemma mapping_retry_exact_witness:
  "\<exists>db'. with_retries 1 (InsertTBAccountMapping demo_parse demo_mapping)
      (demo_pg [Answered, AnswerLost ErrCanceled]) = (db', Inr ()) \<and>
    mapped_account db' (7, ''active_nodes'') = Some (le_bytes 16 (301 :: bytes16))"
proof -
  obtain db' where run: "with_retries 1 (InsertTBAccountMapping demo_parse demo_mapping)
      (demo_pg [Answered, AnswerLost ErrCanceled]) = (db', Inr ())"
    using demo_mapping_run by blast
  moreover have "mapped_account db' (7, ''active_nodes'') = Some (le_bytes 16 (301 :: bytes16))"
    using mapping_retry_exact [OF run, of 7 7 "''active_nodes''"]
    by (simp add: demo_parse_def demo_mapping_def first_wins_def mapped_account_def demo_pg_def)
  ultimately show ?thesis by blast
qed

definition demo_check :: CheckSoftLimitsInput where
  "demo_check = \<lparr>cs_TenantID = ''t'', cs_Snapshots = [(''cpu_hours'', demo_balance)]\<rparr>"

lemma demo_check_run:
  "CheckSoftLimits demo_parse demo_check (demo_pg []) =
     (set_alert True 7 ''cpu_hours'' (demo_pg []), [''cpu_hours''], Inr ())"
  by (simp add: demo_pg_defs CheckSoftLimits_def demo_check_def q_ListQuotaConfigsByTenant_def query_def
      q_MarkSoftLimitAlertSent_def crosses_def)


definition demo_tenant :: InsertTenantInput where
  "demo_tenant = \<lparr>it_TenantID = ''t'', it_Name = ''acme'', it_BillingTier = ''pro''\<rparr>"

lemma demo_schema: "schema_ok (demo_pg script)"
  by (simp add: schema_ok_def table_defs demo_pg_def demo_config_def billing_tiers_def tenant_statuses_def)


end
