(* ===== verification/Accounting_Workflow.thy ===== *)
theory Accounting_Workflow
  imports PG_Activities
begin

text \<open>
  \<open>internal/accounting/workflow_accounting.go\<close>: the long-running workflow of one tenant.  The
  durable state is a record.  Activities are calls out of the workflow: \<open>activities\<close> is the
  record of what executing each one does to the outside world \<open>'w\<close> (Temporal is a parameter).
  \<open>flushBatch\<close> and \<open>flushAdjustment\<close> are cut at their first activity, because another handler
  may run while they wait; the two halves are composed into the whole handler here and are the
  steps of the interleaved machine in theory \<open>Workflow_Machine\<close>.
\<close>

section \<open>State and inputs\<close>

text \<open>Durations are nanoseconds.\<close>

definition Second :: int where "Second = 1000000000"

definition baseFlushInterval :: int where "baseFlushInterval = 2 * Second"
definition maxFlushInterval :: int where "maxFlushInterval = 60 * Second"
definition batchSizeThreshold :: nat where "batchSizeThreshold = 150"

record TenantAccountingState =
  st_TenantID :: string
  st_TenantUUID :: bytes16
  ProcessedSeqs :: "(string, uint64) gomap"
  AccountMap :: id_map
  st_GlobalOperatorIDs :: id_map
  st_GlobalSinkIDs :: id_map
  CurBatch :: "HeartbeatSignal list"
  LastAck :: uint64
  CurrentFlushInterval :: int
  PendingGaugeIDs :: nested_ids
  ExceededResources :: "(string, bool) gomap"
  FlushSeqNo :: uint64

record TenantAccountingInput =
  in_TenantID :: string
  in_TenantUUID :: bytes16
  in_AccountMap :: id_map
  in_GlobalOperatorIDs :: id_map
  in_GlobalSinkIDs :: id_map
  CarryProcessedSeqs :: "(string, uint64) gomap"
  CarryPendingGaugeIDs :: nested_ids
  CarryExceededResources :: "(string, bool) gomap"
  CarryLastAck :: uint64
  CarryFlushSeqNo :: uint64

definition initial_state :: "TenantAccountingInput \<Rightarrow> TenantAccountingState" where
  "initial_state input =
     \<lparr>st_TenantID = in_TenantID input, st_TenantUUID = in_TenantUUID input,
      ProcessedSeqs = CarryProcessedSeqs input, AccountMap = in_AccountMap input,
      st_GlobalOperatorIDs = in_GlobalOperatorIDs input, st_GlobalSinkIDs = in_GlobalSinkIDs input,
      CurBatch = [], LastAck = CarryLastAck input, CurrentFlushInterval = baseFlushInterval,
      PendingGaugeIDs = CarryPendingGaugeIDs input,
      ExceededResources = CarryExceededResources input, FlushSeqNo = CarryFlushSeqNo input\<rparr>"

definition continue_input :: "TenantAccountingState \<Rightarrow> TenantAccountingInput" where
  "continue_input st =
     \<lparr>in_TenantID = st_TenantID st, in_TenantUUID = st_TenantUUID st, in_AccountMap = AccountMap st,
      in_GlobalOperatorIDs = st_GlobalOperatorIDs st, in_GlobalSinkIDs = st_GlobalSinkIDs st,
      CarryProcessedSeqs = ProcessedSeqs st, CarryPendingGaugeIDs = PendingGaugeIDs st,
      CarryExceededResources = ExceededResources st, CarryLastAck = LastAck st,
      CarryFlushSeqNo = FlushSeqNo st\<rparr>"

section \<open>Activities as the workflow sees them\<close>

record 'w activities =
  act_SubmitTBBatch :: "TBBatchInput \<Rightarrow> 'w \<Rightarrow> 'w \<times> TBBatchResult result"
  act_SubmitAllocationTransfers :: "SubmitAllocationInput \<Rightarrow> 'w \<Rightarrow> 'w \<times> unit result"
  act_LookupAccountBalances :: "id_map \<Rightarrow> 'w \<Rightarrow> 'w \<times> (string, QuotaSnapshotData) gomap result"
  act_UpdateQuotaSnapshots :: "UpdateQuotaSnapshotsInput \<Rightarrow> 'w \<Rightarrow> 'w \<times> unit result"
  act_CheckSoftLimits :: "CheckSoftLimitsInput \<Rightarrow> 'w \<Rightarrow> 'w \<times> unit result"
  act_ResetSoftLimitAlert :: "ResetSoftLimitAlertInput \<Rightarrow> 'w \<Rightarrow> 'w \<times> unit result"

section \<open>flushBatch\<close>

text \<open>
  The identifiers of the new reservation and of the void, per cluster and gauge resource.  The
  inner maps of a cluster are created together, the first time the cluster is met.
\<close>

definition gauge_ids ::
    "hash \<Rightarrow> bytes16 \<Rightarrow> uint64 \<Rightarrow> HeartbeatSignal \<Rightarrow> ResourceType \<Rightarrow> (bytes16 \<times> bytes16) result" where
  "gauge_ids H tenantUUID seqNo hb r =
     (case LedgerID r of
        Inl e \<Rightarrow> Inl e
      | Inr l \<Rightarrow> Inr
          (Uint128ToBytes (DeriveGaugePendingID H tenantUUID seqNo (ClusterUUID hb) l),
           Uint128ToBytes (DeriveGaugeVoidID H tenantUUID seqNo (ClusterUUID hb) l)))"

fun derive_gauge_ids ::
    "hash \<Rightarrow> bytes16 \<Rightarrow> uint64 \<Rightarrow> (HeartbeatSignal \<times> ResourceType) list \<Rightarrow>
     nested_ids \<times> nested_ids \<Rightarrow> (nested_ids \<times> nested_ids) result" where
  "derive_gauge_ids H tenantUUID seqNo [] (pendings, voids) = Inr (pendings, voids)"
| "derive_gauge_ids H tenantUUID seqNo ((hb, r) # todo) (pendings, voids) =
     (if \<not> IsGauge r then derive_gauge_ids H tenantUUID seqNo todo (pendings, voids)
      else
        (case gauge_ids H tenantUUID seqNo hb r of
           Inl e \<Rightarrow> Inl e
         | Inr (p, v) \<Rightarrow>
             derive_gauge_ids H tenantUUID seqNo todo
               (update2 (ClusterID hb) r p pendings, update2 (ClusterID hb) r v voids)))"

text \<open>Up to the submission: the sequence number is taken first, then the input is built.\<close>

definition flush_begin :: "hash \<Rightarrow> TenantAccountingState \<Rightarrow> TenantAccountingState \<times> TBBatchInput result" where
  "flush_begin H st =
     (let st = st\<lparr>FlushSeqNo := FlushSeqNo st + 1\<rparr>; seqNo = FlushSeqNo st in
      (st,
       case derive_gauge_ids H (st_TenantUUID st) seqNo
              (concat (map (\<lambda>hb. map (\<lambda>r. (hb, r)) AllResources) (CurBatch st))) ([], []) of
         Inl e \<Rightarrow> Inl e
       | Inr (pendings, voids) \<Rightarrow> Inr
           \<lparr>bi_TenantID = st_TenantID st, bi_TenantUUID = st_TenantUUID st,
            bi_AccountMap = \<lparr>OperatorIDs = [], TenantQuotaIDs = AccountMap st, SinkIDs = []\<rparr>,
            bi_Heartbeats = CurBatch st, bi_GlobalOperatorIDs = st_GlobalOperatorIDs st,
            bi_GlobalSinkIDs = st_GlobalSinkIDs st, bi_PendingGaugeIDs = PendingGaugeIDs st,
            bi_NewGaugePendingIDs = pendings, bi_GaugeVoidIDs = voids\<rparr>))"

text \<open>The three loops that apply the result of a submission.\<close>

definition apply_exceeded ::
    "(string, ResourceBatchResult) gomap \<Rightarrow> (string, bool) gomap \<Rightarrow> (string, bool) gomap" where
  "apply_exceeded perResource exceeded =
     fold (\<lambda>(resourceType, rr) m.
       if rb_ExceedsCredits rr then AList.update resourceType True m
       else if rb_Accepted rr then AList.delete resourceType m
       else m) perResource exceeded"

definition apply_cluster_gauges :: "id_map \<Rightarrow> id_map \<Rightarrow> id_map" where
  "apply_cluster_gauges resources m =
     fold (\<lambda>(resource, i) m.
       if i = 0 then AList.delete resource m else AList.update resource i m) resources m"

definition apply_gauges :: "nested_ids \<Rightarrow> nested_ids \<Rightarrow> nested_ids" where
  "apply_gauges updates pending =
     fold (\<lambda>(clusterID, resources) m.
       AList.update clusterID
         (apply_cluster_gauges resources (case map_of m clusterID of None \<Rightarrow> [] | Some m' \<Rightarrow> m')) m)
       updates pending"

definition mark_processed ::
    "HeartbeatSignal \<Rightarrow> TenantAccountingState \<Rightarrow> TenantAccountingState" where
  "mark_processed hb st =
     st\<lparr>ProcessedSeqs :=
          (case map_of (ProcessedSeqs st) (ClusterID hb) of
             None \<Rightarrow> AList.update (ClusterID hb) (SequenceNumber hb) (ProcessedSeqs st)
           | Some prev \<Rightarrow>
               if SequenceNumber hb > prev
               then AList.update (ClusterID hb) (SequenceNumber hb) (ProcessedSeqs st)
               else ProcessedSeqs st),
        LastAck := (if SequenceNumber hb > LastAck st then SequenceNumber hb else LastAck st)\<rparr>"

definition flush_commit :: "TBBatchResult \<Rightarrow> TenantAccountingState \<Rightarrow> TenantAccountingState" where
  "flush_commit result st =
     (let st = st\<lparr>ExceededResources := apply_exceeded (PerResource result) (ExceededResources st)\<rparr>;
          st = st\<lparr>PendingGaugeIDs := apply_gauges (GaugeUpdates result) (PendingGaugeIDs st)\<rparr>;
          st = fold mark_processed (CurBatch st) st
      in st\<lparr>CurBatch := []\<rparr>)"

text \<open>After the commit: balances, snapshots and soft limits, none of them fatal.\<close>

definition snapshots_input ::
    "TenantAccountingState \<Rightarrow> (string, QuotaSnapshotData) gomap \<Rightarrow> UpdateQuotaSnapshotsInput" where
  "snapshots_input st balances =
     \<lparr>us_TenantID = st_TenantID st, us_TenantUUID = st_TenantUUID st, us_Snapshots = balances\<rparr>"

definition flush_project ::
    "'w activities \<Rightarrow> TenantAccountingState \<Rightarrow> 'w \<Rightarrow> 'w" where
  "flush_project acts st w =
     (case act_LookupAccountBalances acts (AccountMap st) w of
        (w1, Inl e) \<Rightarrow> w1
      | (w1, Inr balances) \<Rightarrow>
          fst (act_CheckSoftLimits acts \<lparr>cs_TenantID = st_TenantID st, cs_Snapshots = balances\<rparr>
                 (fst (act_UpdateQuotaSnapshots acts (snapshots_input st balances) w1))))"

definition flushBatch ::
    "hash \<Rightarrow> 'w activities \<Rightarrow> TenantAccountingState \<Rightarrow> 'w \<Rightarrow>
     TenantAccountingState \<times> 'w \<times> unit result" where
  "flushBatch H acts st w =
     (if CurBatch st = [] then (st, w, Inr ())
      else
        (case flush_begin H st of
           (st1, Inl e) \<Rightarrow> (st1, w, Inl e)
         | (st1, Inr input) \<Rightarrow>
           (case act_SubmitTBBatch acts input w of
              (w1, Inl e) \<Rightarrow> (st1, w1, Inl (Wrap ''SubmitTBBatch'' e))
            | (w1, Inr result) \<Rightarrow>
                (let st2 = flush_commit result st1 in (st2, flush_project acts st2 w1, Inr ())))))"

section \<open>flushAdjustment\<close>

definition adjust_begin ::
    "hash \<Rightarrow> QuotaAdjustmentSignal \<Rightarrow> TenantAccountingState \<Rightarrow>
     TenantAccountingState \<times> SubmitAllocationInput result" where
  "adjust_begin H sig st =
     (let st = st\<lparr>FlushSeqNo := FlushSeqNo st + 1\<rparr>; seqNo = FlushSeqNo st; r = adj_ResourceType sig in
      (st,
       case LedgerID r of
         Inl e \<Rightarrow> Inl e
       | Inr l \<Rightarrow> Inr
           \<lparr>ai_TenantUUID = st_TenantUUID st,
            ai_TenantQuotaIDs = [(r, case map_of (AccountMap st) r of None \<Rightarrow> 0 | Some b \<Rightarrow> b)],
            ai_GlobalOperatorIDs = [(r, case map_of (st_GlobalOperatorIDs st) r of None \<Rightarrow> 0 | Some b \<Rightarrow> b)],
            ai_Credits = [(r, adj_Amount sig)], ai_PeriodStartNs = 0,
            ai_TransferIDs =
              [(r, Uint128ToBytes (DeriveAllocationTransferID H (st_TenantUUID st) seqNo l))]\<rparr>))"

definition adjust_commit :: "QuotaAdjustmentSignal \<Rightarrow> TenantAccountingState \<Rightarrow> TenantAccountingState" where
  "adjust_commit sig st =
     st\<lparr>ExceededResources := AList.delete (adj_ResourceType sig) (ExceededResources st)\<rparr>"

text \<open>The result carries the balances; it is empty when they could not be read.\<close>

definition adjust_project ::
    "'w activities \<Rightarrow> QuotaAdjustmentSignal \<Rightarrow> TenantAccountingState \<Rightarrow> 'w \<Rightarrow>
     'w \<times> (string, QuotaSnapshotData) gomap" where
  "adjust_project acts sig st w =
     (case act_LookupAccountBalances acts (AccountMap st) w of
        (w1, Inl e) \<Rightarrow> (w1, [])
      | (w1, Inr balances) \<Rightarrow>
          (fst (act_ResetSoftLimitAlert acts
                  \<lparr>rs_TenantID = st_TenantID st, rs_ResourceType = adj_ResourceType sig\<rparr>
                  (fst (act_UpdateQuotaSnapshots acts (snapshots_input st balances) w1))), balances))"

definition flushAdjustment ::
    "hash \<Rightarrow> 'w activities \<Rightarrow> QuotaAdjustmentSignal \<Rightarrow> TenantAccountingState \<Rightarrow> 'w \<Rightarrow>
     TenantAccountingState \<times> 'w \<times> (string, QuotaSnapshotData) gomap result" where
  "flushAdjustment H acts sig st w =
     (case adjust_begin H sig st of
        (st1, Inl e) \<Rightarrow> (st1, w, Inl e)
      | (st1, Inr input) \<Rightarrow>
        (case act_SubmitAllocationTransfers acts input w of
           (w1, Inl e) \<Rightarrow> (st1, w1, Inl e)
         | (w1, Inr _) \<Rightarrow>
             (let st2 = adjust_commit sig st1 in
              case adjust_project acts sig st2 w1 of (w2, balances) \<Rightarrow> (st2, w2, Inr balances))))"

section \<open>The handlers of the main loop\<close>

text \<open>The validator of the credit update.\<close>

definition validate_adjustment :: "TenantAccountingState \<Rightarrow> QuotaAdjustmentSignal \<Rightarrow> unit result" where
  "validate_adjustment st sig =
     (if sint (adj_Amount sig) \<le> 0 then Inl (Msg ''amount must be positive'')
      else if map_of (AccountMap st) (adj_ResourceType sig) = None
      then Inl (Msg (''unknown resource type: '' @ adj_ResourceType sig))
      else Inr ())"

definition handle_update ::
    "hash \<Rightarrow> 'w activities \<Rightarrow> QuotaAdjustmentSignal \<Rightarrow> TenantAccountingState \<Rightarrow> 'w \<Rightarrow>
     TenantAccountingState \<times> 'w \<times> (string, QuotaSnapshotData) gomap result" where
  "handle_update H acts sig st w =
     (case flushAdjustment H acts sig st w of (st1, w1, r) \<Rightarrow>
        (st1\<lparr>CurrentFlushInterval := baseFlushInterval\<rparr>, w1, r))"

text \<open>The dedup test of the heartbeat channel.\<close>

definition already_processed :: "TenantAccountingState \<Rightarrow> HeartbeatSignal \<Rightarrow> bool" where
  "already_processed st sig =
     (case map_of (ProcessedSeqs st) (ClusterID sig) of
        None \<Rightarrow> False | Some prev \<Rightarrow> SequenceNumber sig \<le> prev)"

definition receive_heartbeat :: "HeartbeatSignal \<Rightarrow> TenantAccountingState \<Rightarrow> TenantAccountingState" where
  "receive_heartbeat sig st =
     (if already_processed st sig then st else st\<lparr>CurBatch := CurBatch st @ [sig]\<rparr>)"

definition handle_heartbeat ::
    "hash \<Rightarrow> 'w activities \<Rightarrow> HeartbeatSignal \<Rightarrow> TenantAccountingState \<Rightarrow> 'w \<Rightarrow>
     TenantAccountingState \<times> 'w" where
  "handle_heartbeat H acts sig st w =
     (if already_processed st sig then (st, w)
      else
        (let st1 = receive_heartbeat sig st in
         if batchSizeThreshold \<le> length (CurBatch st1)
         then (case flushBatch H acts st1 w of (st2, w2, _) \<Rightarrow>
                 (st2\<lparr>CurrentFlushInterval := baseFlushInterval\<rparr>, w2))
         else (st1, w)))"

definition handle_register :: "RegisterClusterSignal \<Rightarrow> TenantAccountingState \<Rightarrow> TenantAccountingState" where
  "handle_register sig st =
     (if map_of (ProcessedSeqs st) (reg_ClusterID sig) = None
      then st\<lparr>ProcessedSeqs := AList.update (reg_ClusterID sig) 0 (ProcessedSeqs st)\<rparr>
      else st)"

definition next_interval :: "bool \<Rightarrow> int \<Rightarrow> int" where
  "next_interval hadActivity cur =
     (if hadActivity then baseFlushInterval
      else (let next' = cur * 2 in if next' > maxFlushInterval then maxFlushInterval else next'))"

definition handle_timer ::
    "hash \<Rightarrow> 'w activities \<Rightarrow> TenantAccountingState \<Rightarrow> 'w \<Rightarrow> TenantAccountingState \<times> 'w" where
  "handle_timer H acts st w =
     (let hadActivity = (CurBatch st \<noteq> []) in
      case flushBatch H acts st w of (st1, w1, _) \<Rightarrow>
        (st1\<lparr>CurrentFlushInterval := next_interval hadActivity (CurrentFlushInterval st1)\<rparr>, w1))"

definition handle_continue ::
    "hash \<Rightarrow> 'w activities \<Rightarrow> TenantAccountingState \<Rightarrow> 'w \<Rightarrow> TenantAccountingInput \<times> 'w" where
  "handle_continue H acts st w =
     (case flushBatch H acts st w of (st1, w1, _) \<Rightarrow> (continue_input st1, w1))"

text \<open>The two query handlers.\<close>

definition query_last_ack :: "TenantAccountingState \<Rightarrow> uint64" where
  "query_last_ack st = LastAck st"

definition query_exceeded :: "TenantAccountingState \<Rightarrow> (string, bool) gomap" where
  "query_exceeded st = ExceededResources st"

section \<open>Building a flush never fails\<close>

lemma derive_gauge_ids_total:
  "snd ` set todo \<subseteq> set AllResources \<Longrightarrow> \<exists>ids. derive_gauge_ids H t n todo acc = Inr ids"
proof (induction H t n todo acc rule: derive_gauge_ids.induct)
  case (2 H t n hb r todo pendings voids)
  then obtain l where "LedgerID r = Inr l" using ledger_known [of r] by auto
  then show ?case using 2 by (auto simp: gauge_ids_def)
qed simp

lemma flush_begin_state [simp]: "fst (flush_begin H st) = st\<lparr>FlushSeqNo := FlushSeqNo st + 1\<rparr>"
  by (simp add: flush_begin_def Let_def)

lemma adjust_begin_state [simp]: "fst (adjust_begin H sig st) = st\<lparr>FlushSeqNo := FlushSeqNo st + 1\<rparr>"
  by (simp add: adjust_begin_def Let_def)

lemma flush_begin_total:
  obtains input where "flush_begin H st = (st\<lparr>FlushSeqNo := FlushSeqNo st + 1\<rparr>, Inr input)"
    and "bi_Heartbeats input = CurBatch st"
proof -
  let ?todo = "concat (map (\<lambda>hb. map (\<lambda>r. (hb, r)) AllResources) (CurBatch st))"
  obtain ids where "derive_gauge_ids H (st_TenantUUID st) (FlushSeqNo st + 1) ?todo ([], []) = Inr ids"
    using derive_gauge_ids_total [of ?todo H "st_TenantUUID st" "FlushSeqNo st + 1" "([], [])"] by fastforce
  then show ?thesis
    using that by (cases ids) (auto simp: flush_begin_def Let_def)
qed

section \<open>Marking a batch\<close>

abbreviation mark_of :: "TenantAccountingState \<Rightarrow> string \<Rightarrow> uint64 option" where
  "mark_of st \<equiv> map_of (ProcessedSeqs st)"

definition raise_mark :: "HeartbeatSignal \<Rightarrow> (string \<Rightarrow> uint64 option) \<Rightarrow> string \<Rightarrow> uint64 option" where
  "raise_mark hb m =
     (case m (ClusterID hb) of
        None \<Rightarrow> m(ClusterID hb \<mapsto> SequenceNumber hb)
      | Some p \<Rightarrow> m(ClusterID hb \<mapsto> max p (SequenceNumber hb)))"

definition marks_after :: "HeartbeatSignal list \<Rightarrow> (string \<Rightarrow> uint64 option) \<Rightarrow> string \<Rightarrow> uint64 option" where
  "marks_after hbs m = fold raise_mark hbs m"

definition ack_after :: "HeartbeatSignal list \<Rightarrow> uint64 \<Rightarrow> uint64" where
  "ack_after hbs a = fold (\<lambda>hb. max (SequenceNumber hb)) hbs a"

lemma mark_processed_fields [simp]:
  "LastAck (mark_processed hb st) = max (SequenceNumber hb) (LastAck st)"
  "CurBatch (mark_processed hb st) = CurBatch st" "FlushSeqNo (mark_processed hb st) = FlushSeqNo st"
  "CurrentFlushInterval (mark_processed hb st) = CurrentFlushInterval st"
  "AccountMap (mark_processed hb st) = AccountMap st" "st_TenantUUID (mark_processed hb st) = st_TenantUUID st"
  "ExceededResources (mark_processed hb st) = ExceededResources st"
  "PendingGaugeIDs (mark_processed hb st) = PendingGaugeIDs st"
  by (auto simp: mark_processed_def max_def)

lemma mark_processed_marks [simp]: "mark_of (mark_processed hb st) = raise_mark hb (mark_of st)"
  by (auto simp: mark_processed_def raise_mark_def max_def fun_eq_iff split: option.splits)

lemma fold_mark_fields [simp]:
  "CurBatch (fold mark_processed hbs st) = CurBatch st" "FlushSeqNo (fold mark_processed hbs st) = FlushSeqNo st"
  "CurrentFlushInterval (fold mark_processed hbs st) = CurrentFlushInterval st"
  "AccountMap (fold mark_processed hbs st) = AccountMap st" "st_TenantUUID (fold mark_processed hbs st) = st_TenantUUID st"
  "ExceededResources (fold mark_processed hbs st) = ExceededResources st"
  "PendingGaugeIDs (fold mark_processed hbs st) = PendingGaugeIDs st"
  by (induction hbs arbitrary: st) simp_all

lemma fold_mark [simp]:
  "mark_of (fold mark_processed hbs st) = marks_after hbs (mark_of st)"
  "LastAck (fold mark_processed hbs st) = ack_after hbs (LastAck st)"
  by (induction hbs arbitrary: st) (simp_all add: marks_after_def ack_after_def)

lemma flush_commit_fields [simp]:
  "CurBatch (flush_commit result st) = []" "FlushSeqNo (flush_commit result st) = FlushSeqNo st"
  "CurrentFlushInterval (flush_commit result st) = CurrentFlushInterval st"
  "AccountMap (flush_commit result st) = AccountMap st" "st_TenantUUID (flush_commit result st) = st_TenantUUID st"
  "mark_of (flush_commit result st) = marks_after (CurBatch st) (mark_of st)"
  "LastAck (flush_commit result st) = ack_after (CurBatch st) (LastAck st)"
  "ExceededResources (flush_commit result st) = apply_exceeded (PerResource result) (ExceededResources st)"
  "PendingGaugeIDs (flush_commit result st) = apply_gauges (GaugeUpdates result) (PendingGaugeIDs st)"
  by (simp_all add: flush_commit_def Let_def)

lemma raise_mark_mono: "m c = Some p \<Longrightarrow> \<exists>q. raise_mark hb m c = Some q \<and> p \<le> q"
  by (auto simp: raise_mark_def split: option.split)

lemma marks_after_mono: "m c = Some p \<Longrightarrow> \<exists>q. marks_after hbs m c = Some q \<and> p \<le> q"
proof (induction hbs arbitrary: m p)
  case (Cons hb hbs)
  obtain q where "raise_mark hb m c = Some q" "p \<le> q" using raise_mark_mono [of m c p hb] Cons.prems by blast
  with Cons.IH [of "raise_mark hb m" q] show ?case by (auto simp: marks_after_def)
qed (simp add: marks_after_def)

lemma marks_after_covers:
  "hb \<in> set hbs \<Longrightarrow> \<exists>q. marks_after hbs m (ClusterID hb) = Some q \<and> SequenceNumber hb \<le> q"
proof (induction hbs arbitrary: m)
  case (Cons hb' hbs)
  have "\<exists>q. raise_mark hb m (ClusterID hb) = Some q \<and> SequenceNumber hb \<le> q"
    by (auto simp: raise_mark_def split: option.split)
  with Cons marks_after_mono [of "raise_mark hb m" "ClusterID hb"] show ?case
    by (fastforce simp: marks_after_def)
qed simp

lemma marks_after_Some:
  "marks_after hbs m c = Some q \<Longrightarrow> m c = Some q \<or> (\<exists>hb \<in> set hbs. ClusterID hb = c \<and> SequenceNumber hb = q)"
proof (induction hbs arbitrary: m)
  case (Cons hb hbs)
  then have "raise_mark hb m c = Some q \<or> (\<exists>hb \<in> set hbs. ClusterID hb = c \<and> SequenceNumber hb = q)"
    by (simp add: marks_after_def)
  then show ?case
    by (auto simp: raise_mark_def max_def split: option.splits if_splits)
qed (simp add: marks_after_def)

lemma ack_after_Max: "ack_after hbs a = Max (insert a (SequenceNumber ` set hbs))"
  using Max.set_eq_fold [of a "map SequenceNumber hbs"] by (simp add: ack_after_def fold_map comp_def)

lemma ack_after_ge: "a \<le> ack_after hbs a" "hb \<in> set hbs \<Longrightarrow> SequenceNumber hb \<le> ack_after hbs a"
  by (simp_all add: ack_after_Max)

lemma ack_after_in: "ack_after hbs a = a \<or> (\<exists>hb \<in> set hbs. SequenceNumber hb = ack_after hbs a)"
  using Max_in [of "insert a (SequenceNumber ` set hbs)"] by (auto simp: ack_after_Max)

section \<open>A flush is all or nothing\<close>

text \<open>
  C22. A flush is all or nothing in the workflow state.  If it returns an error the state is as
  before except for the consumed flush number: the batch is kept and no sequence number is
  marked.  Otherwise the batch is empty, every cluster's mark is raised over its heartbeats of
  the batch, and the acknowledged sequence number is the largest one seen.  Failures to read
  balances, write snapshots or check soft limits change neither.
\<close>

theorem flush_all_or_nothing:
  assumes "flushBatch H acts st w = (st', w', r)"
  shows "if isl r then st' = st\<lparr>FlushSeqNo := FlushSeqNo st + 1\<rparr>
    else CurBatch st' = [] \<and> mark_of st' = marks_after (CurBatch st) (mark_of st) \<and>
      LastAck st' = ack_after (CurBatch st) (LastAck st)"
proof (cases "CurBatch st = []")
  case True
  then show ?thesis using assms by (auto simp: flushBatch_def marks_after_def ack_after_def)
next
  case False
  obtain input where "flush_begin H st = (st\<lparr>FlushSeqNo := FlushSeqNo st + 1\<rparr>, Inr input)"
    by (rule flush_begin_total)
  then show ?thesis
    using False assms by (auto simp: flushBatch_def Let_def split: prod.splits sum.splits)
qed

section \<open>What a commit records\<close>

definition result_ok :: "TBBatchResult \<Rightarrow> bool" where
  "result_ok result \<longleftrightarrow> distinct (map fst (PerResource result)) \<and>
     distinct (map fst (GaugeUpdates result)) \<and>
     (\<forall>(c, m) \<in> set (GaugeUpdates result). distinct (map fst m))"

lemma record_usage_distinct: "distinct (map fst m) \<Longrightarrow> distinct (map fst (record_usage rs ts m))"
  by (induction rs ts m rule: record_usage.induct) (simp_all add: distinct_update)

lemma update2_ok:
  assumes "distinct (map fst m)" and "\<forall>(c, m') \<in> set m. distinct (map fst m')"
  shows "distinct (map fst (update2 k l v m))" "\<forall>(c, m') \<in> set (update2 k l v m). distinct (map fst m')"
proof -
  let ?inner = "AList.update l v (case map_of m k of None \<Rightarrow> [] | Some m' \<Rightarrow> m')"
  have "distinct (map fst ?inner)"
    using assms(2) by (auto intro!: distinct_update dest: map_of_SomeD split: option.split)
  moreover have "x = (k, ?inner) \<or> x \<in> set m" if "x \<in> set (update2 k l v m)" for x
    using that unfolding update2_def by (induction m) (auto split: if_splits)
  ultimately show "\<forall>(c, m') \<in> set (update2 k l v m). distinct (map fst m')"
    using assms(2) by fastforce
  show "distinct (map fst (update2 k l v m))"
    using assms(1) by (simp add: update2_def distinct_update)
qed

lemma record_gauges_ok: "result_ok result \<Longrightarrow> result_ok (record_gauges ks grs result)"
proof (induction ks grs result rule: record_gauges.induct)
  case (1 clusterID resource ks gr grs result)
  show ?case
    unfolding record_gauges.simps
    by (rule 1(1)) (use 1(2) update2_ok [of "GaugeUpdates result"] in \<open>simp add: result_ok_def distinct_update\<close>)
qed simp_all

lemma SubmitTBBatch_result_ok:
  assumes "SubmitTBBatch c H iter input s = (s', Inr result)"
  shows "result_ok result"
proof -
  obtain us where us: "usage_transfers H input = Inr us" using usage_transfers_total by blast
  obtain s1 per where part: "submit_usage_part c us s = (s1, Inr per)"
    using assms us by (auto simp: SubmitTBBatch_def split: sum.splits prod.splits)
  have "distinct (map fst per)"
    using part by (auto simp: submit_usage_part_def record_usage_distinct split: if_splits prod.splits sum.splits)
  then have "result_ok \<lparr>PerResource = per, GaugeUpdates = []\<rparr>" by (simp add: result_ok_def)
  then show ?thesis
    using assms us part
    by (auto simp: SubmitTBBatch_def Let_def record_gauges_ok split: if_splits prod.splits sum.splits)
qed

lemma apply_exceeded_of:
  "distinct (map fst per) \<Longrightarrow> map_of (apply_exceeded per ex) r =
     (case map_of per r of
        None \<Rightarrow> map_of ex r
      | Some rr \<Rightarrow> if rb_ExceedsCredits rr then Some True else if rb_Accepted rr then None else map_of ex r)"
proof (induction per arbitrary: ex)
  case (Cons x per)
  obtain r' rr where x: "x = (r', rr)" by (cases x)
  have "map_of per r' = None" using Cons.prems x by (simp add: map_of_eq_None_iff)
  then show ?case
    using Cons.IH [of "if rb_ExceedsCredits rr then AList.update r' True ex
        else if rb_Accepted rr then AList.delete r' ex else ex"] Cons.prems x
    by (auto simp: apply_exceeded_def split: option.splits)
qed (simp add: apply_exceeded_def)

lemma apply_cluster_gauges_of:
  "distinct (map fst rs) \<Longrightarrow> map_of (apply_cluster_gauges rs m) r =
     (case map_of rs r of None \<Rightarrow> map_of m r | Some i \<Rightarrow> if i = 0 then None else Some i)"
proof (induction rs arbitrary: m)
  case (Cons x rs)
  obtain r' i where x: "x = (r', i)" by (cases x)
  have "map_of rs r' = None" using Cons.prems x by (simp add: map_of_eq_None_iff)
  then show ?case
    using Cons.IH [of "if i = 0 then AList.delete r' m else AList.update r' i m"] Cons.prems x
    by (auto simp: apply_cluster_gauges_def split: option.splits)
qed (simp add: apply_cluster_gauges_def)

lemma apply_gauges_of:
  "distinct (map fst us) \<Longrightarrow> (\<forall>(c, m) \<in> set us. distinct (map fst m)) \<Longrightarrow>
   lookup2 (apply_gauges us p) c r =
     (case lookup2 us c r of None \<Rightarrow> lookup2 p c r | Some i \<Rightarrow> if i = 0 then None else Some i)"
proof (induction us arbitrary: p)
  case (Cons x us)
  obtain c' rs where x: "x = (c', rs)" by (cases x)
  have none: "map_of us c' = None" using Cons.prems x by (simp add: map_of_eq_None_iff)
  let ?p = "AList.update c' (apply_cluster_gauges rs (case map_of p c' of None \<Rightarrow> [] | Some m \<Rightarrow> m)) p"
  have "apply_gauges (x # us) p = apply_gauges us ?p" by (simp add: apply_gauges_def x)
  then show ?case
    using Cons.IH [of ?p] Cons.prems x none
    by (auto simp: lookup2_def apply_cluster_gauges_of split: option.splits)
qed (simp add: apply_gauges_def lookup2_def)

text \<open>
  C23. What a committed batch does to the two lookups the gateway and the next flush read.  A
  resource is flagged as exceeded when its reported result was a rejection for lack of credits,
  the flag is cleared when it was accepted, and is kept otherwise; a cluster's live gauge
  reservation is the reported new identifier, none when that is zero, and is kept when nothing was
  reported.  A credited adjustment clears the flag of its resource and no other.
\<close>

theorem commit_tracks_results:
  assumes "result_ok result"
  shows "map_of (query_exceeded (flush_commit result st)) r =
      (case map_of (PerResource result) r of
         None \<Rightarrow> map_of (query_exceeded st) r
       | Some rr \<Rightarrow> if rb_ExceedsCredits rr then Some True
                   else if rb_Accepted rr then None else map_of (query_exceeded st) r) \<and>
    lookup2 (PendingGaugeIDs (flush_commit result st)) c r =
      (case lookup2 (GaugeUpdates result) c r of
         None \<Rightarrow> lookup2 (PendingGaugeIDs st) c r
       | Some i \<Rightarrow> if i = 0 then None else Some i) \<and>
    map_of (query_exceeded (adjust_commit sig st)) r =
      (if r = adj_ResourceType sig then None else map_of (query_exceeded st) r)"
  using assms
  by (auto simp: query_exceeded_def apply_exceeded_of apply_gauges_of adjust_commit_def result_ok_def
      split: option.split)

text \<open>A concrete state: one heartbeat waiting.\<close>

definition demo_state :: TenantAccountingState where
  "demo_state = \<lparr>st_TenantID = ''t'', st_TenantUUID = 7, ProcessedSeqs = [(''c'', 4)], AccountMap = [],
     st_GlobalOperatorIDs = [], st_GlobalSinkIDs = [],
     CurBatch = [\<lparr>ClusterID = ''c'', ClusterUUID = 9, SequenceNumber = 5, CPUMillisecondsDelta = 1,
       MemoryMBSecondsDelta = 0, ActiveNodes = 0, HeartbeatTimestampNs = 0\<rparr>],
     LastAck = 4, CurrentFlushInterval = baseFlushInterval, PendingGaugeIDs = [],
     ExceededResources = [(''cpu_hours'', True)], FlushSeqNo = 2\<rparr>"

definition demo_result :: TBBatchResult where
  "demo_result = \<lparr>PerResource = [(''cpu_hours'', \<lparr>rb_Accepted = True, rb_ExceedsCredits = False, rb_Exists = False\<rparr>)],
     GaugeUpdates = [(''c'', [(''active_nodes'', 300)])]\<rparr>"

definition demo_acts :: "TBBatchResult result \<Rightarrow> unit activities" where
  "demo_acts answer = \<lparr>act_SubmitTBBatch = \<lambda>_ w. (w, answer), act_SubmitAllocationTransfers = \<lambda>_ w. (w, Inr ()),
     act_LookupAccountBalances = \<lambda>_ w. (w, Inl ErrCanceled), act_UpdateQuotaSnapshots = \<lambda>_ w. (w, Inr ()),
     act_CheckSoftLimits = \<lambda>_ w. (w, Inr ()), act_ResetSoftLimitAlert = \<lambda>_ w. (w, Inr ())\<rparr>"

lemma demo_flush:
  "\<exists>st' r. flushBatch demo_hash (demo_acts (Inr demo_result)) demo_state () = (st', (), r) \<and> \<not> isl r"
  by (rule flush_begin_total [of demo_hash demo_state])
    (simp add: flushBatch_def demo_state_def demo_acts_def flush_project_def Let_def)

theorem flush_all_or_nothing_witness:
  "\<exists>st' r. flushBatch demo_hash (demo_acts (Inr demo_result)) demo_state () = (st', (), r) \<and>
     \<not> isl r \<and> mark_of st' ''c'' = Some 5"
proof -
  obtain st' r where run: "flushBatch demo_hash (demo_acts (Inr demo_result)) demo_state () = (st', (), r)"
    and r: "\<not> isl r" using demo_flush by blast
  have "mark_of st' ''c'' = Some 5"
    using flush_all_or_nothing [OF run] r
    by (simp add: demo_state_def marks_after_def raise_mark_def max_def)
  with run r show ?thesis by blast
qed

theorem commit_tracks_results_witness:
  "result_ok demo_result \<and>
   map_of (query_exceeded (flush_commit demo_result demo_state)) ''cpu_hours'' = None \<and>
   lookup2 (PendingGaugeIDs (flush_commit demo_result demo_state)) ''c'' ''active_nodes'' = Some 300"
  using commit_tracks_results [of demo_result demo_state "''cpu_hours''" "''c''"]
    commit_tracks_results [of demo_result demo_state "''active_nodes''" "''c''"]
  by (simp add: demo_result_def result_ok_def lookup2_def)

end
