(* ===== verification/Workflow_Machine.thy ===== *)
theory Workflow_Machine
  imports Accounting_Workflow "HOL-Library.Multiset"
begin

text \<open>
  The accounting workflow as a step machine.  \<open>TenantAccountingWorkflow\<close> runs its main loop and any
  number of update handlers as coroutines of one thread: a coroutine runs until it waits for an
  activity, and another one may run meanwhile.  A step is such a run.  The timer may fire at any
  time (a cancelled timer's future is ready too), so the timer step needs no clock.  The fields
  after \<open>wf_updates\<close> are the history of the machine; no step reads them.
\<close>

section \<open>The machine\<close>

text \<open>Why the main loop flushes, which fixes what it does afterwards.\<close>

datatype flush_reason = ByThreshold | ByTimer bool | ByContinue

datatype main_pc =
    Selecting
  | Submitting flush_reason TBBatchInput
  | Projecting flush_reason
  | Continued TenantAccountingInput
  | Cancelled

datatype update_pc = Allocating QuotaAdjustmentSignal SubmitAllocationInput | Refreshing QuotaAdjustmentSignal

record wf =
  wf_state :: TenantAccountingState
  wf_main :: main_pc
  wf_updates :: "update_pc list"
  wf_received :: "HeartbeatSignal list"
  wf_flushed :: "HeartbeatSignal list list"
  wf_dropped :: "HeartbeatSignal list"
  wf_lost :: "HeartbeatSignal list"
  wf_seqnos :: "uint64 list"
  wf_credits :: "SubmitAllocationInput list"
  wf_failures :: nat

definition running :: "wf \<Rightarrow> bool" where
  "running w \<longleftrightarrow> (case wf_main w of Continued _ \<Rightarrow> False | Cancelled \<Rightarrow> False | _ \<Rightarrow> True)"

definition start :: "TenantAccountingInput \<Rightarrow> wf" where
  "start input = \<lparr>wf_state = initial_state input, wf_main = Selecting, wf_updates = [], wf_received = [],
     wf_flushed = [], wf_dropped = [], wf_lost = [], wf_seqnos = [], wf_credits = [], wf_failures = 0\<rparr>"

definition set_interval :: "int \<Rightarrow> wf \<Rightarrow> wf" where
  "set_interval d w = w\<lparr>wf_state := (wf_state w)\<lparr>CurrentFlushInterval := d\<rparr>\<rparr>"

text \<open>After \<open>flushBatch\<close> returned to its caller in the main loop.\<close>

definition finish_flush :: "flush_reason \<Rightarrow> wf \<Rightarrow> wf" where
  "finish_flush reason w =
     (case reason of
        ByThreshold \<Rightarrow> set_interval baseFlushInterval w\<lparr>wf_main := Selecting\<rparr>
      | ByTimer hadActivity \<Rightarrow>
          set_interval (next_interval hadActivity (CurrentFlushInterval (wf_state w))) w\<lparr>wf_main := Selecting\<rparr>
      | ByContinue \<Rightarrow> w\<lparr>wf_main := Continued (continue_input (wf_state w))\<rparr>)"

definition begin_flush :: "hash \<Rightarrow> flush_reason \<Rightarrow> wf \<Rightarrow> wf" where
  "begin_flush H reason w =
     (if CurBatch (wf_state w) = [] then finish_flush reason w
      else
        (case flush_begin H (wf_state w) of
           (st, Inl e) \<Rightarrow> finish_flush reason (w\<lparr>wf_state := st, wf_failures := Suc (wf_failures w)\<rparr>)
         | (st, Inr input) \<Rightarrow>
             w\<lparr>wf_state := st, wf_main := Submitting reason input, wf_seqnos := wf_seqnos w @ [FlushSeqNo st]\<rparr>))"

definition on_heartbeat :: "hash \<Rightarrow> HeartbeatSignal \<Rightarrow> wf \<Rightarrow> wf" where
  "on_heartbeat H sig w =
     (if already_processed (wf_state w) sig then w
      else
        (let w1 = w\<lparr>wf_state := receive_heartbeat sig (wf_state w), wf_received := wf_received w @ [sig]\<rparr> in
         if batchSizeThreshold \<le> length (CurBatch (wf_state w1)) then begin_flush H ByThreshold w1 else w1))"

definition on_commit :: "TBBatchResult \<Rightarrow> flush_reason \<Rightarrow> wf \<Rightarrow> wf" where
  "on_commit result reason w =
     w\<lparr>wf_state := flush_commit result (wf_state w), wf_main := Projecting reason,
       wf_flushed := wf_flushed w @ [CurBatch (wf_state w)]\<rparr>"

definition on_failure :: "flush_reason \<Rightarrow> wf \<Rightarrow> wf" where
  "on_failure reason w = finish_flush reason (w\<lparr>wf_failures := Suc (wf_failures w)\<rparr>)"

definition restart :: "TenantAccountingInput \<Rightarrow> wf \<Rightarrow> wf" where
  "restart input w =
     w\<lparr>wf_state := initial_state input, wf_main := Selecting, wf_updates := [],
       wf_dropped := wf_dropped w @ CurBatch (wf_state w)\<rparr>"

text \<open>A cancelled workflow returns, and its state is gone with the heartbeats that wait.\<close>

definition on_cancel :: "wf \<Rightarrow> wf" where
  "on_cancel w =
     w\<lparr>wf_state := (wf_state w)\<lparr>CurBatch := []\<rparr>, wf_main := Cancelled, wf_lost := CurBatch (wf_state w)\<rparr>"

inductive wf_step :: "hash \<Rightarrow> wf \<Rightarrow> wf \<Rightarrow> bool" for H where
  heartbeat: "wf_main w = Selecting \<Longrightarrow> wf_step H w (on_heartbeat H sig w)"
| register: "wf_main w = Selecting \<Longrightarrow> wf_step H w (w\<lparr>wf_state := handle_register reg (wf_state w)\<rparr>)"
| timer: "wf_main w = Selecting \<Longrightarrow>
    wf_step H w (begin_flush H (ByTimer (CurBatch (wf_state w) \<noteq> [])) w)"
| continue: "wf_main w = Selecting \<Longrightarrow> wf_step H w (begin_flush H ByContinue w)"
| cancel: "wf_main w = Selecting \<Longrightarrow> wf_step H w (on_cancel w)"
| committed: "wf_main w = Submitting reason input \<Longrightarrow> wf_step H w (on_commit result reason w)"
| failed: "wf_main w = Submitting reason input \<Longrightarrow> wf_step H w (on_failure reason w)"
| projected: "wf_main w = Projecting reason \<Longrightarrow> wf_step H w (finish_flush reason w)"
| restarted: "wf_main w = Continued input \<Longrightarrow> wf_step H w (restart input w)"
| update_started: "running w \<Longrightarrow> validate_adjustment (wf_state w) sig = Inr () \<Longrightarrow>
    adjust_begin H sig (wf_state w) = (st, Inr allocation) \<Longrightarrow>
    wf_step H w (w\<lparr>wf_state := st, wf_updates := wf_updates w @ [Allocating sig allocation],
                   wf_seqnos := wf_seqnos w @ [FlushSeqNo st], wf_credits := wf_credits w @ [allocation]\<rparr>)"
| update_credited: "running w \<Longrightarrow> wf_updates w = us @ Allocating sig allocation # vs \<Longrightarrow>
    wf_step H w (w\<lparr>wf_state := adjust_commit sig (wf_state w), wf_updates := us @ Refreshing sig # vs\<rparr>)"
| update_refused: "running w \<Longrightarrow> wf_updates w = us @ Allocating sig allocation # vs \<Longrightarrow>
    wf_step H w (set_interval baseFlushInterval w\<lparr>wf_updates := us @ vs\<rparr>)"
| update_finished: "running w \<Longrightarrow> wf_updates w = us @ Refreshing sig # vs \<Longrightarrow>
    wf_step H w (set_interval baseFlushInterval w\<lparr>wf_updates := us @ vs\<rparr>)"

abbreviation wf_reach :: "hash \<Rightarrow> wf \<Rightarrow> wf \<Rightarrow> bool" where
  "wf_reach H \<equiv> (wf_step H)\<^sup>*\<^sup>*"

section \<open>Frames\<close>

named_theorems wf_simps \<open>what the step functions do to each field\<close>

lemma set_interval_fields [wf_simps]:
  "wf_main (set_interval d w) = wf_main w" "wf_updates (set_interval d w) = wf_updates w"
  "wf_received (set_interval d w) = wf_received w" "wf_flushed (set_interval d w) = wf_flushed w"
  "wf_dropped (set_interval d w) = wf_dropped w" "wf_seqnos (set_interval d w) = wf_seqnos w"
  "wf_lost (set_interval d w) = wf_lost w" "wf_credits (set_interval d w) = wf_credits w"
  "wf_failures (set_interval d w) = wf_failures w"
  "wf_state (set_interval d w) = (wf_state w)\<lparr>CurrentFlushInterval := d\<rparr>"
  by (simp_all add: set_interval_def)

lemma finish_flush_fields [wf_simps]:
  "wf_updates (finish_flush reason w) = wf_updates w"
  "wf_received (finish_flush reason w) = wf_received w" "wf_flushed (finish_flush reason w) = wf_flushed w"
  "wf_dropped (finish_flush reason w) = wf_dropped w" "wf_seqnos (finish_flush reason w) = wf_seqnos w"
  "wf_lost (finish_flush reason w) = wf_lost w" "wf_credits (finish_flush reason w) = wf_credits w"
  "st_TenantUUID (wf_state (finish_flush reason w)) = st_TenantUUID (wf_state w)"
  "wf_failures (finish_flush reason w) = wf_failures w"
  "CurBatch (wf_state (finish_flush reason w)) = CurBatch (wf_state w)"
  "ProcessedSeqs (wf_state (finish_flush reason w)) = ProcessedSeqs (wf_state w)"
  "LastAck (wf_state (finish_flush reason w)) = LastAck (wf_state w)"
  "FlushSeqNo (wf_state (finish_flush reason w)) = FlushSeqNo (wf_state w)"
  by (simp_all add: finish_flush_def set_interval_def split: flush_reason.split)

lemma begin_flush_cases:
  obtains (idle) "CurBatch (wf_state w) = []" "begin_flush H reason w = finish_flush reason w"
  | (submit) input where "CurBatch (wf_state w) \<noteq> []" "bi_Heartbeats input = CurBatch (wf_state w)"
    "begin_flush H reason w = w\<lparr>wf_state := (wf_state w)\<lparr>FlushSeqNo := FlushSeqNo (wf_state w) + 1\<rparr>,
       wf_main := Submitting reason input, wf_seqnos := wf_seqnos w @ [FlushSeqNo (wf_state w) + 1]\<rparr>"
proof (cases "CurBatch (wf_state w) = []")
  case True
  then show ?thesis using idle by (simp add: begin_flush_def)
next
  case False
  obtain input where "flush_begin H (wf_state w) =
      ((wf_state w)\<lparr>FlushSeqNo := FlushSeqNo (wf_state w) + 1\<rparr>, Inr input)"
    "bi_Heartbeats input = CurBatch (wf_state w)"
    by (rule flush_begin_total)
  then show ?thesis using submit False by (simp add: begin_flush_def)
qed

lemma begin_flush_fields [wf_simps]:
  "wf_updates (begin_flush H reason w) = wf_updates w"
  "wf_received (begin_flush H reason w) = wf_received w" "wf_flushed (begin_flush H reason w) = wf_flushed w"
  "wf_dropped (begin_flush H reason w) = wf_dropped w" "wf_failures (begin_flush H reason w) = wf_failures w"
  "wf_lost (begin_flush H reason w) = wf_lost w" "wf_credits (begin_flush H reason w) = wf_credits w"
  "st_TenantUUID (wf_state (begin_flush H reason w)) = st_TenantUUID (wf_state w)"
  "CurBatch (wf_state (begin_flush H reason w)) = CurBatch (wf_state w)"
  "ProcessedSeqs (wf_state (begin_flush H reason w)) = ProcessedSeqs (wf_state w)"
  "LastAck (wf_state (begin_flush H reason w)) = LastAck (wf_state w)"
  by (rule begin_flush_cases [of w H reason]; simp add: wf_simps)+

lemma finish_flush_main [wf_simps]:
  "wf_main (finish_flush reason w) =
     (if reason = ByContinue then Continued (continue_input (wf_state w)) else Selecting)"
  by (simp add: finish_flush_def set_interval_def split: flush_reason.split)

lemma finish_flush_interval [wf_simps]:
  "CurrentFlushInterval (wf_state (finish_flush reason w)) =
     (case reason of
        ByThreshold \<Rightarrow> baseFlushInterval
      | ByTimer b \<Rightarrow> next_interval b (CurrentFlushInterval (wf_state w))
      | ByContinue \<Rightarrow> CurrentFlushInterval (wf_state w))"
  by (simp add: finish_flush_def set_interval_def split: flush_reason.split)

lemma finish_flush_continue: "wf_state (finish_flush ByContinue w) = wf_state w"
  by (simp add: finish_flush_def)

lemma initial_fields [wf_simps]:
  "CurBatch (initial_state input) = []" "mark_of (initial_state input) = map_of (CarryProcessedSeqs input)"
  "LastAck (initial_state input) = CarryLastAck input" "FlushSeqNo (initial_state input) = CarryFlushSeqNo input"
  "CurrentFlushInterval (initial_state input) = baseFlushInterval"
  "st_TenantUUID (initial_state input) = in_TenantUUID input"
  by (simp_all add: initial_state_def)

lemma start_fields [wf_simps]:
  "wf_state (start input) = initial_state input" "wf_main (start input) = Selecting"
  "wf_updates (start input) = []" "wf_received (start input) = []" "wf_flushed (start input) = []"
  "wf_dropped (start input) = []" "wf_seqnos (start input) = []" "wf_failures (start input) = 0"
  "wf_lost (start input) = []" "wf_credits (start input) = []"
  by (simp_all add: start_def)

lemma carry_fields [wf_simps]:
  "CarryProcessedSeqs (continue_input st) = ProcessedSeqs st" "CarryLastAck (continue_input st) = LastAck st"
  "CarryFlushSeqNo (continue_input st) = FlushSeqNo st" "in_TenantUUID (continue_input st) = st_TenantUUID st"
  by (simp_all add: continue_input_def)

lemma register_fields [wf_simps]:
  "CurBatch (handle_register reg st) = CurBatch st" "LastAck (handle_register reg st) = LastAck st"
  "FlushSeqNo (handle_register reg st) = FlushSeqNo st"
  "CurrentFlushInterval (handle_register reg st) = CurrentFlushInterval st"
  "st_TenantUUID (handle_register reg st) = st_TenantUUID st"
  "mark_of (handle_register reg st) =
     (if mark_of st (reg_ClusterID reg) = None then (mark_of st)(reg_ClusterID reg \<mapsto> 0) else mark_of st)"
  by (simp_all add: handle_register_def)

lemma receive_fields [wf_simps]:
  "\<not> already_processed st sig \<Longrightarrow> receive_heartbeat sig st = st\<lparr>CurBatch := CurBatch st @ [sig]\<rparr>"
  by (simp add: receive_heartbeat_def)

lemma adjust_commit_fields [wf_simps]:
  "CurBatch (adjust_commit sig st) = CurBatch st" "LastAck (adjust_commit sig st) = LastAck st"
  "ProcessedSeqs (adjust_commit sig st) = ProcessedSeqs st" "FlushSeqNo (adjust_commit sig st) = FlushSeqNo st"
  "CurrentFlushInterval (adjust_commit sig st) = CurrentFlushInterval st"
  "st_TenantUUID (adjust_commit sig st) = st_TenantUUID st"
  by (simp_all add: adjust_commit_def)

lemma on_cancel_fields [wf_simps]:
  "wf_main (on_cancel w) = Cancelled" "wf_updates (on_cancel w) = wf_updates w"
  "wf_received (on_cancel w) = wf_received w" "wf_flushed (on_cancel w) = wf_flushed w"
  "wf_dropped (on_cancel w) = wf_dropped w" "wf_lost (on_cancel w) = CurBatch (wf_state w)"
  "wf_seqnos (on_cancel w) = wf_seqnos w" "wf_credits (on_cancel w) = wf_credits w"
  "wf_failures (on_cancel w) = wf_failures w" "wf_state (on_cancel w) = (wf_state w)\<lparr>CurBatch := []\<rparr>"
  by (simp_all add: on_cancel_def)

lemma flush_commit_tenant [wf_simps]: "st_TenantUUID (flush_commit result st) = st_TenantUUID st"
proof -
  have "st_TenantUUID (fold mark_processed hbs st) = st_TenantUUID st" for hbs st
    by (induction hbs arbitrary: st) (simp_all add: mark_processed_def)
  then show ?thesis by (simp add: flush_commit_def Let_def)
qed

text \<open>The heartbeat step is a skip, an append, or an append and the start of a flush.\<close>

lemma on_heartbeat_cases:
  obtains (skip) "already_processed (wf_state w) sig" "on_heartbeat H sig w = w"
  | (append) w1 where "\<not> already_processed (wf_state w) sig"
    "w1 = w\<lparr>wf_state := (wf_state w)\<lparr>CurBatch := CurBatch (wf_state w) @ [sig]\<rparr>, wf_received := wf_received w @ [sig]\<rparr>"
    "length (CurBatch (wf_state w1)) < batchSizeThreshold" "on_heartbeat H sig w = w1"
  | (full) w1 where "\<not> already_processed (wf_state w) sig"
    "w1 = w\<lparr>wf_state := (wf_state w)\<lparr>CurBatch := CurBatch (wf_state w) @ [sig]\<rparr>, wf_received := wf_received w @ [sig]\<rparr>"
    "batchSizeThreshold \<le> length (CurBatch (wf_state w1))" "on_heartbeat H sig w = begin_flush H ByThreshold w1"
proof (cases "already_processed (wf_state w) sig")
  case True
  then show ?thesis using skip by (simp add: on_heartbeat_def)
next
  case False
  define w1 where "w1 = w\<lparr>wf_state := (wf_state w)\<lparr>CurBatch := CurBatch (wf_state w) @ [sig]\<rparr>,
    wf_received := wf_received w @ [sig]\<rparr>"
  have "on_heartbeat H sig w =
      (if batchSizeThreshold \<le> length (CurBatch (wf_state w1)) then begin_flush H ByThreshold w1 else w1)"
    using False by (simp add: on_heartbeat_def receive_fields w1_def Let_def)
  then show ?thesis
    using append [OF False w1_def] full [OF False w1_def] by (simp split: if_splits)
qed

section \<open>Invariants of the machine\<close>

text \<open>An invariant is kept by every step, hence along every run.\<close>

locale wf_invariant =
  fixes H :: hash and I :: "wf \<Rightarrow> bool"
  assumes step: "wf_step H w w' \<Longrightarrow> I w \<Longrightarrow> I w'"
begin

lemma reach: "wf_reach H w w' \<Longrightarrow> I w \<Longrightarrow> I w'"
  by (induction rule: rtranclp_induct) (auto intro: step)

end

text \<open>The program counter agrees with the state.\<close>

definition wf_ok :: "wf \<Rightarrow> bool" where
  "wf_ok w \<longleftrightarrow>
     (case wf_main w of
        Submitting reason input \<Rightarrow> CurBatch (wf_state w) \<noteq> [] \<and> bi_Heartbeats input = CurBatch (wf_state w)
      | Projecting reason \<Rightarrow> CurBatch (wf_state w) = []
      | Continued input \<Rightarrow> input = continue_input (wf_state w)
      | _ \<Rightarrow> True)"

lemma wf_ok_finish: "wf_ok (finish_flush reason w)"
  by (cases "reason = ByContinue") (simp_all add: wf_ok_def wf_simps finish_flush_continue)

lemma wf_ok_begin: "wf_ok (begin_flush H reason w)"
proof (cases rule: begin_flush_cases [of w H reason])
  case idle
  then show ?thesis by (simp add: wf_ok_finish)
next
  case (submit input)
  then show ?thesis by (simp add: wf_ok_def)
qed

lemma wf_ok_heartbeat:
  assumes "wf_main w = Selecting" and "wf_ok w"
  shows "wf_ok (on_heartbeat H sig w)"
proof (cases rule: on_heartbeat_cases [of w sig H])
  case skip
  then show ?thesis using assms(2) by simp
next
  case (append w1)
  then show ?thesis using assms(1) by (simp add: wf_ok_def)
next
  case (full w1)
  then show ?thesis by (simp only: wf_ok_begin)
qed

lemma adjust_begin_fields:
  "adjust_begin H sig st = (st', r) \<Longrightarrow> st' = st\<lparr>FlushSeqNo := FlushSeqNo st + 1\<rparr>"
  by (metis adjust_begin_state fst_conv)

interpretation pc: wf_invariant H wf_ok for H
proof
  fix w w' assume "wf_step H w w'" "wf_ok w"
  then show "wf_ok w'"
  proof cases
    case (heartbeat sig)
    then show ?thesis using \<open>wf_ok w\<close> by (simp add: wf_ok_heartbeat)
  next
    case (update_started sig st allocation)
    then show ?thesis
      using \<open>wf_ok w\<close>
      by (auto simp: wf_ok_def running_def dest!: adjust_begin_fields split: main_pc.splits)
  next
    case timer
    then show ?thesis by (simp only: wf_ok_begin)
  next
    case continue
    then show ?thesis by (simp only: wf_ok_begin)
  next
    case (failed reason input)
    then show ?thesis by (simp only: on_failure_def wf_ok_finish)
  next
    case (projected reason)
    then show ?thesis by (simp only: wf_ok_finish)
  qed (use \<open>wf_ok w\<close> in \<open>auto simp: on_commit_def wf_ok_def running_def restart_def wf_simps split: main_pc.splits\<close>)
qed

section \<open>The flush interval\<close>

definition flush_intervals :: "int set" where
  "flush_intervals = (*) Second ` {2, 4, 8, 16, 32, 60}"

lemma base_interval: "baseFlushInterval \<in> flush_intervals"
  by (simp add: flush_intervals_def baseFlushInterval_def)

lemma next_interval_in: "d \<in> flush_intervals \<Longrightarrow> next_interval b d \<in> flush_intervals"
  by (auto simp: flush_intervals_def next_interval_def baseFlushInterval_def maxFlushInterval_def Second_def)

abbreviation interval_ok :: "wf \<Rightarrow> bool" where
  "interval_ok w \<equiv> CurrentFlushInterval (wf_state w) \<in> flush_intervals"

lemma interval_finish: "interval_ok w \<Longrightarrow> interval_ok (finish_flush reason w)"
  by (simp add: wf_simps base_interval next_interval_in split: flush_reason.split)

lemma interval_begin: "interval_ok w \<Longrightarrow> interval_ok (begin_flush H reason w)"
  by (rule begin_flush_cases [of w H reason]) (simp_all add: interval_finish)

lemma interval_heartbeat: "interval_ok w \<Longrightarrow> interval_ok (on_heartbeat H sig w)"
  by (rule on_heartbeat_cases [of w sig H]) (simp_all add: interval_begin)

interpretation interval: wf_invariant H interval_ok for H
proof
  fix w w' assume "wf_step H w w'" and ok: "interval_ok w"
  then show "interval_ok w'"
    by cases (auto simp: interval_begin interval_heartbeat on_commit_def on_failure_def restart_def
        base_interval next_interval_in wf_simps dest!: adjust_begin_fields split: flush_reason.split)
qed

text \<open>
  C37. The adaptive flush interval of a tenant's workflow is always one of 2, 4, 8, 16, 32 or 60
  seconds, whatever signals, timers, credit updates, failures and restarts occur in whatever order;
  in particular doubling it never overflows the 64-bit nanosecond count.
\<close>

theorem flush_interval_bounded:
  assumes "wf_reach H (start input) w"
  shows "CurrentFlushInterval (wf_state w) \<in> (*) Second ` {2, 4, 8, 16, 32, 60}"
  using interval.reach [OF assms] base_interval unfolding flush_intervals_def [symmetric]
  by (simp add: wf_simps)

section \<open>The abstract machine\<close>

text \<open>
  What the workflow promises: per cluster a mark, heartbeats accepted above the mark, and batches
  committed as a whole.  Dropping the pending heartbeats is what a restart after a failed flush
  and a cancellation do.
\<close>

record spec =
  marks :: "string \<Rightarrow> uint64 option"
  pending :: "HeartbeatSignal list"
  batches :: "HeartbeatSignal list list"

inductive spec_step :: "spec \<Rightarrow> spec \<Rightarrow> bool" where
  accept: "(case marks s (ClusterID sig) of None \<Rightarrow> True | Some p \<Rightarrow> p < SequenceNumber sig) \<Longrightarrow>
    spec_step s (s\<lparr>pending := pending s @ [sig]\<rparr>)"
| open_cluster: "marks s c = None \<Longrightarrow> spec_step s (s\<lparr>marks := (marks s)(c \<mapsto> 0)\<rparr>)"
| commit: "pending s \<noteq> [] \<Longrightarrow>
    spec_step s \<lparr>marks = marks_after (pending s) (marks s), pending = [], batches = batches s @ [pending s]\<rparr>"
| drop_pending: "spec_step s (s\<lparr>pending := []\<rparr>)"

definition abs_wf :: "wf \<Rightarrow> spec" where
  "abs_wf w = \<lparr>marks = mark_of (wf_state w), pending = CurBatch (wf_state w), batches = wf_flushed w\<rparr>"

lemma abs_finish [simp]: "abs_wf (finish_flush reason w) = abs_wf w"
  by (simp add: abs_wf_def wf_simps)

lemma abs_begin [simp]: "abs_wf (begin_flush H reason w) = abs_wf w"
  by (simp add: abs_wf_def wf_simps)

lemma abs_heartbeat: "abs_wf (on_heartbeat H sig w) = abs_wf w \<or> spec_step (abs_wf w) (abs_wf (on_heartbeat H sig w))"
proof (cases "already_processed (wf_state w) sig")
  case True
  then show ?thesis by (simp add: on_heartbeat_def)
next
  case False
  then have "case marks (abs_wf w) (ClusterID sig) of None \<Rightarrow> True | Some p \<Rightarrow> p < SequenceNumber sig"
    by (auto simp: already_processed_def abs_wf_def split: option.splits)
  note step = accept [OF this]
  have "abs_wf (on_heartbeat H sig w) = (abs_wf w)\<lparr>pending := pending (abs_wf w) @ [sig]\<rparr>"
    by (rule on_heartbeat_cases [of w sig H]) (simp_all add: False abs_wf_def wf_simps)
  with step show ?thesis by simp
qed

lemma refines_step:
  assumes "wf_ok w" and "wf_step H w w'"
  shows "abs_wf w' = abs_wf w \<or> spec_step (abs_wf w) (abs_wf w')"
  using assms(2)
proof cases
  case (heartbeat sig)
  then show ?thesis by (simp add: abs_heartbeat)
next
  case (register reg)
  then show ?thesis
    using open_cluster [of "abs_wf w" "reg_ClusterID reg"] by (simp add: abs_wf_def wf_simps)
next
  case (committed reason input result)
  then show ?thesis
    using commit [of "abs_wf w"] assms(1) by (simp add: abs_wf_def on_commit_def wf_ok_def)
next
  case (restarted input)
  then show ?thesis
    using drop_pending [of "abs_wf w"] assms(1) by (simp add: abs_wf_def restart_def wf_ok_def wf_simps)
next
  case cancel
  then show ?thesis using drop_pending [of "abs_wf w"] by (simp add: abs_wf_def wf_simps)
qed (auto simp: abs_wf_def on_failure_def wf_simps dest!: adjust_begin_fields)

lemma reach_ok: "wf_reach H (start input) w \<Longrightarrow> wf_ok w"
  by (erule pc.reach) (simp add: wf_ok_def wf_simps)

text \<open>
  C3. The interleaved workflow refines the abstract machine: every step of the main loop or of a
  concurrent credit update either leaves the marks, the waiting batch and the committed batches
  alone, or is one step of the abstract machine.  In particular no credit update, timer or failed
  submission can move a mark, and a batch is marked and committed in a single step.
\<close>

theorem workflow_refines_spec:
  assumes "wf_reach H (start input) w" and "wf_step H w w'"
  shows "abs_wf w' = abs_wf w \<or> spec_step (abs_wf w) (abs_wf w')"
  using reach_ok [OF assms(1)] assms(2) by (rule refines_step)

section \<open>Heartbeats are committed in order, once\<close>

text \<open>Every heartbeat of the second list is newer than those of its cluster in the first.\<close>

definition newer :: "HeartbeatSignal list \<Rightarrow> HeartbeatSignal list \<Rightarrow> bool" where
  "newer xs ys \<longleftrightarrow>
     (\<forall>x \<in> set xs. \<forall>y \<in> set ys. ClusterID x = ClusterID y \<longrightarrow> SequenceNumber x < SequenceNumber y)"

definition above_marks :: "(string \<Rightarrow> uint64 option) \<Rightarrow> HeartbeatSignal list \<Rightarrow> bool" where
  "above_marks m xs \<longleftrightarrow> (\<forall>x \<in> set xs. \<forall>p. m (ClusterID x) = Some p \<longrightarrow> p < SequenceNumber x)"

definition covered :: "(string \<Rightarrow> uint64 option) \<Rightarrow> HeartbeatSignal list \<Rightarrow> bool" where
  "covered m xs \<longleftrightarrow> (\<forall>x \<in> set xs. \<exists>p. m (ClusterID x) = Some p \<and> SequenceNumber x \<le> p)"

definition raised :: "(string \<Rightarrow> uint64 option) \<Rightarrow> (string \<Rightarrow> uint64 option) \<Rightarrow> bool" where
  "raised m m' \<longleftrightarrow> (\<forall>c p. m c = Some p \<longrightarrow> (\<exists>q. m' c = Some q \<and> p \<le> q))"

definition spec_ok :: "(string \<Rightarrow> uint64 option) \<Rightarrow> spec \<Rightarrow> bool" where
  "spec_ok m0 s \<longleftrightarrow> raised m0 (marks s) \<and> covered (marks s) (concat (batches s)) \<and>
     newer (concat (batches s)) (pending s) \<and> sorted_wrt newer (batches s) \<and>
     above_marks m0 (pending s) \<and> above_marks m0 (concat (batches s))"

lemma newer_concat: "newer (concat xss) ys \<longleftrightarrow> (\<forall>xs \<in> set xss. newer xs ys)"
  by (auto simp: newer_def)

lemma covered_raised: "covered m xs \<Longrightarrow> raised m m' \<Longrightarrow> covered m' xs"
  unfolding covered_def raised_def by (meson order_trans)

lemma raised_trans: "raised m m' \<Longrightarrow> raised m' m'' \<Longrightarrow> raised m m''"
  unfolding raised_def by (meson order_trans)

lemma raised_marks_after: "raised m (marks_after hbs m)"
  unfolding raised_def using marks_after_mono by blast

lemma above_append [simp]: "above_marks m (xs @ ys) \<longleftrightarrow> above_marks m xs \<and> above_marks m ys"
  by (auto simp: above_marks_def)

lemma nothing_pending [simp]: "above_marks m []" "newer xs []"
  by (simp_all add: above_marks_def newer_def)

lemma covered_append [simp]: "covered m (xs @ ys) \<longleftrightarrow> covered m xs \<and> covered m ys"
  by (auto simp: covered_def)

lemma newer_append [simp]: "newer xs (ys @ zs) \<longleftrightarrow> newer xs ys \<and> newer xs zs"
  by (auto simp: newer_def)

lemma accepted_newer:
  assumes "case m (ClusterID sig) of None \<Rightarrow> True | Some p \<Rightarrow> p < SequenceNumber sig"
  shows "covered m xs \<Longrightarrow> newer xs [sig]" and "raised m0 m \<Longrightarrow> above_marks m0 [sig]"
proof -
  assume "covered m xs"
  then show "newer xs [sig]"
    using assms by (fastforce simp: covered_def newer_def split: option.splits)
next
  assume "raised m0 m"
  then show "above_marks m0 [sig]"
    using assms by (fastforce simp: raised_def above_marks_def split: option.splits)
qed

lemma spec_step_ok: "spec_step s s' \<Longrightarrow> spec_ok m0 s \<Longrightarrow> spec_ok m0 s'"
proof (induction rule: spec_step.induct)
  case (accept s sig)
  then show ?case using accepted_newer [where m = "marks s" and sig = sig] by (simp add: spec_ok_def)
next
  case (open_cluster s c)
  then have "raised (marks s) ((marks s)(c \<mapsto> 0))" by (auto simp: raised_def)
  then show ?case using open_cluster by (auto simp: spec_ok_def intro: covered_raised raised_trans)
next
  case (commit s)
  have "covered (marks_after (pending s) (marks s)) (pending s)"
    using marks_after_covers by (auto simp: covered_def)
  then show ?case
    using commit raised_marks_after [of "marks s" "pending s"]
    by (auto simp: spec_ok_def sorted_wrt_append newer_concat intro: covered_raised raised_trans)
next
  case (drop_pending s)
  then show ?case by (simp add: spec_ok_def)
qed

lemma spec_ok_reach:
  "wf_reach H (start input) w \<Longrightarrow> spec_ok (map_of (CarryProcessedSeqs input)) (abs_wf w)"
proof (induction rule: rtranclp_induct)
  case base
  show ?case
    by (simp add: abs_wf_def spec_ok_def wf_simps raised_def covered_def newer_def above_marks_def)
next
  case (step w w')
  then show ?case using refines_step [OF reach_ok [OF step(1)] step(2)] spec_step_ok by auto
qed


section \<open>No heartbeat is lost, batches are bounded\<close>

text \<open>Every accepted heartbeat is in a committed batch, waiting, dropped by a restart, or lost by a cancellation.\<close>

definition accounted :: "wf \<Rightarrow> bool" where
  "accounted w \<longleftrightarrow>
     mset (wf_received w) = mset (concat (wf_flushed w)) + mset (CurBatch (wf_state w)) +
       mset (wf_dropped w) + mset (wf_lost w) \<and>
     (wf_main w \<noteq> Cancelled \<longrightarrow> wf_lost w = [])"

text \<open>As long as no submission failed, nothing was dropped and the batch stays within the threshold.\<close>

definition tidy :: "wf \<Rightarrow> bool" where
  "tidy w \<longleftrightarrow> wf_failures w = 0 \<longrightarrow> wf_dropped w = [] \<and>
     (case wf_main w of
        Selecting \<Rightarrow> length (CurBatch (wf_state w)) < batchSizeThreshold
      | Continued _ \<Rightarrow> CurBatch (wf_state w) = []
      | _ \<Rightarrow> length (CurBatch (wf_state w)) \<le> batchSizeThreshold)"

lemma accounted_begin: "accounted w \<Longrightarrow> wf_main w \<noteq> Cancelled \<Longrightarrow> accounted (begin_flush H reason w)"
  by (simp add: accounted_def wf_simps)

lemma accounted_heartbeat:
  "accounted w \<Longrightarrow> wf_main w \<noteq> Cancelled \<Longrightarrow> accounted (on_heartbeat H sig w)"
  by (rule on_heartbeat_cases [of w sig H]) (simp_all add: accounted_def wf_simps)

interpretation accounting: wf_invariant H accounted for H
proof
  fix w w' assume "wf_step H w w'" and ok: "accounted w"
  then show "accounted w'"
  proof cases
    case (heartbeat sig)
    then show ?thesis using ok by (simp add: accounted_heartbeat)
  qed (use ok in \<open>auto simp: accounted_def on_commit_def on_failure_def restart_def running_def wf_simps
      dest!: adjust_begin_fields\<close>)
qed

lemma threshold_pos: "0 < batchSizeThreshold"
  by (simp add: batchSizeThreshold_def)

lemma tidy_idle: "tidy w \<Longrightarrow> CurBatch (wf_state w) = [] \<Longrightarrow> tidy (finish_flush reason w)"
  using threshold_pos by (simp add: tidy_def wf_simps)

lemma tidy_begin:
  assumes "wf_failures w = 0 \<Longrightarrow> wf_dropped w = [] \<and> length (CurBatch (wf_state w)) \<le> batchSizeThreshold"
  shows "tidy (begin_flush H reason w)"
  using assms threshold_pos by (cases rule: begin_flush_cases [of w H reason]) (simp_all add: tidy_def wf_simps)

lemma tidy_heartbeat:
  assumes "tidy w" and "wf_main w = Selecting"
  shows "tidy (on_heartbeat H sig w)"
proof (cases rule: on_heartbeat_cases [of w sig H])
  case skip
  then show ?thesis using assms(1) by simp
next
  case (append w1)
  then show ?thesis using assms by (simp add: tidy_def)
next
  case (full w1)
  have "tidy (begin_flush H ByThreshold w1)"
    by (rule tidy_begin) (use assms full(2) in \<open>auto simp: tidy_def\<close>)
  with full show ?thesis by simp
qed

interpretation bounded: wf_invariant H "\<lambda>w. tidy w \<and> wf_ok w" for H
proof
  fix w w' assume step: "wf_step H w w'" and ok: "tidy w \<and> wf_ok w"
  have "wf_ok w'" using pc.step [OF step] ok by blast
  moreover from step have "tidy w'"
  proof cases
    case (heartbeat sig)
    then show ?thesis using ok by (simp add: tidy_heartbeat)
  next
    case timer
    show ?thesis unfolding timer(1) by (rule tidy_begin) (use ok timer in \<open>auto simp: tidy_def\<close>)
  next
    case continue
    show ?thesis unfolding continue(1) by (rule tidy_begin) (use ok continue in \<open>auto simp: tidy_def\<close>)
  next
    case (failed reason input)
    then show ?thesis by (simp add: tidy_def on_failure_def wf_simps)
  next
    case (projected reason)
    then show ?thesis using ok by (auto simp: wf_ok_def intro: tidy_idle)
  qed (use ok threshold_pos in \<open>auto simp: tidy_def on_commit_def restart_def running_def wf_simps
      dest!: adjust_begin_fields split: main_pc.splits\<close>)
  ultimately show "tidy w' \<and> wf_ok w'" by simp
qed

text \<open>
  C6. Conservation of heartbeats.  At every moment of a tenant's workflow each accepted heartbeat is
  counted exactly once: in a committed batch, in the batch that waits, among those dropped when
  the workflow continued as new, or among those that waited when the workflow was cancelled.
  Nothing is dropped while no submission has failed, and nothing is lost otherwise unless the
  workflow is cancelled.
\<close>

theorem heartbeats_accounted:
  assumes "wf_reach H (start input) w"
  shows "mset (wf_received w) = mset (concat (wf_flushed w)) + mset (CurBatch (wf_state w)) +
      mset (wf_dropped w) + mset (wf_lost w) \<and>
    (wf_failures w = 0 \<longrightarrow> wf_dropped w = []) \<and> (wf_main w \<noteq> Cancelled \<longrightarrow> wf_lost w = [])"
proof -
  have "accounted (start input)" by (simp add: accounted_def wf_simps)
  moreover have "tidy (start input) \<and> wf_ok (start input)"
    by (simp add: tidy_def wf_ok_def wf_simps threshold_pos)
  ultimately show ?thesis
    using accounting.reach [OF assms] bounded.reach [OF assms] by (simp add: accounted_def tidy_def)
qed

text \<open>
  The size threshold bounds the batch as long as submissions succeed: at most 150 heartbeats
  are ever waiting, and fewer while the main loop waits for the next event.
\<close>

lemma batch_bounded:
  assumes "wf_reach H (start input) w" and "wf_failures w = 0"
  shows "length (CurBatch (wf_state w)) \<le> 150 \<and>
    (wf_main w = Selecting \<longrightarrow> length (CurBatch (wf_state w)) < 150)"
proof -
  have "tidy (start input) \<and> wf_ok (start input)"
    by (simp add: tidy_def wf_ok_def wf_simps threshold_pos)
  then have "tidy w" using bounded.reach [OF assms(1)] by blast
  then show ?thesis
    using assms(2) by (auto simp: tidy_def batchSizeThreshold_def split: main_pc.splits)
qed

section \<open>Flush numbers are used once\<close>

definition numbered :: "uint64 \<Rightarrow> wf \<Rightarrow> bool" where
  "numbered c w \<longleftrightarrow> FlushSeqNo (wf_state w) = c + of_nat (length (wf_seqnos w)) \<and>
     wf_seqnos w = map (\<lambda>k. c + of_nat (Suc k)) [0..<length (wf_seqnos w)]"

lemma numbered_next:
  "numbered c w \<Longrightarrow> FlushSeqNo (wf_state w') = FlushSeqNo (wf_state w) + 1 \<Longrightarrow>
   wf_seqnos w' = wf_seqnos w @ [FlushSeqNo (wf_state w) + 1] \<Longrightarrow> numbered c w'"
  by (simp add: numbered_def add.commute add.left_commute)

lemma numbered_same:
  "numbered c w \<Longrightarrow> FlushSeqNo (wf_state w') = FlushSeqNo (wf_state w) \<Longrightarrow> wf_seqnos w' = wf_seqnos w \<Longrightarrow>
   numbered c w'"
  by (simp add: numbered_def)

lemma numbered_begin: "numbered c w \<Longrightarrow> numbered c (begin_flush H reason w)"
  by (rule begin_flush_cases [of w H reason]) (auto intro: numbered_same numbered_next simp: wf_simps)

lemma numbered_heartbeat: "numbered c w \<Longrightarrow> numbered c (on_heartbeat H sig w)"
  by (rule on_heartbeat_cases [of w sig H])
    (auto intro!: numbered_begin elim: numbered_same)

interpretation numbering: wf_invariant H "\<lambda>w. numbered c w \<and> wf_ok w" for H c
proof
  fix w w' assume step: "wf_step H w w'" and ok: "numbered c w \<and> wf_ok w"
  have "wf_ok w'" using pc.step [OF step] ok by blast
  moreover from step have "numbered c w'"
  proof cases
    case (heartbeat sig)
    then show ?thesis using ok by (simp add: numbered_heartbeat)
  next
    case timer
    then show ?thesis using ok by (simp add: numbered_begin)
  next
    case continue
    then show ?thesis using ok by (simp add: numbered_begin)
  next
    case (restarted input)
    show ?thesis
      by (rule numbered_same [of c w]) (use ok restarted in \<open>simp_all add: restart_def wf_ok_def wf_simps\<close>)
  next
    case (update_started sig st allocation)
    show ?thesis
      by (rule numbered_next [of c w]) (use ok update_started in \<open>auto dest!: adjust_begin_fields\<close>)
  qed (use ok in \<open>auto elim!: numbered_same simp: on_commit_def on_failure_def wf_simps\<close>)
  ultimately show "numbered c w' \<and> wf_ok w'" by simp
qed

lemma numbered_distinct:
  assumes "numbered c w" and "length (wf_seqnos w) \<le> 2 ^ 64"
  shows "distinct (wf_seqnos w)"
proof -
  have "inj_on (\<lambda>k. c + of_nat (Suc k) :: uint64) {0..<length (wf_seqnos w)}"
  proof (rule inj_onI)
    fix i j assume "i \<in> {0..<length (wf_seqnos w)}" "j \<in> {0..<length (wf_seqnos w)}"
      and "c + of_nat (Suc i) = c + (of_nat (Suc j) :: uint64)"
    then have "i < 2 ^ 64" "j < 2 ^ 64" "(of_nat i :: uint64) = of_nat j" using assms(2) by auto
    then show "i = j" by (simp add: word_of_nat_eq_iff take_bit_nat_eq_self)
  qed
  then show ?thesis
    using assms(1) unfolding numbered_def by (metis distinct_map distinct_upt set_upt)
qed

text \<open>The credits submitted so far, each under the identifier of a flush number of its own.\<close>

definition credit_id :: "hash \<Rightarrow> bytes16 \<Rightarrow> SubmitAllocationInput \<Rightarrow> uint64 \<Rightarrow> bool" where
  "credit_id H t a n \<longleftrightarrow>
     (\<exists>r l. LedgerID r = Inr l \<and> ai_TransferIDs a = [(r, DeriveAllocationTransferID H t n l)])"

definition credited :: "hash \<Rightarrow> bytes16 \<Rightarrow> wf \<Rightarrow> bool" where
  "credited H t w \<longleftrightarrow> st_TenantUUID (wf_state w) = t \<and>
     (\<exists>ns. list_all2 (credit_id H t) (wf_credits w) ns \<and> mset ns \<subseteq># mset (wf_seqnos w))"

lemma credited_same:
  assumes "credited H t w" "st_TenantUUID (wf_state w') = st_TenantUUID (wf_state w)"
    "wf_credits w' = wf_credits w" "mset (wf_seqnos w) \<subseteq># mset (wf_seqnos w')"
  shows "credited H t w'"
  using assms unfolding credited_def by (auto intro: subset_mset.order_trans)

lemma begin_flush_seqnos: "mset (wf_seqnos w) \<subseteq># mset (wf_seqnos (begin_flush H reason w))"
  by (rule begin_flush_cases [of w H reason]) (simp_all add: wf_simps)

lemma credited_begin: "credited H t w \<Longrightarrow> credited H t (begin_flush H reason w)"
  by (erule credited_same) (simp_all add: wf_simps begin_flush_seqnos)

lemma credited_heartbeat: "credited H t w \<Longrightarrow> credited H t (on_heartbeat H sig w)"
  by (rule on_heartbeat_cases [of w sig H]) (auto intro!: credited_begin elim: credited_same)

lemma credited_update:
  assumes "credited H t w" "adjust_begin H sig (wf_state w) = (st, Inr a)"
  shows "credited H t (w\<lparr>wf_state := st, wf_updates := us, wf_seqnos := wf_seqnos w @ [FlushSeqNo st],
    wf_credits := wf_credits w @ [a]\<rparr>)"
proof -
  obtain ns where ns: "list_all2 (credit_id H t) (wf_credits w) ns" "mset ns \<subseteq># mset (wf_seqnos w)"
    using assms(1) by (auto simp: credited_def)
  have "credit_id H t a (FlushSeqNo st)" "st_TenantUUID st = t"
    using assms by (auto simp: credited_def credit_id_def adjust_begin_def Let_def Uint128ToBytes_def split: sum.splits)
  with ns show ?thesis
    unfolding credited_def by (intro conjI exI [of _ "ns @ [FlushSeqNo st]"]) (simp_all add: list_all2_appendI)
qed

interpretation crediting: wf_invariant H "\<lambda>w. credited H t w \<and> wf_ok w" for H t
proof
  fix w w' assume step: "wf_step H w w'" and ok: "credited H t w \<and> wf_ok w"
  have "wf_ok w'" using pc.step [OF step] ok by blast
  moreover from step have "credited H t w'"
  proof cases
    case (heartbeat sig)
    then show ?thesis using ok by (simp add: credited_heartbeat)
  next
    case timer
    then show ?thesis using ok by (simp add: credited_begin)
  next
    case continue
    then show ?thesis using ok by (simp add: credited_begin)
  next
    case (restarted input)
    show ?thesis
      by (rule credited_same [of H t w]) (use ok restarted in \<open>simp_all add: restart_def wf_ok_def wf_simps\<close>)
  next
    case (update_started sig st allocation)
    then show ?thesis using ok by (simp add: credited_update)
  qed (use ok in \<open>auto elim!: credited_same simp: on_commit_def on_failure_def wf_simps\<close>)
  ultimately show "credited H t w' \<and> wf_ok w'" by simp
qed

lemma distinct_submultiset:
  assumes "mset ns \<subseteq># mset ms" "distinct ms"
  shows "distinct ns"
proof -
  obtain cs where "mset ms = mset (ns @ cs)"
    using assms(1) by (metis ex_mset mset_append mset_subset_eq_exists_conv)
  then show ?thesis using assms(2) mset_eq_imp_distinct_iff by fastforce
qed

text \<open>
  C21. No two credits of a tenant share a TigerBeetle transfer identifier.  Over restarts, and with
  credit updates interleaved into flushes and into each other anywhere, every credit is submitted
  under exactly one identifier, and the identifiers of different credits differ: provided that
  fewer than \<open>2^64\<close> numbers were taken and that the hash does not collide on the messages of the
  tenant's credits.  So TigerBeetle never takes one credit for a repetition of another.
\<close>

theorem credit_ids_distinct:
  assumes "wf_reach H (start input) w" and "length (wf_seqnos w) \<le> 2 ^ 64"
    and "collision_free H ((\<lambda>(n, l). alloc_msg (in_TenantUUID input) n l) ` (set (wf_seqnos w) \<times> {1, 2, 3}))"
    and "i < length (wf_credits w)" and "j < length (wf_credits w)" and "i \<noteq> j"
  shows "\<exists>r r' x y. ai_TransferIDs (wf_credits w ! i) = [(r, x)] \<and> ai_TransferIDs (wf_credits w ! j) = [(r', y)] \<and>
    x \<noteq> y"
proof -
  let ?t = "in_TenantUUID input"
  have "numbered (CarryFlushSeqNo input) (start input) \<and> wf_ok (start input)" "credited H ?t (start input)"
    by (simp_all add: numbered_def wf_ok_def credited_def wf_simps)
  then have "numbered (CarryFlushSeqNo input) w" "credited H ?t w"
    using numbering.reach [OF assms(1)] crediting.reach [OF assms(1)] by blast+
  then obtain ns where ns: "list_all2 (credit_id H ?t) (wf_credits w) ns" "distinct ns" "set ns \<subseteq> set (wf_seqnos w)"
    using numbered_distinct [OF _ assms(2)] distinct_submultiset set_mset_mono unfolding credited_def
    by (metis set_mset_mset)
  have len: "length ns = length (wf_credits w)" using ns(1) by (simp add: list_all2_lengthD)
  obtain r l where x: "LedgerID r = Inr l"
    "ai_TransferIDs (wf_credits w ! i) = [(r, DeriveAllocationTransferID H ?t (ns ! i) l)]"
    using ns(1) assms(4) by (auto simp: list_all2_conv_all_nth credit_id_def)
  obtain r' l' where y: "LedgerID r' = Inr l'"
    "ai_TransferIDs (wf_credits w ! j) = [(r', DeriveAllocationTransferID H ?t (ns ! j) l')]"
    using ns(1) assms(5) by (auto simp: list_all2_conv_all_nth credit_id_def)
  have known: "l \<in> {1, 2, 3}" "l' \<in> {1, 2, 3}" using x(1) y(1) by (auto simp: LedgerID_def split: if_splits)
  have "ns ! i \<in> set (wf_seqnos w)" "ns ! j \<in> set (wf_seqnos w)" "ns ! i \<noteq> ns ! j"
    using ns(2,3) len assms(4-6) by (auto simp: nth_eq_iff_index_eq)
  with known have "DeriveAllocationTransferID H ?t (ns ! i) l \<noteq> DeriveAllocationTransferID H ?t (ns ! j) l'"
    using alloc_ids.derived_inject [OF assms(3), of "(?t, ns ! i, l)" "(?t, ns ! j, l')"]
    by (auto simp: DeriveAllocationTransferID_def)
  with x(2) y(2) show ?thesis by blast
qed

section \<open>Acknowledgements\<close>

definition acked :: "wf \<Rightarrow> bool" where
  "acked w \<longleftrightarrow>
     (LastAck (wf_state w) = 0 \<or> (\<exists>hb \<in> set (concat (wf_flushed w)). SequenceNumber hb = LastAck (wf_state w))) \<and>
     (\<forall>hb \<in> set (concat (wf_flushed w)). SequenceNumber hb \<le> LastAck (wf_state w))"

lemma acked_same:
  "acked w \<Longrightarrow> LastAck (wf_state w') = LastAck (wf_state w) \<Longrightarrow> wf_flushed w' = wf_flushed w \<Longrightarrow> acked w'"
  by (simp add: acked_def)

lemma acked_heartbeat: "acked w \<Longrightarrow> acked (on_heartbeat H sig w)"
  by (rule on_heartbeat_cases [of w sig H]) (auto elim!: acked_same simp: wf_simps)

lemma acked_commit:
  assumes "acked w"
  shows "acked (on_commit result reason w)"
proof -
  let ?b = "CurBatch (wf_state w)" and ?a = "LastAck (wf_state w)"
  have "hb \<in> set (concat (wf_flushed w)) \<Longrightarrow> SequenceNumber hb \<le> ack_after ?b ?a" for hb
    using assms ack_after_ge(1) [of ?a ?b] unfolding acked_def by (meson order_trans)
  then show ?thesis
    using assms ack_after_in [of ?b ?a] ack_after_ge(2) [of _ ?b ?a]
    by (auto simp: acked_def on_commit_def)
qed

interpretation acks: wf_invariant H "\<lambda>w. acked w \<and> wf_ok w" for H
proof
  fix w w' assume step: "wf_step H w w'" and ok: "acked w \<and> wf_ok w"
  have "wf_ok w'" using pc.step [OF step] ok by blast
  moreover from step have "acked w'"
  proof cases
    case (heartbeat sig)
    then show ?thesis using ok by (simp add: acked_heartbeat)
  next
    case (committed reason input result)
    then show ?thesis using ok by (simp add: acked_commit)
  next
    case (restarted input)
    show ?thesis
      by (rule acked_same [of w]) (use ok restarted in \<open>simp_all add: restart_def wf_ok_def wf_simps\<close>)
  next
    case (update_started sig st allocation)
    show ?thesis
      by (rule acked_same [of w]) (use ok update_started in \<open>auto dest!: adjust_begin_fields\<close>)
  qed (use ok in \<open>auto elim!: acked_same simp: on_failure_def wf_simps\<close>)
  ultimately show "acked w' \<and> wf_ok w'" by simp
qed


section \<open>Whole handlers are runs of the machine\<close>

lemma flush_run:
  "\<exists>w'. wf_reach H (begin_flush H reason w) (finish_flush reason w') \<and>
     wf_state w' = fst (flushBatch H acts (wf_state w) x)"
proof (cases "CurBatch (wf_state w) = []")
  case True
  then show ?thesis by (auto simp: begin_flush_def flushBatch_def)
next
  case False
  let ?st = "(wf_state w)\<lparr>FlushSeqNo := FlushSeqNo (wf_state w) + 1\<rparr>"
  obtain input where input: "flush_begin H (wf_state w) = (?st, Inr input)" by (rule flush_begin_total)
  define w1 where "w1 = begin_flush H reason w"
  have w1: "wf_main w1 = Submitting reason input" "wf_state w1 = ?st"
    using False input by (simp_all add: w1_def begin_flush_def)
  obtain x1 r where act: "act_SubmitTBBatch acts input x = (x1, r)" by fastforce
  show ?thesis
  proof (cases r)
    case (Inl e)
    let ?w = "w1\<lparr>wf_failures := Suc (wf_failures w1)\<rparr>"
    have "wf_step H w1 (finish_flush reason ?w)"
      using failed [of w1 reason input H] w1(1) by (simp add: on_failure_def)
    moreover have "wf_state ?w = fst (flushBatch H acts (wf_state w) x)"
      using False input act Inl w1(2) by (simp add: flushBatch_def)
    ultimately show ?thesis unfolding w1_def by blast
  next
    case (Inr result)
    let ?w = "on_commit result reason w1"
    have "wf_step H w1 ?w" using committed [of w1 reason input H result] w1(1) by simp
    moreover have "wf_step H ?w (finish_flush reason ?w)" by (rule projected) (simp add: on_commit_def)
    moreover have "wf_state ?w = fst (flushBatch H acts (wf_state w) x)"
      using False input act Inr w1(2) by (simp add: flushBatch_def on_commit_def Let_def)
    ultimately show ?thesis unfolding w1_def by (meson converse_rtranclp_into_rtranclp rtranclp.rtrancl_refl)
  qed
qed

lemma finish_flush_state:
  "wf_state (finish_flush ByThreshold w) = (wf_state w)\<lparr>CurrentFlushInterval := baseFlushInterval\<rparr>"
  "wf_state (finish_flush (ByTimer b) w) =
     (wf_state w)\<lparr>CurrentFlushInterval := next_interval b (CurrentFlushInterval (wf_state w))\<rparr>"
  by (simp_all add: finish_flush_def set_interval_def)

lemma heartbeat_run:
  assumes "wf_main w = Selecting"
  shows "\<exists>w'. wf_reach H w w' \<and> wf_main w' = Selecting \<and>
    wf_state w' = fst (handle_heartbeat H acts sig (wf_state w) x)"
proof -
  have hb: "wf_reach H (on_heartbeat H sig w) w2 \<Longrightarrow> wf_reach H w w2" for w2
    by (rule converse_rtranclp_into_rtranclp) (rule heartbeat [OF assms])
  show ?thesis
  proof (cases rule: on_heartbeat_cases [of w sig H])
    case skip
    then show ?thesis using assms by (auto simp: handle_heartbeat_def)
  next
    case (append w1)
    then show ?thesis
      using hb [of w1] assms by (auto simp: handle_heartbeat_def Let_def wf_simps not_le)
  next
    case (full w1)
    obtain w' where "wf_reach H (begin_flush H ByThreshold w1) (finish_flush ByThreshold w')"
      and st: "wf_state w' = fst (flushBatch H acts (wf_state w1) x)"
      using flush_run [of H ByThreshold w1 acts x] by blast
    then have "wf_reach H w (finish_flush ByThreshold w')" using hb full by simp
    moreover have "wf_state (finish_flush ByThreshold w') = fst (handle_heartbeat H acts sig (wf_state w) x)"
      using full st by (auto simp: handle_heartbeat_def Let_def wf_simps finish_flush_state split: prod.splits)
    ultimately show ?thesis by (auto simp: wf_simps intro!: exI [of _ "finish_flush ByThreshold w'"])
  qed
qed

lemma timer_run:
  assumes "wf_main w = Selecting"
  shows "\<exists>w'. wf_reach H w w' \<and> wf_main w' = Selecting \<and> wf_state w' = fst (handle_timer H acts (wf_state w) x)"
proof -
  let ?reason = "ByTimer (CurBatch (wf_state w) \<noteq> [])"
  obtain w' where "wf_reach H (begin_flush H ?reason w) (finish_flush ?reason w')"
    and st: "wf_state w' = fst (flushBatch H acts (wf_state w) x)"
    using flush_run [of H ?reason w acts x] by blast
  then have "wf_reach H w (finish_flush ?reason w')"
    using converse_rtranclp_into_rtranclp [of "wf_step H", OF timer [OF assms]] by blast
  moreover have "wf_state (finish_flush ?reason w') = fst (handle_timer H acts (wf_state w) x)"
    using st by (auto simp: handle_timer_def Let_def finish_flush_state split: prod.splits)
  ultimately show ?thesis by (auto simp: wf_simps intro!: exI [of _ "finish_flush ?reason w'"])
qed

lemma continue_run:
  assumes "wf_main w = Selecting"
  shows "\<exists>w'. wf_reach H w w' \<and> wf_main w' = Continued (fst (handle_continue H acts (wf_state w) x))"
proof -
  obtain w' where "wf_reach H (begin_flush H ByContinue w) (finish_flush ByContinue w')"
    and st: "wf_state w' = fst (flushBatch H acts (wf_state w) x)"
    using flush_run [of H ByContinue w acts x] by blast
  then have "wf_reach H w (finish_flush ByContinue w')"
    using converse_rtranclp_into_rtranclp [of "wf_step H", OF continue [OF assms]] by blast
  then show ?thesis
    using st by (auto simp: handle_continue_def wf_simps split: prod.splits
        intro!: exI [of _ "finish_flush ByContinue w'"])
qed

text \<open>
  The handlers as written, each run to its end with nothing interleaved, are runs of the step
  machine: receiving a heartbeat (with the flush it may trigger), the timer, and continue-as-new
  leave the machine waiting for the next event in exactly the state the handler computes, or
  continuing with exactly the input it computes, whatever the activities answer.
\<close>

lemma handlers_are_runs:
  assumes "wf_main w = Selecting"
  shows "(\<exists>w'. wf_reach H w w' \<and> wf_main w' = Selecting \<and>
      wf_state w' = fst (handle_heartbeat H acts sig (wf_state w) x)) \<and>
    (\<exists>w'. wf_reach H w w' \<and> wf_main w' = Selecting \<and> wf_state w' = fst (handle_timer H acts (wf_state w) x)) \<and>
    (\<exists>w'. wf_reach H w w' \<and> wf_main w' = Continued (fst (handle_continue H acts (wf_state w) x)))"
  by (intro conjI heartbeat_run timer_run continue_run assms)

section \<open>Waiting heartbeats can always be committed\<close>

definition spec_commit :: "spec \<Rightarrow> spec" where
  "spec_commit s = \<lparr>marks = marks_after (pending s) (marks s), pending = [], batches = batches s @ [pending s]\<rparr>"

lemma finish_run:
  assumes "CurBatch (wf_state w) = []"
  shows "\<exists>w'. wf_reach H (finish_flush reason w) w' \<and> wf_main w' = Selecting \<and> abs_wf w' = abs_wf w"
proof (cases "reason = ByContinue")
  case True
  let ?w = "restart (continue_input (wf_state w)) (finish_flush reason w)"
  have "wf_step H (finish_flush reason w) ?w" by (rule restarted) (simp add: True wf_simps)
  then show ?thesis
    using assms by (intro exI [of _ ?w]) (auto simp: restart_def abs_wf_def wf_simps)
next
  case False
  then show ?thesis by (intro exI [of _ "finish_flush reason w"]) (simp add: wf_simps)
qed

lemma project_run:
  assumes "CurBatch (wf_state w) = []" and "wf_main w = Projecting reason"
  shows "\<exists>w'. wf_reach H w w' \<and> wf_main w' = Selecting \<and> abs_wf w' = abs_wf w"
  using finish_run [OF assms(1), of H reason] projected [OF assms(2), of H]
  by (meson converse_rtranclp_into_rtranclp)

lemma commit_run:
  assumes "wf_main w = Submitting reason input"
  shows "\<exists>w'. wf_reach H w w' \<and> wf_main w' = Selecting \<and> abs_wf w' = spec_commit (abs_wf w)"
proof -
  let ?w1 = "on_commit \<lparr>PerResource = [], GaugeUpdates = []\<rparr> reason w"
  have step: "wf_step H w ?w1" by (rule committed) (rule assms)
  obtain w' where "wf_reach H ?w1 w'" "wf_main w' = Selecting" "abs_wf w' = abs_wf ?w1"
    using project_run [of ?w1 reason H] by (auto simp: on_commit_def)
  moreover have "abs_wf ?w1 = spec_commit (abs_wf w)"
    by (simp add: on_commit_def abs_wf_def spec_commit_def)
  ultimately show ?thesis
    using step by (intro exI [of _ w']) (auto intro: converse_rtranclp_into_rtranclp)
qed

lemma flush_now:
  assumes "wf_main w = Selecting" and "CurBatch (wf_state w) \<noteq> []"
  shows "\<exists>w'. wf_reach H w w' \<and> wf_main w' = Selecting \<and> abs_wf w' = spec_commit (abs_wf w)"
proof -
  let ?w1 = "begin_flush H (ByTimer True) w"
  have step: "wf_step H w ?w1" using timer [OF assms(1), of H] assms(2) by simp
  obtain i where "wf_main ?w1 = Submitting (ByTimer True) i"
    using assms(2) by (cases rule: begin_flush_cases [of w H "ByTimer True"]) simp_all
  from commit_run [OF this, of H] step show ?thesis
    by simp (meson converse_rtranclp_into_rtranclp)
qed

lemma spec_commit_abs:
  "abs_wf w' = spec_commit (abs_wf w) \<Longrightarrow>
     CurBatch (wf_state w') = [] \<and> wf_flushed w' = wf_flushed w @ [CurBatch (wf_state w)] \<and>
     mark_of (wf_state w') = marks_after (CurBatch (wf_state w)) (mark_of (wf_state w))"
  by (simp add: spec_commit_def abs_wf_def)


section \<open>Concrete runs\<close>

definition demo_start :: TenantAccountingInput where
  "demo_start = \<lparr>in_TenantID = ''t'', in_TenantUUID = 7, in_AccountMap = [(''cpu_hours'', 50)],
     in_GlobalOperatorIDs = [], in_GlobalSinkIDs = [], CarryProcessedSeqs = [], CarryPendingGaugeIDs = [],
     CarryExceededResources = [], CarryLastAck = 0, CarryFlushSeqNo = 0\<rparr>"

definition demo_hb :: "uint64 \<Rightarrow> HeartbeatSignal" where
  "demo_hb n = \<lparr>ClusterID = ''c'', ClusterUUID = 9, SequenceNumber = n, CPUMillisecondsDelta = 1,
     MemoryMBSecondsDelta = 0, ActiveNodes = 0, HeartbeatTimestampNs = 0\<rparr>"

text \<open>One heartbeat in an otherwise empty batch, received and committed.\<close>

lemma single_flush:
  assumes "wf_main w = Selecting" "CurBatch (wf_state w) = []" "\<not> already_processed (wf_state w) sig"
  shows "\<exists>w'. wf_reach H w w' \<and> wf_main w' = Selecting \<and> CurBatch (wf_state w') = [] \<and>
    wf_flushed w' = wf_flushed w @ [[sig]] \<and> mark_of (wf_state w') = raise_mark sig (mark_of (wf_state w))"
proof -
  let ?w1 = "on_heartbeat H sig w"
  have w1: "wf_main ?w1 = Selecting" "CurBatch (wf_state ?w1) = [sig]" "wf_flushed ?w1 = wf_flushed w"
    "mark_of (wf_state ?w1) = mark_of (wf_state w)"
    using assms by (simp_all add: on_heartbeat_def wf_simps batchSizeThreshold_def Let_def)
  obtain w' where w': "wf_reach H ?w1 w'" "wf_main w' = Selecting" "abs_wf w' = spec_commit (abs_wf ?w1)"
    using flush_now [of ?w1 H] w1 by auto
  have "wf_step H w ?w1" by (rule heartbeat) (rule assms)
  then have "wf_reach H w w'" using w'(1) by (rule converse_rtranclp_into_rtranclp)
  then show ?thesis
    using w'(2) spec_commit_abs [OF w'(3)] w1 by (auto simp: marks_after_def)
qed

lemma demo_run:
  obtains w where "wf_reach demo_hash (start demo_start) w" "wf_main w = Selecting" "CurBatch (wf_state w) = []"
    "wf_flushed w = [[demo_hb 5], [demo_hb 6]]"
proof -
  obtain w1 where w1: "wf_reach demo_hash (start demo_start) w1" "wf_main w1 = Selecting"
    "CurBatch (wf_state w1) = []" "wf_flushed w1 = [[demo_hb 5]]" "mark_of (wf_state w1) = [''c'' \<mapsto> 5]"
    using single_flush [of "start demo_start" "demo_hb 5" demo_hash]
    by (auto simp: wf_simps already_processed_def demo_start_def demo_hb_def raise_mark_def)
  then obtain w2 where w2: "wf_reach demo_hash w1 w2" "wf_main w2 = Selecting" "CurBatch (wf_state w2) = []"
    "wf_flushed w2 = [[demo_hb 5], [demo_hb 6]]"
    using single_flush [of w1 "demo_hb 6" demo_hash] by (auto simp: already_processed_def demo_hb_def)
  with w1 that show ?thesis by (meson rtranclp_trans)
qed

theorem flush_interval_bounded_witness:
  "\<exists>w. wf_reach demo_hash (start demo_start) w \<and> wf_flushed w \<noteq> [] \<and>
     CurrentFlushInterval (wf_state w) \<in> (*) Second ` {2, 4, 8, 16, 32, 60}"
proof -
  obtain w where w: "wf_reach demo_hash (start demo_start) w" "wf_flushed w = [[demo_hb 5], [demo_hb 6]]"
    by (rule demo_run)
  then show ?thesis using flush_interval_bounded [OF w(1)] by auto
qed

theorem workflow_refines_spec_witness:
  "\<exists>w'. wf_step demo_hash (start demo_start) w' \<and> spec_step (abs_wf (start demo_start)) (abs_wf w')"
proof -
  let ?w = "on_heartbeat demo_hash (demo_hb 5) (start demo_start)"
  have step: "wf_step demo_hash (start demo_start) ?w" by (rule heartbeat) (simp add: wf_simps)
  have "abs_wf ?w \<noteq> abs_wf (start demo_start)"
    by (simp add: on_heartbeat_def wf_simps already_processed_def demo_start_def demo_hb_def
        batchSizeThreshold_def abs_wf_def Let_def)
  then show ?thesis using workflow_refines_spec [OF rtranclp.rtrancl_refl step] step by blast
qed


theorem heartbeats_accounted_witness:
  "\<exists>w. wf_reach demo_hash (start demo_start) w \<and>
     mset (wf_received w) = {#demo_hb 5, demo_hb 6#} + mset (wf_dropped w)"
proof -
  obtain w where w: "wf_reach demo_hash (start demo_start) w" "CurBatch (wf_state w) = []"
    "wf_flushed w = [[demo_hb 5], [demo_hb 6]]" "wf_main w = Selecting"
    by (rule demo_run)
  then show ?thesis using heartbeats_accounted [OF w(1)] by auto
qed

text \<open>A heartbeat whose first submission fails: it waits with two flush numbers used.\<close>

lemma demo_failed_flush:
  obtains w where "wf_reach demo_hash (start demo_start) w" "wf_seqnos w = [1, 2]"
proof -
  define w1 where "w1 = on_heartbeat demo_hash (demo_hb 5) (start demo_start)"
  have w1: "wf_main w1 = Selecting" "CurBatch (wf_state w1) = [demo_hb 5]" "wf_seqnos w1 = []"
    "FlushSeqNo (wf_state w1) = 0"
    by (simp_all add: w1_def on_heartbeat_def wf_simps already_processed_def demo_start_def demo_hb_def
        batchSizeThreshold_def Let_def)
  define w2 where "w2 = begin_flush demo_hash (ByTimer True) w1"
  obtain i where w2: "wf_main w2 = Submitting (ByTimer True) i" "wf_seqnos w2 = [1]" "FlushSeqNo (wf_state w2) = 1"
    "CurBatch (wf_state w2) \<noteq> []"
    using w1 by (cases rule: begin_flush_cases [of w1 demo_hash "ByTimer True"]) (simp_all add: w2_def)
  define w3 where "w3 = on_failure (ByTimer True) w2"
  have w3: "wf_main w3 = Selecting" "wf_seqnos w3 = [1]" "FlushSeqNo (wf_state w3) = 1" "CurBatch (wf_state w3) \<noteq> []"
    using w2 by (simp_all add: w3_def on_failure_def wf_simps)
  define w4 where "w4 = begin_flush demo_hash (ByTimer True) w3"
  have "wf_seqnos w4 = [1, 2]"
    using w3 by (cases rule: begin_flush_cases [of w3 demo_hash "ByTimer True"]) (simp_all add: w4_def)
  moreover have "wf_step demo_hash (start demo_start) w1" unfolding w1_def by (rule heartbeat) (simp add: wf_simps)
  moreover have "wf_step demo_hash w1 w2" using timer [of w1 demo_hash] w1 by (simp add: w2_def)
  moreover have "wf_step demo_hash w2 w3" unfolding w3_def by (rule failed) (rule w2)
  moreover have "wf_step demo_hash w3 w4" using timer [of w3 demo_hash] w3 by (simp add: w4_def)
  ultimately show ?thesis using that by (meson converse_rtranclp_into_rtranclp rtranclp.rtrancl_refl)
qed

definition demo_topup :: "int64 \<Rightarrow> QuotaAdjustmentSignal" where
  "demo_topup n = \<lparr>adj_ResourceType = ResourceCPUHours, adj_Amount = n, adj_Reason = [], adj_Code = 0\<rparr>"

text \<open>A hash whose identifiers show the tail of the message.\<close>

definition demo_tail_hash :: hash where
  "demo_tail_hash m = take 32 (rev m @ replicate 32 0)"

text \<open>Two equal credits, the second started while the first still waits for its activity.\<close>

lemma demo_two_credits:
  obtains w where "wf_reach demo_tail_hash (start demo_start) w" "length (wf_credits w) = 2" "wf_seqnos w = [1, 2]"
proof -
  let ?st = "initial_state demo_start"
  have credit: "\<exists>a. validate_adjustment (?st\<lparr>FlushSeqNo := n\<rparr>) (demo_topup 5) = Inr () \<and>
      adjust_begin demo_tail_hash (demo_topup 5) (?st\<lparr>FlushSeqNo := n\<rparr>) = (?st\<lparr>FlushSeqNo := n + 1\<rparr>, Inr a)" for n
    by (simp add: validate_adjustment_def adjust_begin_def demo_topup_def demo_start_def initial_state_def
        LedgerID_def Let_def resource_names)
  have st0: "?st = ?st\<lparr>FlushSeqNo := 0\<rparr>" by (simp add: initial_state_def demo_start_def)
  obtain a b where a: "validate_adjustment ?st (demo_topup 5) = Inr ()"
    "adjust_begin demo_tail_hash (demo_topup 5) ?st = (?st\<lparr>FlushSeqNo := 1\<rparr>, Inr a)"
    and b: "validate_adjustment (?st\<lparr>FlushSeqNo := 1\<rparr>) (demo_topup 5) = Inr ()"
    "adjust_begin demo_tail_hash (demo_topup 5) (?st\<lparr>FlushSeqNo := 1\<rparr>) = (?st\<lparr>FlushSeqNo := 2\<rparr>, Inr b)"
    using credit [of 0] credit [of 1] st0 by auto
  let ?w0 = "start demo_start"
  let ?w1 = "?w0\<lparr>wf_state := ?st\<lparr>FlushSeqNo := 1\<rparr>, wf_updates := [Allocating (demo_topup 5) a],
    wf_seqnos := [1], wf_credits := [a]\<rparr>"
  let ?w2 = "?w1\<lparr>wf_state := ?st\<lparr>FlushSeqNo := 2\<rparr>,
    wf_updates := [Allocating (demo_topup 5) a, Allocating (demo_topup 5) b],
    wf_seqnos := [1, 2], wf_credits := [a, b]\<rparr>"
  have "wf_step demo_tail_hash ?w0 ?w1"
    using update_started [of ?w0 "demo_topup 5" demo_tail_hash "?st\<lparr>FlushSeqNo := 1\<rparr>" a] a
    by (simp add: wf_simps running_def)
  moreover have "wf_step demo_tail_hash ?w1 ?w2"
    using update_started [of ?w1 "demo_topup 5" demo_tail_hash "?st\<lparr>FlushSeqNo := 2\<rparr>" b] b
    by (simp add: wf_simps running_def)
  ultimately have "wf_reach demo_tail_hash ?w0 ?w2" by (meson converse_rtranclp_into_rtranclp rtranclp.rtrancl_refl)
  then show ?thesis by (rule that) simp_all
qed

theorem credit_ids_distinct_witness:
  "\<exists>w r r' x y. wf_reach demo_tail_hash (start demo_start) w \<and> ai_TransferIDs (wf_credits w ! 0) = [(r, x)] \<and>
     ai_TransferIDs (wf_credits w ! 1) = [(r', y)] \<and> x \<noteq> y"
proof -
  obtain w where w: "wf_reach demo_tail_hash (start demo_start) w" "length (wf_credits w) = 2" "wf_seqnos w = [1, 2]"
    by (rule demo_two_credits)
  have "collision_free demo_tail_hash ((\<lambda>(n, l). alloc_msg 7 n l) ` (set [1, 2] \<times> {1, 2, 3}))" by code_simp
  then have cf: "collision_free demo_tail_hash
      ((\<lambda>(n, l). alloc_msg (in_TenantUUID demo_start) n l) ` (set (wf_seqnos w) \<times> {1, 2, 3}))"
    unfolding w(3) by (simp only: demo_start_def TenantAccountingInput.select_convs)
  from credit_ids_distinct [OF w(1) _ cf, of 0 1] w show ?thesis by auto
qed

text \<open>Two copies of a heartbeat that arrive before the flush end up in the same committed batch.\<close>

lemma copies_share_batch:
  "\<exists>w. wf_reach demo_hash (start demo_start) w \<and> wf_flushed w = [[demo_hb 5, demo_hb 5]]"
proof -
  let ?w1 = "on_heartbeat demo_hash (demo_hb 5) (start demo_start)"
  let ?w2 = "on_heartbeat demo_hash (demo_hb 5) ?w1"
  have w: "wf_main ?w1 = Selecting" "wf_main ?w2 = Selecting" "CurBatch (wf_state ?w2) = [demo_hb 5, demo_hb 5]"
    "wf_flushed ?w2 = []"
    by (simp_all add: on_heartbeat_def wf_simps already_processed_def demo_start_def demo_hb_def
        batchSizeThreshold_def Let_def)
  obtain w' where w': "wf_reach demo_hash ?w2 w'" "abs_wf w' = spec_commit (abs_wf ?w2)"
    using flush_now [of ?w2 demo_hash] w by auto
  have "wf_step demo_hash (start demo_start) ?w1" by (rule heartbeat) (simp add: wf_simps)
  moreover have "wf_step demo_hash ?w1 ?w2" by (rule heartbeat) (rule w)
  ultimately have "wf_reach demo_hash (start demo_start) w'"
    using w'(1) by (meson converse_rtranclp_into_rtranclp)
  then show ?thesis using spec_commit_abs [OF w'(2)] w by auto
qed

lemma batch_bounded_witness:
  "wf_failures (start demo_start) = 0 \<and> length (CurBatch (wf_state (start demo_start))) < 150"
  using batch_bounded [of demo_hash demo_start "start demo_start"] by (simp add: wf_simps)


lemma handlers_are_runs_witness:
  "\<exists>w'. wf_reach demo_hash (start demo_start) w' \<and> wf_main w' = Selecting \<and>
     wf_state w' = fst (handle_timer demo_hash (demo_acts (Inr demo_result)) (initial_state demo_start) ())"
  using handlers_are_runs [of "start demo_start" demo_hash "demo_acts (Inr demo_result)" "demo_hb 5" "()"]
  by (simp add: wf_simps)


section \<open>What a failed flush before continue-as-new loses\<close>

text \<open>When the flush before continue-as-new fails, the waiting heartbeats are not carried over.\<close>

lemma continue_after_failure_drops:
  assumes "wf_main w = Submitting ByContinue input"
  shows "\<exists>w'. wf_reach H w w' \<and> wf_main w' = Selecting \<and> CurBatch (wf_state w') = [] \<and>
    wf_flushed w' = wf_flushed w \<and> wf_dropped w' = wf_dropped w @ CurBatch (wf_state w)"
proof -
  let ?w1 = "on_failure ByContinue w"
  let ?w2 = "restart (continue_input (wf_state w)) ?w1"
  have "wf_step H w ?w1" by (rule failed) (rule assms)
  moreover have "wf_step H ?w1 ?w2" by (rule restarted) (simp add: on_failure_def wf_simps)
  ultimately have "wf_reach H w ?w2" by (meson converse_rtranclp_into_rtranclp rtranclp.rtrancl_refl)
  then show ?thesis by (intro exI [of _ ?w2]) (simp add: restart_def on_failure_def wf_simps)
qed

end
