(* ===== verification/Provisioning_Workflow.thy ===== *)
theory Provisioning_Workflow
  imports Workflow_Machine
begin

text \<open>
  \<open>internal/accounting/workflow_provisioning.go\<close>: the workflows that create a tenant and register a
  cluster.  The activities, the start of the child workflow and the signal to a running workflow
  are calls out to the world, collected in \<open>prov_calls\<close>; \<open>pg_calls\<close> fills in the PostgreSQL
  activities of theory \<open>PG_Activities\<close> under the retry policy of the workflow.
\<close>

section \<open>Definitions\<close>

record TenantProvisioningInput =
  pv_TenantID :: string
  pv_TenantUUID :: bytes16
  pv_Name :: string
  pv_BillingTier :: string
  pv_Credits :: "(string, int64) gomap"
  pv_GlobalOperatorIDs :: id_map
  pv_GlobalSinkIDs :: id_map
  pv_PeriodStartNs :: int64

record RegisterClusterWorkflowInput =
  rc_ClusterID :: string
  rc_TenantID :: string
  rc_CloudProvider :: string
  rc_Region :: string

record 'w prov_calls =
  call_InsertTenant :: "InsertTenantInput \<Rightarrow> 'w \<Rightarrow> 'w \<times> unit result"
  call_CreateTenantTBAccounts :: "bytes16 \<Rightarrow> 'w \<Rightarrow> 'w \<times> id_map result"
  call_InsertTBAccountMapping :: "InsertTBAccountMappingInput \<Rightarrow> 'w \<Rightarrow> 'w \<times> unit result"
  call_SubmitAllocationTransfers :: "SubmitAllocationInput \<Rightarrow> 'w \<Rightarrow> 'w \<times> unit result"
  call_InsertCluster :: "InsertClusterInput \<Rightarrow> 'w \<Rightarrow> 'w \<times> unit result"
  call_StartAccounting :: "string \<Rightarrow> TenantAccountingInput \<Rightarrow> 'w \<Rightarrow> 'w \<times> unit result"
  call_SignalRegister :: "string \<Rightarrow> RegisterClusterSignal \<Rightarrow> 'w \<Rightarrow> 'w \<times> unit result"

definition AccountingWorkflowID :: "string \<Rightarrow> string" where
  "AccountingWorkflowID tenantID = ''tenant-accounting-'' @ tenantID"

definition ProvisioningWorkflowID :: "string \<Rightarrow> string" where
  "ProvisioningWorkflowID tenantID = ''tenant-provisioning-'' @ tenantID"

definition ClusterRegistrationWorkflowID :: "string \<Rightarrow> string" where
  "ClusterRegistrationWorkflowID clusterID = ''cluster-registration-'' @ clusterID"

text \<open>The deterministic identifiers of the initial allocation; an unknown resource panics.\<close>

definition allocTransferIDs :: "hash \<Rightarrow> TenantProvisioningInput \<Rightarrow> id_map result" where
  "allocTransferIDs H input =
     traverse (\<lambda>(r, _).
       case LedgerID r of
         Inl e \<Rightarrow> Inl e
       | Inr l \<Rightarrow> Inr (r, Uint128ToBytes
           (DeriveAllocationTransferID H (pv_TenantUUID input) (pv_PeriodStartNs input) l))) (pv_Credits input)"

definition initial_allocation ::
    "TenantProvisioningInput \<Rightarrow> id_map \<Rightarrow> id_map \<Rightarrow> SubmitAllocationInput" where
  "initial_allocation input accountIDs transferIDs =
     \<lparr>ai_TenantUUID = pv_TenantUUID input, ai_TenantQuotaIDs = accountIDs,
      ai_GlobalOperatorIDs = pv_GlobalOperatorIDs input, ai_Credits = pv_Credits input,
      ai_PeriodStartNs = pv_PeriodStartNs input, ai_TransferIDs = transferIDs\<rparr>"

definition accounting_input :: "TenantProvisioningInput \<Rightarrow> id_map \<Rightarrow> TenantAccountingInput" where
  "accounting_input input accountIDs =
     \<lparr>in_TenantID = pv_TenantID input, in_TenantUUID = pv_TenantUUID input, in_AccountMap = accountIDs,
      in_GlobalOperatorIDs = pv_GlobalOperatorIDs input, in_GlobalSinkIDs = pv_GlobalSinkIDs input,
      CarryProcessedSeqs = [], CarryPendingGaugeIDs = [], CarryExceededResources = [],
      CarryLastAck = 0, CarryFlushSeqNo = 0\<rparr>"

text \<open>Step 5: a workflow that already runs under the stable identifier is reused.\<close>

definition start_accounting ::
    "'w prov_calls \<Rightarrow> TenantProvisioningInput \<Rightarrow> id_map \<Rightarrow> 'w \<Rightarrow> 'w \<times> id_map result" where
  "start_accounting calls input accountIDs w =
     (case call_StartAccounting calls (AccountingWorkflowID (pv_TenantID input))
             (accounting_input input accountIDs) w of
        (w1, Inl e) \<Rightarrow>
          if errors_Is e ErrAlreadyStarted then (w1, Inr accountIDs)
          else (w1, Inl (Wrap ''start TenantAccountingWorkflow'' e))
      | (w1, Inr _) \<Rightarrow> (w1, Inr accountIDs))"

definition load_wallet ::
    "'w prov_calls \<Rightarrow> hash \<Rightarrow> TenantProvisioningInput \<Rightarrow> id_map \<Rightarrow> 'w \<Rightarrow> 'w \<times> unit result" where
  "load_wallet calls H input accountIDs w =
     (case allocTransferIDs H input of
        Inl e \<Rightarrow> (w, Inl e)
      | Inr transferIDs \<Rightarrow>
          wrap_error ''SubmitAllocationTransfers''
            (call_SubmitAllocationTransfers calls (initial_allocation input accountIDs transferIDs) w))"

definition TenantProvisioningWorkflow ::
    "'w prov_calls \<Rightarrow> hash \<Rightarrow> TenantProvisioningInput \<Rightarrow> 'w \<Rightarrow> 'w \<times> id_map result" where
  "TenantProvisioningWorkflow calls H input w =
     (case call_InsertTenant calls
             \<lparr>it_TenantID = pv_TenantID input, it_Name = pv_Name input, it_BillingTier = pv_BillingTier input\<rparr> w of
        (w1, Inl e) \<Rightarrow> (w1, Inl (Wrap ''InsertTenant'' e))
      | (w1, Inr _) \<Rightarrow>
        (case call_CreateTenantTBAccounts calls (pv_TenantUUID input) w1 of
           (w2, Inl e) \<Rightarrow> (w2, Inl (Wrap ''CreateTenantTBAccounts'' e))
         | (w2, Inr accountIDs) \<Rightarrow>
           (case call_InsertTBAccountMapping calls
                   \<lparr>im_TenantID = pv_TenantID input, im_AccountMap = accountIDs\<rparr> w2 of
              (w3, Inl e) \<Rightarrow> (w3, Inl (Wrap ''InsertTBAccountMapping'' e))
            | (w3, Inr _) \<Rightarrow>
              (case load_wallet calls H input accountIDs w3 of
                 (w4, Inl e) \<Rightarrow> (w4, Inl e)
               | (w4, Inr _) \<Rightarrow> start_accounting calls input accountIDs w4))))"

definition RegisterClusterWorkflow ::
    "'w prov_calls \<Rightarrow> RegisterClusterWorkflowInput \<Rightarrow> 'w \<Rightarrow> 'w \<times> unit result" where
  "RegisterClusterWorkflow calls input w =
     (case call_InsertCluster calls
             \<lparr>ic_ClusterID = rc_ClusterID input, ic_TenantID = rc_TenantID input,
              ic_CloudProvider = rc_CloudProvider input, ic_Region = rc_Region input\<rparr> w of
        (w1, Inl e) \<Rightarrow> (w1, Inl (Wrap ''InsertCluster'' e))
      | (w1, Inr _) \<Rightarrow>
          call_SignalRegister calls (AccountingWorkflowID (rc_TenantID input))
            \<lparr>reg_ClusterID = rc_ClusterID input\<rparr> w1)"

section \<open>The world of a deployment\<close>

text \<open>
  A world holds the TigerBeetle service, the database, the accounting workflows that run (by
  identifier) and the signals sent to them.
\<close>

record 'tb world =
  w_tb :: 'tb
  w_pg :: pg
  w_workflows :: "(string, TenantAccountingInput) gomap"
  w_signals :: "(string \<times> RegisterClusterSignal) list"

definition on_pg :: "(pg \<Rightarrow> pg \<times> 'a result) \<Rightarrow> 'tb world \<Rightarrow> 'tb world \<times> 'a result" where
  "on_pg f w = (case f (w_pg w) of (db, r) \<Rightarrow> (w\<lparr>w_pg := db\<rparr>, r))"

definition on_tb :: "('tb \<Rightarrow> 'tb \<times> 'a result) \<Rightarrow> 'tb world \<Rightarrow> 'tb world \<times> 'a result" where
  "on_tb f w = (case f (w_tb w) of (s, r) \<Rightarrow> (w\<lparr>w_tb := s\<rparr>, r))"

text \<open>
  The calls of a deployment: activities under \<open>MaximumAttempts\<close> 5 (both workflows), and Temporal's
  start and signal calls as the parameters \<open>start_wf\<close> and \<open>signal_wf\<close>.
\<close>

definition deployment ::
    "'tb tb_client \<Rightarrow> uuid_parser \<Rightarrow>
     (string \<Rightarrow> TenantAccountingInput \<Rightarrow> 'tb world \<Rightarrow> 'tb world \<times> unit result) \<Rightarrow>
     (string \<Rightarrow> RegisterClusterSignal \<Rightarrow> 'tb world \<Rightarrow> 'tb world \<times> unit result) \<Rightarrow> 'tb world prov_calls" where
  "deployment c parse start_wf signal_wf =
     \<lparr>call_InsertTenant = \<lambda>i. with_retries 4 (on_pg (InsertTenant parse i)),
      call_CreateTenantTBAccounts = \<lambda>u. with_retries 4 (on_tb (CreateTenantTBAccounts c u)),
      call_InsertTBAccountMapping = \<lambda>i. with_retries 4 (on_pg (InsertTBAccountMapping parse i)),
      call_SubmitAllocationTransfers = \<lambda>i. with_retries 4 (on_tb (SubmitAllocationTransfers c i)),
      call_InsertCluster = \<lambda>i. with_retries 4 (on_pg (InsertCluster parse i)),
      call_StartAccounting = start_wf, call_SignalRegister = signal_wf\<rparr>"

text \<open>What is relied on of a start call: it reaches neither the ledger nor the database.\<close>

definition start_frame :: "(string \<Rightarrow> TenantAccountingInput \<Rightarrow> 'tb world \<Rightarrow> 'tb world \<times> unit result) \<Rightarrow> bool" where
  "start_frame start_wf \<longleftrightarrow>
     (\<forall>i a w. w_tb (fst (start_wf i a w)) = w_tb w \<and> w_pg (fst (start_wf i a w)) = w_pg w)"

section \<open>Calls on a part of the world\<close>

lemma retries_on_pg: "with_retries n (on_pg f) w = on_pg (with_retries n f) w"
  by (induction n arbitrary: w) (auto simp: on_pg_def split: prod.splits sum.splits)

lemma retries_on_tb: "with_retries n (on_tb f) w = on_tb (with_retries n f) w"
  by (induction n arbitrary: w) (auto simp: on_tb_def split: prod.splits sum.splits)

lemma on_pgD: "on_pg f w = (w', r) \<Longrightarrow> f (w_pg w) = (w_pg w', r) \<and> w_tb w' = w_tb w \<and> w_workflows w' = w_workflows w"
  by (auto simp: on_pg_def split: prod.splits)

lemma on_tbD: "on_tb f w = (w', r) \<Longrightarrow> f (w_tb w) = (w_tb w', r) \<and> w_pg w' = w_pg w \<and> w_workflows w' = w_workflows w"
  by (auto simp: on_tb_def split: prod.splits)

lemma deployment_calls:
  "call_InsertTenant (deployment c parse a b) i w = on_pg (with_retries 4 (InsertTenant parse i)) w"
  "call_CreateTenantTBAccounts (deployment c parse a b) u w = on_tb (with_retries 4 (CreateTenantTBAccounts c u)) w"
  "call_InsertTBAccountMapping (deployment c parse a b) m w = on_pg (with_retries 4 (InsertTBAccountMapping parse m)) w"
  "call_SubmitAllocationTransfers (deployment c parse a b) s w = on_tb (with_retries 4 (SubmitAllocationTransfers c s)) w"
  "call_StartAccounting (deployment c parse a b) = a"
  by (simp_all add: deployment_def retries_on_pg retries_on_tb)

text \<open>A provisioning run that succeeded went through all five steps.\<close>

lemma provisioning_steps:
  assumes "TenantProvisioningWorkflow (deployment c parse start_wf signal_wf) H input w = (w', Inr ids)"
    and "start_frame start_wf"
  obtains db1 tb1 transferIDs where
    "with_retries 4 (InsertTenant parse \<lparr>it_TenantID = pv_TenantID input, it_Name = pv_Name input,
       it_BillingTier = pv_BillingTier input\<rparr>) (w_pg w) = (db1, Inr ())"
    "with_retries 4 (CreateTenantTBAccounts c (pv_TenantUUID input)) (w_tb w) = (tb1, Inr ids)"
    "with_retries 4 (InsertTBAccountMapping parse \<lparr>im_TenantID = pv_TenantID input, im_AccountMap = ids\<rparr>) db1 = (w_pg w', Inr ())"
    "with_retries 4 (SubmitAllocationTransfers c (initial_allocation input ids transferIDs)) tb1 = (w_tb w', Inr ())"
proof -
  from assms(1) obtain w1 where 1: "on_pg (with_retries 4 (InsertTenant parse \<lparr>it_TenantID = pv_TenantID input,
      it_Name = pv_Name input, it_BillingTier = pv_BillingTier input\<rparr>)) w = (w1, Inr ())"
    by (auto simp: TenantProvisioningWorkflow_def deployment_calls split: prod.splits sum.splits)
  with assms(1) obtain w2 accountIDs where
    2: "on_tb (with_retries 4 (CreateTenantTBAccounts c (pv_TenantUUID input))) w1 = (w2, Inr accountIDs)"
    by (auto simp: TenantProvisioningWorkflow_def deployment_calls split: prod.splits sum.splits)
  with assms(1) 1 obtain w3 where 3: "on_pg (with_retries 4 (InsertTBAccountMapping parse
      \<lparr>im_TenantID = pv_TenantID input, im_AccountMap = accountIDs\<rparr>)) w2 = (w3, Inr ())"
    by (auto simp: TenantProvisioningWorkflow_def deployment_calls split: prod.splits sum.splits)
  with assms(1) 1 2 obtain w4 where "load_wallet (deployment c parse start_wf signal_wf) H input accountIDs w3 = (w4, Inr ())"
    and 5: "start_accounting (deployment c parse start_wf signal_wf) input accountIDs w4 = (w', Inr ids)"
    by (auto simp: TenantProvisioningWorkflow_def deployment_calls split: prod.splits sum.splits)
  then obtain transferIDs where
    4: "on_tb (with_retries 4 (SubmitAllocationTransfers c (initial_allocation input accountIDs transferIDs))) w3 = (w4, Inr ())"
    by (auto simp: load_wallet_def deployment_calls wrap_error_def prod_eq_iff split: sum.splits)
  have "ids = accountIDs \<and> w_tb w' = w_tb w4 \<and> w_pg w' = w_pg w4"
    using 5 assms(2) unfolding start_accounting_def deployment_calls
    by (auto simp: start_frame_def split: prod.splits sum.splits if_splits) (metis fst_conv)+
  with on_pgD [OF 1] on_tbD [OF 2] on_pgD [OF 3] on_tbD [OF 4] show ?thesis
    using that [of "w_pg w1" "w_tb w2" transferIDs] by simp
qed

section \<open>What each step leaves behind\<close>

lemma tenant_inserted:
  assumes "with_retries n (InsertTenant parse i) db = (db', Inr ())" and "parse (it_TenantID i) = Inr t"
  shows "tenant_exists t db'"
proof -
  obtain db0 where "InsertTenant parse i db0 = (db', Inr ())"
    using with_retries_last [OF assms(1), of "\<lambda>_. True"] by blast
  then obtain row where "q_InsertTenant t (it_Name i) (it_BillingTier i) db0 = (db', Inr row)"
    using assms(2) by (auto simp: InsertTenant_def with_uuid_def drop_value_def prod_eq_iff split: sum.splits)
  then show ?thesis
    unfolding q_InsertTenant_def
    by (auto simp: tenant_exists_def Let_def elim!: statement_Inr split: if_splits)
qed

lemma inserted_mapping:
  assumes "with_retries n (InsertTenant parse i) db = (db', res)"
  shows "mapped_account db' = mapped_account db"
proof -
  have one: "mapped_account (fst (q_InsertTenant t a b d)) = mapped_account d" for t a b d
    unfolding q_InsertTenant_def by (rule statement_frame) (auto simp: Let_def mapped_account_def fun_eq_iff)
  have "mapped_account (fst (with_retries n (InsertTenant parse i) db)) = mapped_account db"
    by (rule with_retries_invariant [where I = "\<lambda>d. mapped_account d = mapped_account db"])
      (simp_all add: InsertTenant_def with_uuid_def one split: sum.split)
  with assms show ?thesis by simp
qed

lemma mapping_keeps_tenants:
  "tenants (fst (with_retries n (InsertTBAccountMapping parse i) db)) = tenants db"
proof (rule with_retries_invariant [where I = "\<lambda>d. tenants d = tenants db"])
  fix d :: pg assume d: "tenants d = tenants db"
  have one: "tenants (fst (q_InsertTBAccountMapping t r a b d)) = tenants d" for t r a b d
    unfolding q_InsertTBAccountMapping_def by (rule statement_frame) auto
  show "tenants (fst (InsertTBAccountMapping parse i d)) = tenants db"
  proof (cases "parse (im_TenantID i)")
    case (Inr t)
    have "tenants (fst (foreach (\<lambda>(resourceType, i) db. wrap_error (''InsertTBAccountMapping '' @ resourceType)
        (q_InsertTBAccountMapping t resourceType ''tenant_quota'' (le_bytes 16 i) db)) (im_AccountMap i) d)) = tenants db"
      by (rule foreach_invariant [where I = "\<lambda>d. tenants d = tenants db"]) (auto simp: one d)
    then show ?thesis by (simp add: InsertTBAccountMapping_def with_uuid_def Inr)
  qed (simp add: InsertTBAccountMapping_def with_uuid_def d)
qed simp

lemma tenant_loop_distinct:
  "tenant_loop c d m todo res accounts rs s = (s', Inr (res', accounts', rs')) \<Longrightarrow> distinct (map fst res) \<Longrightarrow>
   distinct (map fst res')"
  by (induction c d m todo res accounts rs s rule: tenant_loop.induct)
    (auto simp: distinct_update split: prod.splits sum.splits)

lemma accounts_step:
  assumes "tb_laws c v" and "with_retries n (CreateTenantTBAccounts c u) s = (s', Inr ids)"
  shows "distinct (map fst ids)"
    and "r \<in> set AllResources \<Longrightarrow> \<exists>i a. map_of ids r = Some i \<and> acct v s' i = Some a \<and>
      acc_UserData128 a = u \<and> DebitsMustNotExceedCredits (acc_Flags a)"
proof -
  obtain s0 where "CreateTenantTBAccounts c u s0 = (s', Inr ids)"
    using with_retries_last [OF assms(2), of "\<lambda>_. True"] by blast
  then obtain ids' where call: "CreateTenantQuotaAccounts c u [] s0 = (s', Inr ids')"
    and ids: "ids = map (\<lambda>(r, i). (r, Uint128ToBytes i)) ids'"
    by (auto simp: CreateTenantTBAccounts_def split: prod.splits sum.splits)
  have keys: "map fst ids = map fst ids'" by (auto simp: ids)
  have "distinct (map fst ids')"
    using call tenant_loop_distinct [of c "UUIDToUint128 u" "[]" AllResources "[]" "[]" "[]" s0]
    by (auto simp: CreateTenantQuotaAccounts_def split: prod.splits sum.splits)
  with keys show "distinct (map fst ids)" by simp
  have lookup: "map_of ids r = map_of ids' r" for r
    by (auto simp: ids map_of_map Uint128ToBytes_def option.map_ident)
  show "\<exists>i a. map_of ids r = Some i \<and> acct v s' i = Some a \<and> acc_UserData128 a = u \<and>
      DebitsMustNotExceedCredits (acc_Flags a)" if "r \<in> set AllResources"
    using created_accounts [OF assms(1) call that] lookup by auto
qed

lemma allocation_retries_reach: "tb_reach c s (fst (with_retries n (SubmitAllocationTransfers c i) s))"
  by (rule with_retries_invariant [where I = "tb_reach c s"]) (auto intro: allocation_activity.reach_from reach_refl)

lemma provisioned:
  assumes "tb_laws c v" and "start_frame start_wf" and "parse (pv_TenantID input) = Inr t"
    and "TenantProvisioningWorkflow (deployment c parse start_wf signal_wf) H input w = (w', Inr ids)"
    and "\<forall>r. mapped_account (w_pg w) (t, r) = None" and "r \<in> set AllResources"
  shows "tenant_exists t (w_pg w') \<and>
    (\<exists>i a. map_of ids r = Some i \<and> acct v (w_tb w') i = Some a \<and> acc_UserData128 a = pv_TenantUUID input \<and>
       DebitsMustNotExceedCredits (acc_Flags a) \<and> mapped_account (w_pg w') (t, r) = Some (le_bytes 16 i))"
proof -
  obtain db1 tb1 transferIDs where
    1: "with_retries 4 (InsertTenant parse \<lparr>it_TenantID = pv_TenantID input, it_Name = pv_Name input,
       it_BillingTier = pv_BillingTier input\<rparr>) (w_pg w) = (db1, Inr ())"
    and 2: "with_retries 4 (CreateTenantTBAccounts c (pv_TenantUUID input)) (w_tb w) = (tb1, Inr ids)"
    and 3: "with_retries 4 (InsertTBAccountMapping parse \<lparr>im_TenantID = pv_TenantID input, im_AccountMap = ids\<rparr>)
       db1 = (w_pg w', Inr ())"
    and 4: "with_retries 4 (SubmitAllocationTransfers c (initial_allocation input ids transferIDs)) tb1 = (w_tb w', Inr ())"
    using assms(4,2) by (rule provisioning_steps)
  have "tenant_exists t db1" using tenant_inserted [OF 1] assms(3) by simp
  then have tenant: "tenant_exists t (w_pg w')"
    using mapping_keeps_tenants [of 4 parse "\<lparr>im_TenantID = pv_TenantID input, im_AccountMap = ids\<rparr>" db1] 3
    by (simp add: tenant_exists_def)
  obtain i a where i: "map_of ids r = Some i" "acct v tb1 i = Some a" "acc_UserData128 a = pv_TenantUUID input"
    "DebitsMustNotExceedCredits (acc_Flags a)"
    using accounts_step(2) [OF assms(1) 2 assms(6)] by blast
  have "tb_reach c tb1 (w_tb w')" using allocation_retries_reach [of c tb1 4] 4 by (metis fst_conv)
  then obtain b where b: "acct v (w_tb w') i = Some b" "same_account b a"
    using account_kept.reach_keeps [of c tb1 "w_tb w'" v i a] assms(1) i(2) by (auto simp: same_account_def)
  have "mapped_account db1 (t, r) = None"
    using inserted_mapping [OF 1] assms(5) by simp
  then have "mapped_account (w_pg w') (t, r) = Some (le_bytes 16 i)"
    using mapping_retried [OF 3, of t t r] accounts_step(1) [OF assms(1) 2] assms(3) i(1) by (simp add: first_wins_def)
  then show ?thesis using tenant i b by (auto simp: same_account_def)
qed

text \<open>
  A provisioned tenant is complete.  When the provisioning workflow succeeds, through whatever
  retries of its activities, the tenant row exists and every resource has a TigerBeetle account
  that belongs to the tenant and is under the hard limit, that the returned map names it, and that
  PostgreSQL records exactly those 16 bytes for it (for a tenant with no mapping before).
\<close>

lemma provisioning_complete:
  assumes "tb_laws c v" and "start_frame start_wf" and "parse (pv_TenantID input) = Inr t"
    and "TenantProvisioningWorkflow (deployment c parse start_wf signal_wf) H input w = (w', Inr ids)"
    and "\<forall>r. mapped_account (w_pg w) (t, r) = None" and "r \<in> set AllResources"
  shows "tenant_exists t (w_pg w') \<and>
    (\<exists>i a. map_of ids r = Some i \<and> acct v (w_tb w') i = Some a \<and> acc_UserData128 a = pv_TenantUUID input \<and>
       DebitsMustNotExceedCredits (acc_Flags a) \<and> mapped_account (w_pg w') (t, r) = Some (le_bytes 16 i))"
  by (rule provisioned [OF assms])

text \<open>
  C28. A lost answer strands a tenant.  If the connection drops after the first \<open>InsertTenant\<close>
  committed, all retries of the activity fail on the primary key, and the workflow returns an error
  for a tenant whose row exists but that has no TigerBeetle account, no credits and no accounting
  workflow.
\<close>

theorem provisioning_lost_answer:
  assumes "parse (pv_TenantID input) = Inr t" and "pv_BillingTier input \<in> set billing_tiers"
    and "\<not> tenant_exists t (w_pg w)" and "pg_script (w_pg w) = AnswerLost e # os"
    and "TenantProvisioningWorkflow (deployment c parse start_wf signal_wf) H input w = (w', r)"
  shows "isl r \<and> tenant_exists t (w_pg w') \<and> w_tb w' = w_tb w \<and> w_workflows w' = w_workflows w"
proof -
  let ?i = "\<lparr>it_TenantID = pv_TenantID input, it_Name = pv_Name input, it_BillingTier = pv_BillingTier input\<rparr>"
  obtain db1 e1 where first: "InsertTenant parse ?i (w_pg w) = (db1, Inl e1)" and ex: "tenant_exists t db1"
    using assms(1-4)
    by (auto simp: InsertTenant_def with_uuid_def q_InsertTenant_def statement_def drop_value_def Let_def tenant_exists_def)
  obtain db2 r2 where rest: "with_retries 3 (InsertTenant parse ?i) db1 = (db2, r2)" by fastforce
  have again: "isl r2 \<and> tenants db2 = tenants db1"
    by (rule inserted_again [OF _ ex rest]) (simp add: assms(1))
  have "with_retries 4 (InsertTenant parse ?i) (w_pg w) = (db2, r2)"
    using first rest by (simp add: numeral_eq_Suc)
  then have "call_InsertTenant (deployment c parse start_wf signal_wf) ?i w = (w\<lparr>w_pg := db2\<rparr>, r2)"
    by (simp add: deployment_calls on_pg_def)
  with again assms(5) ex show ?thesis
    by (auto simp: TenantProvisioningWorkflow_def tenant_exists_def split: sum.splits)
qed

text \<open>
  The initial allocation and later credits use the same identifier scheme without clashing:
  the period start in nanoseconds takes the place of the flush number, and as long as the tenant's
  workflow has taken fewer numbers than that (and the hash does not collide), no credit issued later
  can be mistaken for the initial allocation.
\<close>

lemma initial_allocation_separate:
  assumes "wf_reach H (start (accounting_input input ids)) w" and "k < length (wf_seqnos w)"
    and "length (wf_seqnos w) < unat (pv_PeriodStartNs input)" and "collision_free H S"
    and "alloc_msg (pv_TenantUUID input) (pv_PeriodStartNs input) l \<in> S"
    and "alloc_msg (pv_TenantUUID input) (wf_seqnos w ! k) l' \<in> S"
  shows "DeriveAllocationTransferID H (pv_TenantUUID input) (pv_PeriodStartNs input) l \<noteq>
    DeriveAllocationTransferID H (pv_TenantUUID input) (wf_seqnos w ! k) l'"
proof -
  have "numbered 0 (start (accounting_input input ids)) \<and> wf_ok (start (accounting_input input ids))"
    by (simp add: numbered_def wf_ok_def wf_simps accounting_input_def)
  then have "numbered 0 w" using numbering.reach [OF assms(1)] by blast
  then have "wf_seqnos w ! k = map (\<lambda>k. 0 + of_nat (Suc k)) [0..<length (wf_seqnos w)] ! k"
    unfolding numbered_def by (metis (no_types))
  then have nth: "wf_seqnos w ! k = of_nat (Suc k)" using assms(2) by simp
  have "Suc k < 2 ^ LENGTH(64)"
    using assms(2,3) unsigned_less [where 'a = nat, of "pv_PeriodStartNs input"] by simp
  then have "unat (of_nat (Suc k) :: uint64) = Suc k"
    by (simp only: unat_of_nat) (rule mod_less)
  then have "wf_seqnos w ! k \<noteq> pv_PeriodStartNs input" using nth assms(2,3) by auto
  then show ?thesis
    using alloc_ids.derived_inject [OF assms(4),
        of "(pv_TenantUUID input, pv_PeriodStartNs input, l)" "(pv_TenantUUID input, wf_seqnos w ! k, l')"] assms(5,6)
    by (auto simp: DeriveAllocationTransferID_def)
qed

section \<open>Concrete runs\<close>

definition demo_provision :: TenantProvisioningInput where
  "demo_provision = \<lparr>pv_TenantID = ''t'', pv_TenantUUID = 5, pv_Name = ''acme'', pv_BillingTier = ''pro'',
     pv_Credits = [], pv_GlobalOperatorIDs = [], pv_GlobalSinkIDs = [], pv_PeriodStartNs = 1000\<rparr>"

definition empty_pg :: "outcome list \<Rightarrow> pg" where
  "empty_pg script = (demo_pg script)\<lparr>tenants := [], quota_configs := []\<rparr>"

definition demo_world :: "outcome list \<Rightarrow> ref_tb world" where
  "demo_world script = \<lparr>w_tb = empty_ref, w_pg = empty_pg script, w_workflows = [], w_signals = []\<rparr>"

text \<open>Start and signal calls that record what they are given.\<close>

definition demo_start_wf :: "string \<Rightarrow> TenantAccountingInput \<Rightarrow> 'tb world \<Rightarrow> 'tb world \<times> unit result" where
  "demo_start_wf i a w = (w\<lparr>w_workflows := (i, a) # w_workflows w\<rparr>, Inr ())"

definition demo_signal_wf :: "string \<Rightarrow> RegisterClusterSignal \<Rightarrow> 'tb world \<Rightarrow> 'tb world \<times> unit result" where
  "demo_signal_wf i sig w = (w\<lparr>w_signals := w_signals w @ [(i, sig)]\<rparr>, Inr ())"

theorem provisioning_lost_answer_witness:
  "isl (snd (TenantProvisioningWorkflow (deployment ref_client demo_parse demo_start_wf demo_signal_wf) demo_hash
     demo_provision (demo_world [AnswerLost ErrCanceled])))"
proof -
  let ?calls = "deployment ref_client demo_parse demo_start_wf demo_signal_wf"
  obtain w' r where run: "TenantProvisioningWorkflow ?calls demo_hash demo_provision (demo_world [AnswerLost ErrCanceled]) = (w', r)"
    by fastforce
  have "isl r"
    using provisioning_lost_answer [OF _ _ _ _ run, of 7 ErrCanceled "[]"]
    by (simp add: demo_parse_def demo_provision_def billing_tiers_def demo_world_def empty_pg_def demo_pg_def tenant_exists_def)
  with run show ?thesis by simp
qed

lemma initial_allocation_separate_witness:
  "\<exists>w. wf_reach demo_hash (start (accounting_input demo_provision [])) w \<and> 0 < length (wf_seqnos w) \<and>
     DeriveAllocationTransferID demo_hash 5 1000 1 \<noteq> DeriveAllocationTransferID demo_hash 5 (wf_seqnos w ! 0) 1"
proof -
  let ?s = "start (accounting_input demo_provision [])"
  define w1 where "w1 = on_heartbeat demo_hash (demo_hb 5) ?s"
  have w1: "wf_main w1 = Selecting" "CurBatch (wf_state w1) = [demo_hb 5]" "wf_seqnos w1 = []" "FlushSeqNo (wf_state w1) = 0"
    by (simp_all add: w1_def on_heartbeat_def wf_simps already_processed_def accounting_input_def demo_hb_def
        batchSizeThreshold_def Let_def)
  define w2 where "w2 = begin_flush demo_hash (ByTimer True) w1"
  have seqnos: "wf_seqnos w2 = [1]"
    using w1 by (cases rule: begin_flush_cases [of w1 demo_hash "ByTimer True"]) (simp_all add: w2_def)
  have "wf_step demo_hash ?s w1" unfolding w1_def by (rule heartbeat) (simp add: wf_simps)
  moreover have "wf_step demo_hash w1 w2" using timer [of w1 demo_hash] w1 by (simp add: w2_def)
  ultimately have reach: "wf_reach demo_hash ?s w2" by (meson converse_rtranclp_into_rtranclp rtranclp.rtrancl_refl)
  have cf: "collision_free demo_hash {alloc_msg 5 1000 1, alloc_msg 5 1 1}" by code_simp
  have "DeriveAllocationTransferID demo_hash 5 1000 1 \<noteq> DeriveAllocationTransferID demo_hash 5 1 1"
    using initial_allocation_separate [OF reach _ _ cf, of 0 1 1] seqnos by (simp add: demo_provision_def)
  with reach seqnos show ?thesis by (intro exI [of _ w2]) simp
qed

lemma mapping_succeeds:
  assumes "tenant_exists t db" and "pg_script db = []"
  shows "snd (foreach (\<lambda>(resourceType, i) db. wrap_error (''InsertTBAccountMapping '' @ resourceType)
    (q_InsertTBAccountMapping t resourceType ''tenant_quota'' (le_bytes 16 i) db)) m db) = Inr ()"
  using assms
proof (induction m arbitrary: db)
  case (Cons x m)
  obtain r i where x: "x = (r, i)" by (cases x)
  let ?q = "q_InsertTBAccountMapping t r ''tenant_quota'' (le_bytes 16 i) db"
  have "snd ?q = Inr () \<and> pg_script (fst ?q) = [] \<and> tenants (fst ?q) = tenants db"
    using Cons.prems by (simp add: q_InsertTBAccountMapping_def account_types_def)
  then show ?case
    using Cons.IH [of "fst ?q"] Cons.prems(1) by (simp add: x wrap_error_def tenant_exists_def)
qed simp

lemma with_retries_first: "\<not> isl (snd (act s)) \<Longrightarrow> with_retries n act s = act s"
  by (cases n) (auto split: prod.split sum.split)

lemma demo_accounts_run:
  "\<exists>s' ids. CreateTenantTBAccounts ref_client 5 empty_ref = (s', Inr ids)"
proof -
  have "\<not> isl (snd (CreateTenantQuotaAccounts ref_client 5 [] empty_ref))" by code_simp
  then obtain s' ids where "CreateTenantQuotaAccounts ref_client 5 [] empty_ref = (s', Inr ids)"
    by (blast dest: returned)
  then show ?thesis by (simp add: CreateTenantTBAccounts_def)
qed

lemma demo_rows_run:
  obtains db1 db2 where
    "InsertTenant demo_parse \<lparr>it_TenantID = ''t'', it_Name = ''acme'', it_BillingTier = ''pro''\<rparr> (empty_pg []) = (db1, Inr ())"
    "InsertTBAccountMapping demo_parse \<lparr>im_TenantID = ''t'', im_AccountMap = m\<rparr> db1 = (db2, Inr ())"
proof -
  define db1 where "db1 = fst (InsertTenant demo_parse
    \<lparr>it_TenantID = ''t'', it_Name = ''acme'', it_BillingTier = ''pro''\<rparr> (empty_pg []))"
  have db1: "tenant_exists 7 db1" "pg_script db1 = []"
    by (simp_all add: db1_def InsertTenant_def with_uuid_def demo_parse_def q_InsertTenant_def empty_pg_def
        demo_pg_def tenant_exists_def billing_tiers_def Let_def)
  have "snd (InsertTBAccountMapping demo_parse \<lparr>im_TenantID = ''t'', im_AccountMap = m\<rparr> db1) = Inr ()"
    using mapping_succeeds [OF db1] by (simp add: InsertTBAccountMapping_def with_uuid_def demo_parse_def)
  then have 2: "InsertTBAccountMapping demo_parse \<lparr>im_TenantID = ''t'', im_AccountMap = m\<rparr> db1 =
      (fst (InsertTBAccountMapping demo_parse \<lparr>im_TenantID = ''t'', im_AccountMap = m\<rparr> db1), Inr ())"
    by (simp add: prod_eq_iff)
  have "InsertTenant demo_parse \<lparr>it_TenantID = ''t'', it_Name = ''acme'', it_BillingTier = ''pro''\<rparr> (empty_pg []) = (db1, Inr ())"
    by (simp add: db1_def InsertTenant_def with_uuid_def demo_parse_def q_InsertTenant_def empty_pg_def
        demo_pg_def tenant_exists_def billing_tiers_def drop_value_def Let_def)
  then show ?thesis using 2 by (rule that)
qed

lemma demo_provision_run:
  "\<exists>w' ids. TenantProvisioningWorkflow (deployment ref_client demo_parse demo_start_wf demo_signal_wf) demo_hash
     demo_provision (demo_world []) = (w', Inr ids)"
proof -
  obtain s' ids where 2: "CreateTenantTBAccounts ref_client 5 empty_ref = (s', Inr ids)"
    using demo_accounts_run by blast
  obtain db1 db2 where
    1: "InsertTenant demo_parse \<lparr>it_TenantID = ''t'', it_Name = ''acme'', it_BillingTier = ''pro''\<rparr> (empty_pg []) = (db1, Inr ())"
    and 3: "InsertTBAccountMapping demo_parse \<lparr>im_TenantID = ''t'', im_AccountMap = ids\<rparr> db1 = (db2, Inr ())"
    by (rule demo_rows_run)
  have 4: "SubmitAllocationTransfers ref_client (initial_allocation demo_provision ids []) s' = (s', Inr ())"
    by (simp add: SubmitAllocationTransfers_def initial_allocation_def demo_provision_def)
  have fields: "pv_TenantID demo_provision = ''t''" "pv_Name demo_provision = ''acme''"
    "pv_BillingTier demo_provision = ''pro''" "pv_TenantUUID demo_provision = 5"
    "allocTransferIDs demo_hash demo_provision = Inr []"
    by (simp_all add: demo_provision_def allocTransferIDs_def)
  show ?thesis
    by (simp add: TenantProvisioningWorkflow_def deployment_calls demo_world_def on_pg_def on_tb_def fields
        with_retries_first 1 2 3 4
        load_wallet_def wrap_error_def start_accounting_def demo_start_wf_def)
qed

text \<open>The complete run: accounts on the reference ledger, recorded in the database.\<close>

lemma provisioning_complete_witness:
  "\<exists>w' ids i. TenantProvisioningWorkflow (deployment ref_client demo_parse demo_start_wf demo_signal_wf) demo_hash
     demo_provision (demo_world []) = (w', Inr ids) \<and> map_of ids ResourceCPUHours = Some i \<and>
     mapped_account (w_pg w') (7, ResourceCPUHours) = Some (le_bytes 16 i)"
proof -
  obtain w' ids where run: "TenantProvisioningWorkflow (deployment ref_client demo_parse demo_start_wf demo_signal_wf)
      demo_hash demo_provision (demo_world []) = (w', Inr ids)"
    using demo_provision_run by blast
  have "start_frame (demo_start_wf :: string \<Rightarrow> TenantAccountingInput \<Rightarrow> ref_tb world \<Rightarrow> ref_tb world \<times> unit result)"
    by (simp add: start_frame_def demo_start_wf_def)
  moreover have "demo_parse (pv_TenantID demo_provision) = Inr 7" by (simp add: demo_parse_def demo_provision_def)
  moreover have "\<forall>r. mapped_account (w_pg (demo_world [])) (7, r) = None"
    by (simp add: mapped_account_def demo_world_def empty_pg_def demo_pg_def)
  moreover have "ResourceCPUHours \<in> set AllResources" by (simp add: AllResources_def)
  ultimately show ?thesis using provisioning_complete [OF ref_laws _ _ run] run by blast
qed

end
