(* ===== verification/Go_Time.thy ===== *)
theory Go_Time
  imports Credit_Prelude
begin

text \<open>
  What the gateway uses of Go's \<open>fmt\<close> and \<open>time\<close>: decimal numbers, hexadecimal bytes, and the
  layout \<open>2006-01-02T15:04:05Z\<close> of a time in UTC, given as its nanoseconds since 1970.  Dates are the
  proleptic Gregorian calendar.
\<close>

section \<open>Numbers and bytes\<close>

function decimal :: "nat \<Rightarrow> string" where
  "decimal n = (if n < 10 then [char_of (48 + n)] else decimal (n div 10) @ [char_of (48 + n mod 10)])"
  by pat_completeness auto
termination by (relation "measure id") auto

declare decimal.simps [simp del]

definition zero_padded :: "nat \<Rightarrow> nat \<Rightarrow> string" where
  "zero_padded w n = replicate (w - length (decimal n)) (CHR ''0'') @ decimal n"

definition hex_char :: "nat \<Rightarrow> char" where
  "hex_char n = (if n < 10 then char_of (48 + n) else char_of (87 + n))"

text \<open>\<open>%x\<close> of a byte slice.\<close>

definition hex_encode :: "byte list \<Rightarrow> string" where
  "hex_encode bs = concat (map (\<lambda>b. [hex_char (unat b div 16), hex_char (unat b mod 16)]) bs)"

section \<open>Dates\<close>

definition leap :: "int \<Rightarrow> bool" where
  "leap y \<longleftrightarrow> y mod 4 = 0 \<and> (y mod 100 \<noteq> 0 \<or> y mod 400 = 0)"

definition month_lengths :: "int \<Rightarrow> int list" where
  "month_lengths y = [31, if leap y then 29 else 28, 31, 30, 31, 30, 31, 31, 30, 31, 30, 31]"

fun month_day :: "int list \<Rightarrow> int \<Rightarrow> int \<Rightarrow> int \<times> int" where
  "month_day (l # ls) m d = (if d < l then (m, d + 1) else month_day ls (m + 1) (d - l))"
| "month_day [] m d = (m, d + 1)"

text \<open>
  The year and the day in it, from the days since the first of January of year 1: cycles of 400, 100
  and 4 years are cut off in turn, where the fourth century and the fourth year keep their extra day.
\<close>

definition year_day :: "int \<Rightarrow> int \<times> int" where
  "year_day days =
     (let n400 = days div 146097; r = days mod 146097;
          n100 = min 3 (r div 36524); r = r - 36524 * n100;
          n4 = r div 1461; r = r - 1461 * n4;
          n1 = min 3 (r div 365)
      in (400 * n400 + 100 * n100 + 4 * n4 + n1 + 1, r - 365 * n1))"

definition epoch_days :: int where "epoch_days = 719162"

definition civil_date :: "int \<Rightarrow> int \<times> int \<times> int" where
  "civil_date days = (case year_day (days + epoch_days) of (y, d) \<Rightarrow> (y, month_day (month_lengths y) 1 d))"

definition format_utc :: "int \<Rightarrow> string" where
  "format_utc ns =
     (let secs = ns div 1000000000; s = nat (secs mod 86400) in
      case civil_date (secs div 86400) of (y, m, d) \<Rightarrow>
        (if y < 0 then ''-'' else '''') @ zero_padded 4 (nat \<bar>y\<bar>) @ ''-'' @ zero_padded 2 (nat m) @ ''-'' @
        zero_padded 2 (nat d) @ ''T'' @ zero_padded 2 (s div 3600) @ '':'' @ zero_padded 2 (s div 60 mod 60) @
        '':'' @ zero_padded 2 (s mod 60) @ ''Z'')"

section \<open>Reading them back\<close>

definition undecimal :: "string \<Rightarrow> nat" where
  "undecimal cs = fold (\<lambda>c n. 10 * n + (of_char c - 48)) cs 0"

lemma undecimal_snoc [simp]: "undecimal (cs @ [c]) = 10 * undecimal cs + (of_char c - 48)"
  by (simp add: undecimal_def)

lemma undecimal_decimal [simp]: "undecimal (decimal n) = n"
proof (induction n rule: decimal.induct)
  case (1 n)
  then show ?case by (subst decimal.simps) (auto simp: undecimal_def)
qed

lemma undecimal_zeros: "undecimal (replicate k (CHR ''0'') @ cs) = undecimal cs"
  by (induction k) (simp_all add: undecimal_def)

lemma undecimal_padded [simp]: "undecimal (zero_padded w n) = n"
  by (simp add: zero_padded_def undecimal_zeros)

lemma length_decimal_le: "n < 10 ^ w \<Longrightarrow> 0 < w \<Longrightarrow> length (decimal n) \<le> w"
proof (induction n arbitrary: w rule: decimal.induct)
  case (1 n)
  show ?case
  proof (cases "n < 10")
    case True
    with 1(3) show ?thesis by (subst decimal.simps) simp
  next
    case False
    then obtain k where k: "w = Suc k" "0 < k" using 1(2,3) by (cases w; cases "w - 1") auto
    then have "n div 10 < 10 ^ k" using 1(2) by (simp add: less_mult_imp_div_less mult.commute)
    from 1(1) [OF False this k(2)] show ?thesis using False k(1) by (subst decimal.simps) simp
  qed
qed

lemma length_padded: "n < 10 ^ w \<Longrightarrow> 0 < w \<Longrightarrow> length (zero_padded w n) = w"
  using length_decimal_le [of n w] by (simp add: zero_padded_def)

section \<open>The calendar\<close>

definition days_before_year :: "int \<Rightarrow> int" where
  "days_before_year y = 365 * (y - 1) + (y - 1) div 4 - (y - 1) div 100 + (y - 1) div 400"

definition days_of_date :: "int \<times> int \<times> int \<Rightarrow> int" where
  "days_of_date = (\<lambda>(y, m, d).
     days_before_year y + sum_list (take (nat (m - 1)) (month_lengths y)) + d - 1 - epoch_days)"

lemma cycle_div: "0 \<le> x \<Longrightarrow> x < k \<Longrightarrow> y = k * q + x \<Longrightarrow> y div k = q" for q x y k :: int
  by simp

lemma cycle_mod: "0 \<le> x \<Longrightarrow> x < k \<Longrightarrow> y = k * q + x \<Longrightarrow> y mod k = x" for q x y k :: int
  by simp

lemma year_days:
  assumes "0 \<le> b" "b \<le> 3" "0 \<le> c" "c \<le> 24" "0 \<le> e" "e \<le> 3"
  shows "days_before_year (400 * a + 100 * b + 4 * c + e + 1) = 146097 * a + 36524 * b + 1461 * c + 365 * e"
proof -
  let ?y = "400 * a + 100 * b + 4 * c + e"
  have "?y div 4 = 100 * a + 25 * b + c" by (rule cycle_div [of e]) (use assms in auto)
  moreover have "?y div 100 = 4 * a + b" by (rule cycle_div [of "4 * c + e"]) (use assms in auto)
  moreover have "?y div 400 = a" by (rule cycle_div [of "100 * b + 4 * c + e"]) (use assms in auto)
  ultimately show ?thesis by (simp add: days_before_year_def)
qed

lemma leap_cycle:
  assumes "0 \<le> b" "b \<le> 3" "0 \<le> c" "c \<le> 24" "c = 24 \<longrightarrow> b = 3"
  shows "leap (400 * a + 100 * b + 4 * c + 4)"
proof -
  let ?y = "400 * a + 100 * b + 4 * c + 4"
  have "?y = 4 * (100 * a + 25 * b + c + 1)" by simp
  then have "?y mod 4 = 0" by (metis mod_mult_self1_is_0)
  moreover have "?y mod 100 = 4 * c + 4" if "c < 24"
    using that assms by (intro cycle_mod [of _ _ _ "4 * a + b"]) auto
  moreover have "?y = 400 * (a + 1)" if "c = 24" using that assms by simp
  ultimately show ?thesis using assms by (cases "c = 24") (auto simp: leap_def)
qed

text \<open>Cutting off at most \<open>K\<close> cycles of length \<open>k\<close>.\<close>

lemma cut_off:
  fixes r k K :: int
  assumes "0 \<le> r" "0 < k" "0 \<le> K" "b = min K (r div k)"
  shows "0 \<le> b" "b \<le> K" "0 \<le> r - k * b" "b < K \<Longrightarrow> r - k * b < k"
proof -
  have div: "k * (r div k) + r mod k = r" "0 \<le> r mod k" "r mod k < k" "0 \<le> r div k"
    using assms(1,2) by (simp_all add: pos_imp_zdiv_nonneg_iff)
  show "0 \<le> b" "b \<le> K" using assms(3,4) div(4) by auto
  have "b \<le> r div k" using assms(4) by simp
  then have "k * b \<le> k * (r div k)" using assms(2) by simp
  then show "0 \<le> r - k * b" using div by linarith
  show "r - k * b < k" if "b < K"
  proof -
    have "b = r div k" using that assms(4) by (simp add: min_def split: if_splits)
    then have "k * b = k * (r div k)" by simp
    then show ?thesis using div by linarith
  qed
qed

lemma year_day_exact:
  assumes "year_day days = (y, d)"
  shows "days_before_year y + d = days" "0 \<le> d" "d < (if leap y then 366 else 365)"
proof -
  define a r where "a = days div 146097" and "r = days mod 146097"
  define b where "b = min 3 (r div 36524)"
  define r1 where "r1 = r - 36524 * b"
  define c where "c = r1 div 1461"
  define r2 where "r2 = r1 - 1461 * c"
  define e where "e = min 3 (r2 div 365)"
  have yd: "y = 400 * a + 100 * b + 4 * c + e + 1" "d = r2 - 365 * e"
    using assms unfolding year_day_def Let_def e_def r2_def c_def r1_def b_def r_def a_def prod.inject by blast+
  have r: "0 \<le> r" "r < 146097" "days = 146097 * a + r" by (simp_all add: a_def r_def)
  note b = cut_off [OF r(1) _ _ b_def, folded r1_def, simplified]
  have r1: "r1 < (if b = 3 then 36525 else 36524)"
  proof (cases "b = 3")
    case True
    then show ?thesis using r(2) r1_def by simp
  qed (use b in simp)
  then have "r1 \<le> 36524" by (simp split: if_splits)
  then have "r1 div 1461 \<le> 36524 div 1461" by (rule zdiv_mono1) simp
  then have "c = min 25 (r1 div 1461)" by (simp add: c_def)
  note c = cut_off [OF b(3) _ _ this, folded r2_def, simplified]
  have c24: "c \<le> 24" "r2 < (if c = 24 \<and> b \<noteq> 3 then 1460 else 1461)"
    using c \<open>r1 div 1461 \<le> 36524 div 1461\<close> c_def r1 r2_def by (simp_all split: if_splits)
  note e = cut_off [OF c(3) _ _ e_def, folded yd(2), simplified]
  have d: "d < (if e = 3 \<and> \<not> (c = 24 \<and> b \<noteq> 3) then 366 else 365)"
  proof (cases "e = 3")
    case True
    then show ?thesis using c24(2) yd(2) by (auto split: if_splits)
  qed (use e in simp)
  show "days_before_year y + d = days"
    using year_days [OF b(1,2) c(1) c24(1) e(1,2), of a] by (simp add: yd r(3) r1_def r2_def)
  show "0 \<le> d" using e(3) by simp
  show "d < (if leap y then 366 else 365)"
    using d leap_cycle [OF b(1,2) c(1) c24(1), of a] by (auto simp: yd(1) ac_simps split: if_splits)
qed

lemma month_day_exact:
  assumes "month_day ls m d = (m', d')" "0 \<le> d" "d < sum_list ls"
  shows "m \<le> m' \<and> m' < m + int (length ls) \<and> 1 \<le> d' \<and> d' \<le> ls ! nat (m' - m) \<and>
    sum_list (take (nat (m' - m)) ls) + d' - 1 = d"
  using assms
proof (induction ls m d rule: month_day.induct)
  case (1 l ls m d)
  show ?case
  proof (cases "d < l")
    case False
    with 1 have "m + 1 \<le> m' \<and> m' < m + 1 + int (length ls) \<and> 1 \<le> d' \<and> d' \<le> ls ! nat (m' - (m + 1)) \<and>
      sum_list (take (nat (m' - (m + 1))) ls) + d' - 1 = d - l" by simp
    moreover from this have "nat (m' - m) = Suc (nat (m' - (m + 1)))" by arith
    ultimately show ?thesis by simp
  qed (use 1 in auto)
qed simp

lemma civil_date_exact:
  assumes "civil_date n = (y, m, d)"
  shows "days_of_date (y, m, d) = n" "1 \<le> m" "m \<le> 12" "1 \<le> d" "d \<le> month_lengths y ! nat (m - 1)"
proof -
  obtain yd where yd: "year_day (n + epoch_days) = (y, yd)" "month_day (month_lengths y) 1 yd = (m, d)"
    using assms by (auto simp: civil_date_def split: prod.splits)
  have "sum_list (month_lengths y) = (if leap y then 366 else 365)" by (simp add: month_lengths_def)
  then have exact: "1 \<le> m \<and> m < 1 + int (length (month_lengths y)) \<and> 1 \<le> d \<and> d \<le> month_lengths y ! nat (m - 1) \<and>
      sum_list (take (nat (m - 1)) (month_lengths y)) + d - 1 = yd"
    using month_day_exact [OF yd(2)] year_day_exact [OF yd(1)] by simp
  moreover have "length (month_lengths y) = 12" by (simp add: month_lengths_def)
  ultimately show "1 \<le> m" "m \<le> 12" "1 \<le> d" "d \<le> month_lengths y ! nat (m - 1)" by auto
  show "days_of_date (y, m, d) = n"
    using exact year_day_exact(1) [OF yd(1)] by (simp add: days_of_date_def)
qed

section \<open>A formatted time names its second\<close>

text \<open>The seconds since 1970 a reader of the layout computes.\<close>

definition read_utc :: "string \<Rightarrow> int" where
  "read_utc cs =
     (let field = \<lambda>i w. int (undecimal (take w (drop i cs))) in
      86400 * days_of_date (field 0 4, field 5 2, field 8 2) +
        3600 * field 11 2 + 60 * field 14 2 + field 17 2)"

lemma take_field: "length xs = w \<Longrightarrow> take w (xs @ ys) = xs" "length xs = w \<Longrightarrow> drop w (xs @ ys) = ys"
  by auto

lemma read_layout:
  assumes "length y = 4" "length m = 2" "length d = 2" "length h = 2" "length mi = 2" "length s = 2"
  shows "read_utc (y @ ''-'' @ m @ ''-'' @ d @ ''T'' @ h @ '':'' @ mi @ '':'' @ s @ ''Z'') =
    86400 * days_of_date (int (undecimal y), int (undecimal m), int (undecimal d)) +
      3600 * int (undecimal h) + 60 * int (undecimal mi) + int (undecimal s)"
  using assms by (simp add: read_utc_def Let_def)

lemma clock_exact:
  fixes s :: nat
  assumes "s < 86400"
  shows "s div 3600 < 100" "s div 60 mod 60 < 100" "s mod 60 < 100"
    "3600 * (s div 3600) + 60 * (s div 60 mod 60) + s mod 60 = s"
proof -
  have "s div 3600 = s div 60 div 60" by (simp add: div_mult2_eq [symmetric])
  then show "3600 * (s div 3600) + 60 * (s div 60 mod 60) + s mod 60 = s"
    using div_mult_mod_eq [of s 60] div_mult_mod_eq [of "s div 60" 60] by linarith
  show "s div 3600 < 100" using assms by (simp add: less_mult_imp_div_less)
  show "s div 60 mod 60 < 100" "s mod 60 < 100"
    using mod_less_divisor [of 60 "s div 60"] mod_less_divisor [of 60 s] by linarith+
qed

lemma month_length_bound: "k < 12 \<Longrightarrow> month_lengths y ! k \<le> 31"
  by (auto simp: month_lengths_def less_Suc_eq numeral_eq_Suc)

lemma read_format_utc:
  assumes "civil_date (ns div 1000000000 div 86400) = (y, m, d)" "0 \<le> y" "y \<le> 9999"
  shows "read_utc (format_utc ns) = ns div 1000000000"
proof -
  define secs s where "secs = ns div 1000000000" and "s = nat (secs mod 86400)"
  have s: "s < 86400" "int s = secs mod 86400" by (simp_all add: s_def nat_less_iff)
  note date = civil_date_exact [OF assms(1)]
  have "nat (m - 1) < 12" using date(2,3) by linarith
  then have d: "d \<le> 31" using date(5) month_length_bound [of "nat (m - 1)" y] by linarith
  note clock = clock_exact [OF s(1)]
  have "civil_date (secs div 86400) = (y, m, d)" using assms(1) by (simp only: secs_def)
  then have "format_utc ns = zero_padded 4 (nat y) @ ''-'' @ zero_padded 2 (nat m) @ ''-'' @ zero_padded 2 (nat d) @ ''T'' @
      zero_padded 2 (s div 3600) @ '':'' @ zero_padded 2 (s div 60 mod 60) @ '':'' @ zero_padded 2 (s mod 60) @ ''Z''"
    unfolding format_utc_def Let_def secs_def [symmetric] s_def [symmetric] using assms(2)
    by (simp only: prod.case) simp
  moreover have "length (zero_padded 4 (nat y)) = 4" "length (zero_padded 2 (nat m)) = 2"
    "length (zero_padded 2 (nat d)) = 2" "length (zero_padded 2 (s div 3600)) = 2"
    "length (zero_padded 2 (s div 60 mod 60)) = 2" "length (zero_padded 2 (s mod 60)) = 2"
    using assms(2,3) date(2-4) d clock(1-3) by (auto intro!: length_padded simp: nat_less_iff)
  ultimately have "read_utc (format_utc ns) = 86400 * days_of_date (y, m, d) +
      3600 * int (s div 3600) + 60 * int (s div 60 mod 60) + int (s mod 60)"
    using assms(2) date(2,4) by (simp only: read_layout undecimal_padded) simp
  moreover have "3600 * int (s div 3600) + 60 * int (s div 60 mod 60) + int (s mod 60) = secs mod 86400"
    using clock(4) s(2) by linarith
  moreover have "86400 * (secs div 86400) + secs mod 86400 = secs" by simp
  ultimately show ?thesis using date(1) unfolding secs_def by linarith
qed

end
