(* ===== verification/Go_Float.thy ===== *)
theory Go_Float
  imports Credit_Prelude "HOL-Library.Log_Nat"
begin

text \<open>
  What the program uses of \<open>float64\<close>: conversion of 64-bit integers, the comparison of a quotient with
  0.8, and sums, products and quotients of non-negative floats, all rounded to 53 significant bits,
  half to even, as IEEE 754 does.  None of the values comes near the ends of the exponent range.
\<close>

section \<open>Rounding\<close>

text \<open>The number of low bits a magnitude loses.\<close>

definition lost_bits :: "nat \<Rightarrow> nat" where
  "lost_bits n = floorlog 2 n - 53"

definition float64_nat :: "nat \<Rightarrow> nat" where
  "float64_nat n =
     (let u = 2 ^ lost_bits n; q = n div u; r = n mod u in
      (if 2 * r > u \<or> (2 * r = u \<and> odd q) then q + 1 else q) * u)"

definition float64_uint :: "uint64 \<Rightarrow> nat" where
  "float64_uint w = float64_nat (unat w)"

definition float64_int :: "int64 \<Rightarrow> int" where
  "float64_int w =
     (if sint w < 0 then - int (float64_nat (nat (- sint w))) else int (float64_nat (nat (sint w))))"

section \<open>Arithmetic\<close>

text \<open>
  A non-negative float \<open>(m, e)\<close> stands for \<open>m / 2^e\<close>.  A quotient is computed to far more bits than
  are kept, and its last bit tells whether there is a remainder, so that it is rounded correctly.
\<close>

type_synonym fl = "nat \<times> nat"

definition fl_mult :: "fl \<Rightarrow> fl \<Rightarrow> fl" where
  "fl_mult x y = (float64_nat (fst x * fst y), snd x + snd y)"

definition fl_add :: "fl \<Rightarrow> fl \<Rightarrow> fl" where
  "fl_add x y =
     (let e = max (snd x) (snd y) in (float64_nat (fst x * 2 ^ (e - snd x) + fst y * 2 ^ (e - snd y)), e))"

definition fl_div :: "fl \<Rightarrow> fl \<Rightarrow> fl" where
  "fl_div x y =
     (let a = fst x * 2 ^ (snd y + 128); q = a div fst y in
      (float64_nat (2 * q + (if a mod fst y = 0 then 0 else 1)), snd x + 129))"

text \<open>Conversion to an integer truncates.\<close>

definition fl_trunc :: "fl \<Rightarrow> nat" where
  "fl_trunc x = fst x div 2 ^ snd x"

section \<open>The warning threshold\<close>

text \<open>
  The constant 0.8 is the float \<open>7205759403792794 / 2^53\<close>, whose last bit is even; so a quotient
  rounds to it or above exactly when it is at least the midpoint \<open>14411518807585587 / 2^54\<close> below it.
  The divisor is positive where the test is used.
\<close>

definition quotient_ge_08 :: "int64 \<Rightarrow> int64 \<Rightarrow> bool" where
  "quotient_ge_08 a b \<longleftrightarrow> 14411518807585587 * float64_int b \<le> 2 ^ 54 * float64_int a"

text \<open>Positions in a sorted buffer: \<open>int(float64(n)*0.50)\<close> and \<open>int(float64(n)*0.99)\<close>.\<close>

definition index_50 :: "nat \<Rightarrow> nat" where "index_50 n = fl_trunc (fl_mult (float64_nat n, 0) (1, 1))"
definition index_99 :: "nat \<Rightarrow> nat" where "index_99 n = fl_trunc (fl_mult (float64_nat n, 0) (8917127262193582, 53))"

section \<open>Exactness below \<open>2^53\<close>\<close>

lemma lost_bits_small: "n < 2 ^ 53 \<Longrightarrow> lost_bits n = 0"
  using floorlog_leI [of n 2 53] by (simp add: lost_bits_def)

lemma float64_nat_exact [simp]: "n < 2 ^ 53 \<Longrightarrow> float64_nat n = n"
  by (simp add: float64_nat_def lost_bits_small Let_def)

lemma lost_bits_bounds:
  assumes "2 ^ 53 \<le> n"
  shows "2 ^ (lost_bits n + 52) \<le> n" "n < 2 ^ (lost_bits n + 53)"
proof -
  let ?f = "floorlog 2 n"
  have n: "0 < n" using assms by (simp add: order_less_le_trans)
  have "\<not> ?f \<le> 53" using floorlog_leD [of 2 n 53] assms by auto
  moreover have "2 ^ (?f - 1) \<le> n" "n < 2 ^ ?f" using floorlog_bounds [OF n, of 2] by simp_all
  moreover have "53 < ?f \<Longrightarrow> ?f - 53 + 52 = ?f - 1" "53 < ?f \<Longrightarrow> ?f - 53 + 53 = ?f" by linarith+
  ultimately show "2 ^ (lost_bits n + 52) \<le> n" "n < 2 ^ (lost_bits n + 53)"
    by (simp_all add: lost_bits_def not_le)
qed

lemma lost_bits_eqI: "2 ^ (k + 52) \<le> n \<Longrightarrow> n < 2 ^ (k + 53) \<Longrightarrow> lost_bits n = k"
  using floorlog_leI [of n 2 "k + 53"] floorlog_leD [of 2 n "k + 52"] by (fastforce simp: lost_bits_def)

lemma lost_bits_53: "lost_bits (2 ^ 53) = 1" "lost_bits (2 ^ 53 + 1) = 1"
  by (rule lost_bits_eqI; simp)+

lemma float64_nat_at_most: "n \<le> 2 ^ 53 \<Longrightarrow> float64_nat n = n"
proof (cases "n = 2 ^ 53")
  case True
  then show ?thesis by (simp add: float64_nat_def lost_bits_53 [simplified] Let_def)
qed simp

lemma float64_int_exact:
  assumes "0 \<le> sint w" and "sint w < 2 ^ 53"
  shows "float64_int w = sint w"
proof -
  have "nat (sint w) < 2 ^ 53" using assms by (simp add: nat_less_iff)
  then show ?thesis using assms(1) by (simp add: float64_int_def)
qed

text \<open>Below \<open>2^53\<close> the test is the exact comparison with four fifths: rounding never changes it.\<close>

lemma quotient_ge_08_exact:
  assumes "0 \<le> sint a" "sint a < 2 ^ 53" "0 < sint b" "sint b < 2 ^ 53"
  shows "quotient_ge_08 a b \<longleftrightarrow> 4 * sint b \<le> 5 * sint a"
  using assms by (auto simp: quotient_ge_08_def float64_int_exact)

text \<open>Above it neighbouring integers coincide.\<close>

lemma float64_collision: "float64_nat (2 ^ 53) = float64_nat (2 ^ 53 + 1)"
  by (simp add: float64_nat_def lost_bits_53 [simplified] Let_def)

section \<open>Rounding errors\<close>

lemma float64_nat_error:
  "2 * float64_nat n \<le> 2 * n + 2 ^ lost_bits n" "2 * n \<le> 2 * float64_nat n + 2 ^ lost_bits n"
proof -
  let ?u = "2 ^ lost_bits n :: nat"
  obtain q r where "q = n div ?u" "r = n mod ?u" and n: "n = q * ?u + r" "r < ?u"
    by (metis div_mult_mod_eq mod_less_divisor zero_less_numeral zero_less_power)
  then have "float64_nat n = (if 2 * r > ?u \<or> (2 * r = ?u \<and> odd q) then q + 1 else q) * ?u"
    by (simp add: float64_nat_def Let_def)
  moreover have "(q + 1) * ?u = q * ?u + ?u" by simp
  ultimately show "2 * float64_nat n \<le> 2 * n + ?u" "2 * n \<le> 2 * float64_nat n + ?u"
    using n by (auto split: if_splits)
qed

lemma float64_nat_le_double: "float64_nat n \<le> 2 * n"
proof (cases "n < 2 ^ 53")
  case False
  then have "2 ^ (lost_bits n + 52) \<le> n" using lost_bits_bounds(1) [of n] by simp
  then have "2 ^ lost_bits n \<le> n" by (simp add: power_add)
  then show ?thesis using float64_nat_error(1) [of n] by linarith
qed simp

text \<open>A multiple of the unit at less than half a unit above a number is what the number is rounded to.\<close>

lemma float64_nat_up:
  assumes "2 * d < 2 ^ lost_bits n" and "n + d = k * 2 ^ lost_bits n"
  shows "float64_nat n = n + d"
proof (cases d)
  case 0
  then have "n mod 2 ^ lost_bits n = 0" using assms(2) by (metis add_0_right mod_mult_self2_is_0)
  then show ?thesis using 0 div_mult_mod_eq [of n "2 ^ lost_bits n"] by (simp add: float64_nat_def Let_def)
next
  case (Suc d')
  let ?u = "2 ^ lost_bits n :: nat"
  have "0 < k" using assms(2) Suc by (cases k) auto
  then obtain j where k: "k = Suc j" by (cases k) auto
  have n: "n = j * ?u + (?u - d)" and less: "?u - d < ?u" using assms Suc k by simp_all
  have "n div ?u = j" "n mod ?u = ?u - d" using less by (subst n; simp)+
  then show ?thesis using assms k Suc unfolding float64_nat_def Let_def by auto
qed

text \<open>
  The positions are the integer divisions for all buffers in use: 0.99 is represented by a float
  below it, but the product with a multiple of 100 is rounded up to the integer.
\<close>

lemma index_50_exact: "n \<le> 2048 \<Longrightarrow> index_50 n = n div 2"
  by (simp add: index_50_def fl_mult_def fl_trunc_def)

lemma index_99_exact:
  assumes "n \<le> 2048"
  shows "index_99 n = n * 99 div 100"
proof -
  let ?x = "n * 8917127262193582" and ?i = "n * 99 div 100" and ?r = "n * 99 mod 100"
  have x: "100 * ?x + 8 * n = 2 ^ 53 * (100 * ?i + ?r)" by simp
  have "float64_nat ?x div 2 ^ 53 = ?i"
  proof (cases "?r = 0 \<and> 2 ^ 53 \<le> ?x")
    case True
    let ?k = "lost_bits ?x"
    have bounds: "2 ^ (?k + 52) \<le> ?x" "?x < 2 ^ (?k + 53)" using lost_bits_bounds True by blast+
    have "?x < 2 ^ 64" using assms by simp
    then have "(2 :: nat) ^ (?k + 52) < 2 ^ 64" using bounds(1) by linarith
    then have k: "?k \<le> 53" using power_less_imp_less_exp [of "2 :: nat" "?k + 52" 64] by simp
    define d where "d = 2 ^ 53 * ?i - ?x"
    have "100 * ?x + 8 * n = 100 * (2 ^ 53 * ?i)" using x True by simp
    then have "?x + d = 2 ^ 53 * ?i" "100 * d = 8 * n" unfolding d_def by linarith+
    moreover have "2 * d < 2 ^ ?k" using bounds(2) \<open>100 * d = 8 * n\<close> True by (simp add: power_add)
    moreover have "2 ^ 53 * ?i = ?i * 2 ^ (53 - ?k) * 2 ^ ?k" using k by (simp flip: power_add)
    ultimately have "float64_nat ?x = 2 ^ 53 * ?i" using float64_nat_up by metis
    then show ?thesis by simp
  next
    case False
    show ?thesis
    proof (cases "2 ^ 53 \<le> ?x")
      case True
      let ?u = "2 ^ lost_bits ?x :: nat"
      have "?x < 2 ^ 64" using assms by simp
      then have "?u * 2 ^ 52 < 2 ^ 64" using lost_bits_bounds(1) [OF True] by (simp add: power_add)
      then have "?u < 4096" by simp
      moreover have "1 \<le> ?r" "?r < 100" using True \<open>\<not> (?r = 0 \<and> 2 ^ 53 \<le> ?x)\<close> by simp_all
      moreover have "100 * ?x + 8 * n = 100 * (2 ^ 53 * ?i) + 2 ^ 53 * ?r"
        by (rule trans [OF x]) (simp only: distrib_left mult.left_commute)
      ultimately have "2 ^ 53 * ?i \<le> float64_nat ?x" "float64_nat ?x < 2 ^ 53 * ?i + 2 ^ 53"
        using float64_nat_error [of ?x] assms by simp_all
      then show ?thesis by (intro div_nat_eqI) simp_all
    next
      case False
      then have "n = 0 \<or> n = 1" by auto
      then show ?thesis by auto
    qed
  qed
  then show ?thesis using assms by (simp add: index_99_def fl_mult_def fl_trunc_def)
qed

lemma index_99_less: "0 < n \<Longrightarrow> n \<le> 2048 \<Longrightarrow> index_50 n \<le> index_99 n \<and> index_99 n < n"
  unfolding index_50_exact index_99_exact by linarith

end
