(* ===== verification/Gateway_Dedup.thy ===== *)
theory Gateway_Dedup
  imports Go_Float
begin

text \<open>
  \<open>internal/gateway/dedup.go\<close>: the first-line heartbeat deduplication of the gateway, in memory
  (\<open>MemDedup\<close>) and on Valkey (\<open>redisDedup\<close>).  The clock readings of \<open>time.Now()\<close> are arguments, in
  nanoseconds.  Valkey is the parameter \<open>valkey\<close>, with the documented behaviour of
  \<open>ZADD GT CH\<close> and \<open>EXPIRE\<close> as the named hypothesis \<open>valkey_laws\<close>.
\<close>

section \<open>MemDedup\<close>

record dedupEntry =
  de_seq :: uint64
  de_seenAt :: int

record MemDedup =
  md_entries :: "(string, dedupEntry) gomap"
  md_ttl :: int

definition NewMemDedup :: "int \<Rightarrow> MemDedup" where
  "NewMemDedup ttl = \<lparr>md_entries = [], md_ttl = ttl\<rparr>"

definition mem_IsDuplicate :: "int \<Rightarrow> string \<Rightarrow> uint64 \<Rightarrow> MemDedup \<Rightarrow> MemDedup \<times> bool" where
  "mem_IsDuplicate now clusterID seq d =
     (if (case map_of (md_entries d) clusterID of None \<Rightarrow> True | Some e \<Rightarrow> seq > de_seq e)
      then (d\<lparr>md_entries := AList.update clusterID \<lparr>de_seq = seq, de_seenAt = now\<rparr> (md_entries d)\<rparr>, False)
      else (d, True))"

text \<open>One tick of \<open>pruneLoop\<close>.\<close>

definition mem_prune :: "int \<Rightarrow> MemDedup \<Rightarrow> MemDedup" where
  "mem_prune now d =
     (let cutoff = now - md_ttl d in
      d\<lparr>md_entries := fold (\<lambda>(k, e) m. if de_seenAt e < cutoff then AList.delete k m else m)
                         (md_entries d) (md_entries d)\<rparr>)"

section \<open>redisDedup\<close>

record ZAddOptions =
  ScoreGreaterThanCurrent :: bool
  Changed :: bool

record 'v valkey =
  vk_ZAddWithOptions :: "string \<Rightarrow> (string, nat) gomap \<Rightarrow> ZAddOptions \<Rightarrow> 'v \<Rightarrow> 'v \<times> int64 result"
  vk_Expire :: "string \<Rightarrow> int \<Rightarrow> 'v \<Rightarrow> 'v \<times> bool result"
  vk_elapse :: "int \<Rightarrow> 'v \<Rightarrow> 'v"

definition dedup_key :: "string \<Rightarrow> string" where
  "dedup_key clusterID = ''dedup:'' @ clusterID"

definition redis_IsDuplicate :: "'v valkey \<Rightarrow> int \<Rightarrow> string \<Rightarrow> uint64 \<Rightarrow> 'v \<Rightarrow> 'v \<times> bool" where
  "redis_IsDuplicate client ttl clusterID seq v =
     (let key = dedup_key clusterID;
          opts = \<lparr>ScoreGreaterThanCurrent = True, Changed = True\<rparr>
      in case vk_ZAddWithOptions client key [(''s'', float64_uint seq)] opts v of
           (v1, Inl e) \<Rightarrow> (v1, False)
         | (v1, Inr changed) \<Rightarrow> (fst (vk_Expire client key ttl v1), changed = 0))"

text \<open>
  What is relied on of Valkey.  \<open>sc\<close> reads the score of member \<open>s\<close> of a key.  \<open>ZADD GT CH\<close> sets an
  absent or smaller score and answers how many members it changed; a call that fails may or may not
  have been executed.  \<open>EXPIRE\<close> changes no score, and time only removes whole keys.
\<close>

definition raise_score :: "string \<Rightarrow> nat \<Rightarrow> (string \<Rightarrow> nat option) \<Rightarrow> string \<Rightarrow> nat option" where
  "raise_score k x m =
     (case m k of None \<Rightarrow> m(k \<mapsto> x) | Some p \<Rightarrow> if p < x then m(k \<mapsto> x) else m)"

definition valkey_laws :: "'v valkey \<Rightarrow> ('v \<Rightarrow> string \<Rightarrow> nat option) \<Rightarrow> bool" where
  "valkey_laws client sc \<longleftrightarrow>
     (\<forall>k x v v' r.
        vk_ZAddWithOptions client k [(''s'', x)] \<lparr>ScoreGreaterThanCurrent = True, Changed = True\<rparr> v = (v', r) \<longrightarrow>
        (case r of
           Inl e \<Rightarrow> sc v' = sc v \<or> sc v' = raise_score k x (sc v)
         | Inr n \<Rightarrow> sc v' = raise_score k x (sc v) \<and> n = (if sc v' = sc v then 0 else 1))) \<and>
     (\<forall>k d v. sc (fst (vk_Expire client k d v)) = sc v) \<and>
     (\<forall>d v k. sc (vk_elapse client d v) k \<in> {None, sc v k})"

section \<open>Runs of a deduplicator\<close>

text \<open>Checks in the order the mutex or the server serialises them, and moments that may forget.\<close>

datatype 'e dedup_event = Check 'e string uint64 | Forget 'e

fun dedup_run ::
    "('e \<Rightarrow> string \<Rightarrow> uint64 \<Rightarrow> 's \<Rightarrow> 's \<times> bool) \<Rightarrow> ('e \<Rightarrow> 's \<Rightarrow> 's) \<Rightarrow> 'e dedup_event list \<Rightarrow> 's \<Rightarrow>
     's \<times> (string \<times> uint64 \<times> bool) list" where
  "dedup_run check forget [] s = (s, [])"
| "dedup_run check forget (Check e c q # evs) s =
     (case check e c q s of (s1, b) \<Rightarrow>
        (case dedup_run check forget evs s1 of (s2, trail) \<Rightarrow> (s2, (c, q, b) # trail)))"
| "dedup_run check forget (Forget e # evs) s = dedup_run check forget evs (forget e s)"

text \<open>Every suppressed check of the trail follows one that passed with at least its score.\<close>

definition explained :: "(uint64 \<Rightarrow> nat) \<Rightarrow> (string \<Rightarrow> nat option) \<Rightarrow> (string \<times> uint64 \<times> bool) set \<Rightarrow> bool" where
  "explained score m seen \<longleftrightarrow> (\<forall>c p. m c = Some p \<longrightarrow> (\<exists>q. (c, q, False) \<in> seen \<and> score q = p))"

definition justified ::
    "(uint64 \<Rightarrow> nat) \<Rightarrow> (string \<times> uint64 \<times> bool) set \<Rightarrow> (string \<times> uint64 \<times> bool) list \<Rightarrow> bool" where
  "justified score seen trail \<longleftrightarrow>
     (\<forall>i < length trail. \<forall>c q. trail ! i = (c, q, True) \<longrightarrow>
        (\<exists>p. (c, p, False) \<in> seen \<union> set (take i trail) \<and> score q \<le> score p))"

lemma explained_mono: "explained score m seen \<Longrightarrow> seen \<subseteq> seen' \<Longrightarrow> explained score m seen'"
  unfolding explained_def by blast

lemma justified_Cons:
  "justified score seen ((c, q, b) # trail) \<longleftrightarrow>
     (b \<longrightarrow> (\<exists>p. (c, p, False) \<in> seen \<and> score q \<le> score p)) \<and> justified score (insert (c, q, b) seen) trail"
  by (cases b) (simp_all add: justified_def All_less_Suc2 disj_commute disj_left_commute del: All_less_Suc)

section \<open>The contract of a deduplicator\<close>

locale high_water =
  fixes check :: "'e \<Rightarrow> string \<Rightarrow> uint64 \<Rightarrow> 's \<Rightarrow> 's \<times> bool"
    and forget :: "'e \<Rightarrow> 's \<Rightarrow> 's"
    and mark :: "'s \<Rightarrow> string \<Rightarrow> nat option"
    and score :: "uint64 \<Rightarrow> nat"
  assumes suppressed: "check e c q s = (s', True) \<Longrightarrow> mark s' = mark s \<and> (\<exists>p. mark s c = Some p \<and> score q \<le> p)"
    and passed: "check e c q s = (s', False) \<Longrightarrow> mark s' = mark s \<or> mark s' = (mark s)(c \<mapsto> score q)"
    and forgotten: "mark (forget e s) c \<in> {None, mark s c}"
begin

lemma explained_check:
  assumes "explained score (mark s) seen" and "check e c q s = (s', b)"
  shows "explained score (mark s') (insert (c, q, b) seen) \<and>
    (b \<longrightarrow> (\<exists>p. (c, p, False) \<in> seen \<and> score q \<le> score p))"
proof (cases b)
  case True
  then show ?thesis
    using suppressed [of e c q s s'] assms by (fastforce simp: explained_def)
next
  case False
  then have "mark s' = mark s \<or> mark s' = (mark s)(c \<mapsto> score q)" using passed [of e c q s s'] assms(2) by simp
  then show ?thesis
    using False assms(1) by (elim disjE) (fastforce simp: explained_def split: if_splits)+
qed

lemma run_justified:
  "explained score (mark s) seen \<Longrightarrow> dedup_run check forget evs s = (s', trail) \<Longrightarrow> justified score seen trail"
proof (induction evs arbitrary: s seen trail)
  case (Cons ev evs)
  show ?case
  proof (cases ev)
    case (Check e c q)
    obtain s1 b where 1: "check e c q s = (s1, b)" by fastforce
    moreover obtain s2 rest where 2: "dedup_run check forget evs s1 = (s2, rest)" by fastforce
    ultimately have "trail = (c, q, b) # rest" using Cons.prems(2) Check by simp
    then show ?thesis
      using explained_check [OF Cons.prems(1) 1] Cons.IH [of s1 "insert (c, q, b) seen" rest] 2 Cons.prems(2) Check 1
      by (simp add: justified_Cons)
  next
    case (Forget e)
    have "explained score (mark (forget e s)) seen"
      unfolding explained_def
    proof (intro allI impI)
      fix c p assume "mark (forget e s) c = Some p"
      then have "mark s c = Some p" using forgotten [of e s c] by simp
      then show "\<exists>q. (c, q, False) \<in> seen \<and> score q = p" using Cons.prems(1) by (simp add: explained_def)
    qed
    then show ?thesis using Cons Forget by simp
  qed
qed (simp add: justified_def)

end

text \<open>A deduplicator that passes exactly what raises the mark.\<close>

definition increasing :: "(uint64 \<Rightarrow> nat) \<Rightarrow> (string \<times> uint64 \<times> bool) list \<Rightarrow> bool" where
  "increasing score = sorted_wrt (\<lambda>(c, q, b) (c', q', b'). c = c' \<and> \<not> b \<and> \<not> b' \<longrightarrow> score q < score q')"

definition above :: "(uint64 \<Rightarrow> nat) \<Rightarrow> (string \<Rightarrow> nat option) \<Rightarrow> (string \<times> uint64 \<times> bool) list \<Rightarrow> bool" where
  "above score m trail \<longleftrightarrow> (\<forall>(c, q, b) \<in> set trail. \<not> b \<longrightarrow> (\<forall>p. m c = Some p \<longrightarrow> p < score q))"

locale exact_high_water = high_water +
  assumes raised: "check e c q s = (s', False) \<Longrightarrow>
    mark s' = (mark s)(c \<mapsto> score q) \<and> (\<forall>p. mark s c = Some p \<longrightarrow> p < score q)"
begin

lemma run_increasing:
  "\<forall>e. Forget e \<notin> set evs \<Longrightarrow> dedup_run check forget evs s = (s', trail) \<Longrightarrow>
   above score (mark s) trail \<and> increasing score trail"
proof (induction evs arbitrary: s trail)
  case (Cons ev evs)
  then obtain e c q where ev: "ev = Check e c q" by (cases ev) auto
  obtain s1 b where 1: "check e c q s = (s1, b)" by fastforce
  obtain s2 rest where 2: "dedup_run check forget evs s1 = (s2, rest)" by fastforce
  have trail: "trail = (c, q, b) # rest" "s2 = s'" using Cons.prems(2) ev 1 2 by auto
  have IH: "above score (mark s1) rest" "increasing score rest"
    using Cons.IH [of s1 rest] Cons.prems 2 trail by auto
  show ?case
  proof (cases b)
    case True
    then have "mark s1 = mark s" using suppressed 1 by simp
    then show ?thesis using IH True trail by (auto simp: above_def increasing_def)
  next
    case False
    then have r: "mark s1 = (mark s)(c \<mapsto> score q)" "\<And>p. mark s c = Some p \<Longrightarrow> p < score q"
      using raised [of e c q s s1] 1 by auto
    have "above score (mark s) rest"
      using IH(1) r by (fastforce simp: above_def split: if_splits)
    then show ?thesis
      using IH False trail r by (auto simp: above_def increasing_def)
  qed
qed (simp add: above_def increasing_def)

end

section \<open>Both deduplicators meet it\<close>

definition mem_mark :: "MemDedup \<Rightarrow> string \<Rightarrow> nat option" where
  "mem_mark d c = map_option (\<lambda>e. unat (de_seq e)) (map_of (md_entries d) c)"

lemma mem_passed:
  "mem_IsDuplicate now c q d = (d', False) \<Longrightarrow>
   mem_mark d' = (mem_mark d)(c \<mapsto> unat q) \<and> (\<forall>p. mem_mark d c = Some p \<longrightarrow> p < unat q)"
  by (auto simp: mem_IsDuplicate_def mem_mark_def fun_eq_iff map_of_update word_less_nat_alt
      split: if_splits option.splits)

lemma mem_suppressed:
  "mem_IsDuplicate now c q d = (d', True) \<Longrightarrow> d' = d \<and> (\<exists>p. mem_mark d c = Some p \<and> unat q \<le> p)"
  by (auto simp: mem_IsDuplicate_def mem_mark_def word_less_nat_alt split: if_splits option.splits)

lemma pruned_lookup:
  "map_of (fold (\<lambda>(k, e) m. if p e then AList.delete k m else m) xs m) c =
     (if \<exists>e. (c, e) \<in> set xs \<and> p e then None else map_of m c)"
  by (induction xs arbitrary: m) (auto simp: map_of_delete)

lemma mem_forgotten: "mem_mark (mem_prune now d) c \<in> {None, mem_mark d c}"
  by (simp add: mem_mark_def mem_prune_def Let_def pruned_lookup)

interpretation mem: exact_high_water mem_IsDuplicate mem_prune mem_mark unat
  by unfold_locales (use mem_passed mem_suppressed mem_forgotten in \<open>blast+\<close>)

lemma raise_score_cases:
  "raise_score k x m = m \<and> (\<exists>p. m k = Some p \<and> x \<le> p) \<or> raise_score k x m = m(k \<mapsto> x) \<and> raise_score k x m \<noteq> m"
  by (auto simp: raise_score_def fun_eq_iff split: option.splits)

text \<open>The marks of \<open>redisDedup\<close> are the scores under the keys of the clusters.\<close>

definition redis_mark :: "('v \<Rightarrow> string \<Rightarrow> nat option) \<Rightarrow> 'v \<Rightarrow> string \<Rightarrow> nat option" where
  "redis_mark sc v c = sc v (dedup_key c)"

lemma redis_mark_update: "sc v' = (sc v)(dedup_key c \<mapsto> x) \<Longrightarrow> redis_mark sc v' = (redis_mark sc v)(c \<mapsto> x)"
  by (auto simp: redis_mark_def dedup_key_def fun_eq_iff)

lemma redis_check:
  assumes "valkey_laws client sc" and "redis_IsDuplicate client ttl c q v = (v', b)"
  shows "if b then redis_mark sc v' = redis_mark sc v \<and> (\<exists>p. redis_mark sc v c = Some p \<and> float64_uint q \<le> p)
    else redis_mark sc v' = redis_mark sc v \<or> redis_mark sc v' = (redis_mark sc v)(c \<mapsto> float64_uint q)"
proof -
  let ?k = "dedup_key c" and ?x = "float64_uint q" and ?o = "\<lparr>ScoreGreaterThanCurrent = True, Changed = True\<rparr>"
  obtain v1 r where call: "vk_ZAddWithOptions client ?k [(''s'', ?x)] ?o v = (v1, r)" by fastforce
  have zadd: "case r of Inl e \<Rightarrow> sc v1 = sc v \<or> sc v1 = raise_score ?k ?x (sc v)
      | Inr n \<Rightarrow> sc v1 = raise_score ?k ?x (sc v) \<and> n = (if sc v1 = sc v then 0 else 1)"
    using assms(1) call unfolding valkey_laws_def by blast
  have after: "sc v' = sc v1" "b = (\<exists>n. r = Inr n \<and> n = 0)"
    using assms call by (auto simp: redis_IsDuplicate_def valkey_laws_def Let_def split: sum.splits)
  consider (same) "raise_score ?k ?x (sc v) = sc v" "\<exists>p. sc v ?k = Some p \<and> ?x \<le> p"
    | (new) "raise_score ?k ?x (sc v) = (sc v)(?k \<mapsto> ?x)" "raise_score ?k ?x (sc v) \<noteq> sc v"
    using raise_score_cases by blast
  then show ?thesis
  proof cases
    case same
    then have "sc v1 = sc v" using zadd by (cases r) auto
    then have "redis_mark sc v' = redis_mark sc v" using after(1) by (simp add: redis_mark_def fun_eq_iff)
    then show ?thesis using same(2) by (simp add: redis_mark_def)
  next
    case new
    then have "sc v1 = sc v \<or> sc v1 = (sc v)(?k \<mapsto> ?x)" "\<not> b" using zadd after(2) by (cases r; simp)+
    then show ?thesis
      using after(1) redis_mark_update [of sc v' v c ?x] by (auto simp: redis_mark_def fun_eq_iff)
  qed
qed

lemma redis_high_water:
  assumes "valkey_laws client sc"
  shows "high_water (\<lambda>_. redis_IsDuplicate client ttl) (vk_elapse client) (redis_mark sc) float64_uint"
proof
  show "redis_mark sc (vk_elapse client e s) c \<in> {None, redis_mark sc s c}" for e s c
    using assms unfolding valkey_laws_def redis_mark_def by blast
qed (use redis_check [OF assms] in fastforce)+

section \<open>Soundness\<close>

text \<open>
  C12. The in-memory deduplication never suppresses news.  Whatever heartbeats are checked and
  however the prune loop interleaves, a heartbeat is suppressed only after one of the same cluster
  with at least its sequence number was let through; and as long as nothing is pruned, the sequence
  numbers let through for a cluster strictly increase, so each passes at most once.
\<close>

theorem mem_dedup_sound:
  assumes "dedup_run mem_IsDuplicate mem_prune evs (NewMemDedup ttl) = (d, trail)"
    and "j < length trail" and "trail ! j = (c, q, b)"
  shows "(b \<longrightarrow> (\<exists>k < j. \<exists>p. trail ! k = (c, p, False) \<and> q \<le> p)) \<and>
    (\<not> b \<and> (\<forall>e. Forget e \<notin> set evs) \<longrightarrow> (\<forall>i < j. \<forall>p. trail ! i = (c, p, False) \<longrightarrow> p < q))"
proof -
  have "justified unat {} trail"
    by (rule mem.run_justified [OF _ assms(1)]) (simp add: explained_def mem_mark_def NewMemDedup_def)
  then have news: "\<exists>k < j. \<exists>p. trail ! k = (c, p, False) \<and> q \<le> p" if b
  proof -
    have "trail ! j = (c, q, True)" using assms(3) that by simp
    then obtain p where "(c, p, False) \<in> set (take j trail)" "q \<le> p"
      using \<open>justified unat {} trail\<close> assms(2) unfolding justified_def word_le_nat_alt by blast
    then show ?thesis using assms(2) by (auto simp: in_set_conv_nth)
  qed
  have "p < q" if "\<not> b" "\<forall>e. Forget e \<notin> set evs" "i < j" "trail ! i = (c, p, False)" for i p
  proof -
    have "increasing unat trail" using mem.run_increasing [OF that(2) assms(1)] by blast
    then show ?thesis
      using sorted_wrt_nth_less [OF _ that(3) assms(2)] assms(3) that(1,4)
      unfolding increasing_def word_less_nat_alt by fastforce
  qed
  then show ?thesis using news by blast
qed

text \<open>
  C32. The Valkey deduplication never suppresses news below \<open>2^53\<close>, on any number of pods, with
  keys expiring and calls failing before or after they execute: a suppressed heartbeat whose
  sequence number is at most \<open>2^53\<close> follows one of the same cluster with at least that number
  that was let through.
\<close>

theorem redis_dedup_sound:
  assumes "valkey_laws client sc" and "sc v = Map.empty"
    and "dedup_run (\<lambda>_. redis_IsDuplicate client ttl) (vk_elapse client) evs v = (v', trail)"
    and "j < length trail" and "trail ! j = (c, q, True)" and "q \<le> 2 ^ 53"
  shows "\<exists>k < j. \<exists>p. trail ! k = (c, p, False) \<and> q \<le> p"
proof -
  have "justified float64_uint {} trail"
    by (rule high_water.run_justified [OF redis_high_water [OF assms(1)] _ assms(3)])
      (simp add: explained_def redis_mark_def assms(2))
  then obtain p where p: "(c, p, False) \<in> set (take j trail)" "float64_uint q \<le> float64_uint p"
    using assms(4,5) unfolding justified_def by blast
  have "q \<le> p"
  proof (rule ccontr)
    assume "\<not> q \<le> p"
    then have "unat p < unat q" by (simp add: word_le_nat_alt)
    moreover have "unat q \<le> 2 ^ 53" using assms(6) by (simp add: word_le_nat_alt)
    ultimately have "float64_nat (unat p) = unat p" "float64_nat (unat q) = unat q"
      by (intro float64_nat_at_most; linarith)+
    then show False using p(2) \<open>unat p < unat q\<close> by (simp add: float64_uint_def)
  qed
  moreover obtain k where "k < j" "trail ! k = (c, p, False)"
    using p(1) assms(4) by (auto simp: in_set_conv_nth)
  ultimately show ?thesis by blast
qed

section \<open>Completeness within the TTL\<close>

definition remembers :: "int \<Rightarrow> string \<Rightarrow> uint64 \<Rightarrow> int \<Rightarrow> MemDedup \<Rightarrow> bool" where
  "remembers t c q ttl d \<longleftrightarrow> distinct (map fst (md_entries d)) \<and> md_ttl d = ttl \<and>
     (\<exists>e. map_of (md_entries d) c = Some e \<and> q \<le> de_seq e \<and> t \<le> de_seenAt e)"

text \<open>A clock reading at or after \<open>t\<close>, and a prune tick that comes before the entry's age exceeds the TTL.\<close>

definition timely :: "int \<Rightarrow> int \<Rightarrow> int dedup_event \<Rightarrow> bool" where
  "timely t ttl ev = (case ev of Check now _ _ \<Rightarrow> t \<le> now | Forget now \<Rightarrow> now \<le> t + ttl)"

lemma remembers_check:
  "remembers t c q ttl d \<Longrightarrow> t \<le> now \<Longrightarrow> mem_IsDuplicate now c' q' d = (d', b) \<Longrightarrow> remembers t c q ttl d'"
  unfolding remembers_def mem_IsDuplicate_def
  by (cases "map_of (md_entries d) c'")
    (auto simp del: map_of_eq_Some_iff simp: distinct_update split: if_splits intro: order_trans less_imp_le)

lemma remembers_prune:
  assumes "remembers t c q ttl d" and "now \<le> t + ttl"
  shows "remembers t c q ttl (mem_prune now d)"
proof -
  obtain e where e: "map_of (md_entries d) c = Some e" "q \<le> de_seq e" "t \<le> de_seenAt e"
    and d: "distinct (map fst (md_entries d))" "md_ttl d = ttl"
    using assms(1) by (auto simp: remembers_def)
  have "distinct (map fst (fold (\<lambda>(k, e) m. if p e then AList.delete k m else m) xs m))"
    if "distinct (map fst m)" for p :: "dedupEntry \<Rightarrow> bool" and xs m :: "(string, dedupEntry) gomap"
    using that by (induction xs arbitrary: m) (auto simp: distinct_delete)
  moreover have "\<not> (\<exists>e. (c, e) \<in> set (md_entries d) \<and> de_seenAt e < now - ttl)"
  proof
    assume "\<exists>e. (c, e) \<in> set (md_entries d) \<and> de_seenAt e < now - ttl"
    then obtain e' where "(c, e') \<in> set (md_entries d)" "de_seenAt e' < now - ttl" by blast
    then show False using map_of_is_SomeI [OF d(1), of c e'] e assms(2) by simp
  qed
  ultimately show ?thesis
    using e d by (simp add: remembers_def mem_prune_def Let_def pruned_lookup)
qed

lemma remembers_run:
  "remembers t c q ttl d \<Longrightarrow> list_all (timely t ttl) evs \<Longrightarrow>
   remembers t c q ttl (fst (dedup_run mem_IsDuplicate mem_prune evs d))"
proof (induction evs arbitrary: d)
  case (Cons ev evs)
  show ?case
  proof (cases ev)
    case (Check now c' q')
    obtain d1 b where 1: "mem_IsDuplicate now c' q' d = (d1, b)" by fastforce
    then have "remembers t c q ttl d1" using Cons.prems Check remembers_check [OF _ _ 1] by (simp add: timely_def)
    then show ?thesis using Cons Check 1 by (simp split: prod.split) (metis fst_conv)
  next
    case (Forget now)
    then show ?thesis using Cons remembers_prune by (simp add: timely_def)
  qed
qed simp

text \<open>
  A passed heartbeat is suppressed when it comes again, in whatever traffic, as long as the prune
  loop has not ticked later than a TTL after it.
\<close>

lemma mem_dedup_window:
  assumes "mem_IsDuplicate t c q d = (d1, False)" and "distinct (map fst (md_entries d))"
    and "list_all (timely t (md_ttl d)) evs" and "dedup_run mem_IsDuplicate mem_prune evs d1 = (d2, trail)" and "q' \<le> q"
  shows "mem_IsDuplicate t' c q' d2 = (d2, True)"
proof -
  have "remembers t c q (md_ttl d) d1"
    using assms(1,2) by (auto simp: remembers_def mem_IsDuplicate_def map_of_update distinct_update split: if_splits)
  then have "remembers t c q (md_ttl d) d2" using remembers_run assms(3,4) by (metis fst_conv)
  then show ?thesis using assms(5) by (auto simp: remembers_def mem_IsDuplicate_def)
qed

section \<open>A concrete Valkey\<close>

definition ref_valkey :: "(string, nat) gomap valkey" where
  "ref_valkey =
     \<lparr>vk_ZAddWithOptions = \<lambda>k ms opts v.
        (case map_of v k of
           None \<Rightarrow> ((k, snd (hd ms)) # v, Inr 1)
         | Some p \<Rightarrow> if p < snd (hd ms) then (AList.update k (snd (hd ms)) v, Inr 1) else (v, Inr 0)),
      vk_Expire = \<lambda>k d v. (v, Inr True), vk_elapse = \<lambda>d v. v\<rparr>"

lemma ref_valkey_laws: "valkey_laws ref_valkey map_of"
proof -
  have same: "m(k \<mapsto> x) = m \<longleftrightarrow> m k = Some x" for m :: "string \<Rightarrow> nat option" and k x
    by (metis fun_upd_same fun_upd_triv)
  have "sum.case_sum (\<lambda>e. map_of v' = map_of v \<or> map_of v' = raise_score k x (map_of v))
      (\<lambda>n. map_of v' = raise_score k x (map_of v) \<and> n = (if map_of v' = map_of v then 0 else 1)) r"
    if "vk_ZAddWithOptions ref_valkey k [(''s'', x)] opts v = (v', r)" for k x opts v v' r
    using that
    by (cases "map_of v k") (auto simp: ref_valkey_def raise_score_def same simp del: map_of_eq_Some_iff split: if_splits)
  then show ?thesis by (simp add: valkey_laws_def ref_valkey_def)
qed

theorem mem_dedup_sound_witness:
  "\<exists>d. dedup_run mem_IsDuplicate mem_prune [Check 0 ''a'' 5, Check 1 ''a'' 5] (NewMemDedup 10) =
     (d, [(''a'', 5, False), (''a'', 5, True)]) \<and> (5 :: uint64) \<le> 5"
proof -
  obtain d where run: "dedup_run mem_IsDuplicate mem_prune [Check 0 ''a'' 5, Check 1 ''a'' 5] (NewMemDedup 10) =
      (d, [(''a'', 5, False), (''a'', 5, True)])"
    by (simp add: mem_IsDuplicate_def NewMemDedup_def)
  show ?thesis using mem_dedup_sound [OF run, of 1 "''a''" 5 True] run by auto
qed

theorem redis_dedup_sound_witness:
  "\<exists>v. dedup_run (\<lambda>_. redis_IsDuplicate ref_valkey 10) (vk_elapse ref_valkey) [Check 0 ''a'' 5, Check 1 ''a'' 4] [] =
     (v, [(''a'', 5, False), (''a'', 4, True)]) \<and> (\<exists>p. p = 5 \<and> (4 :: uint64) \<le> p)"
proof -
  obtain v where run: "dedup_run (\<lambda>_. redis_IsDuplicate ref_valkey 10) (vk_elapse ref_valkey)
      [Check 0 ''a'' 5, Check 1 ''a'' 4] [] = (v, [(''a'', 5, False), (''a'', 4, True)])"
    by (simp add: redis_IsDuplicate_def ref_valkey_def float64_uint_def dedup_key_def)
  show ?thesis using redis_dedup_sound [OF ref_valkey_laws _ run, of 1 "''a''" 4] run by auto
qed

text \<open>
  Above \<open>2^53\<close> the scores are rounded: of two consecutive new heartbeats the second is suppressed.
\<close>

lemma redis_suppresses_news:
  "snd (dedup_run (\<lambda>_. redis_IsDuplicate ref_valkey 10) (vk_elapse ref_valkey)
     [Check 0 ''a'' (2 ^ 53), Check 1 ''a'' (2 ^ 53 + 1)] []) = [(''a'', 2 ^ 53, False), (''a'', 2 ^ 53 + 1, True)]"
  using float64_collision by (simp add: redis_IsDuplicate_def ref_valkey_def float64_uint_def dedup_key_def)

end
