(* ===== verification/Gateway_Streams.thy ===== *)
theory Gateway_Streams
  imports Go_Float "HOL-Library.Multiset"
begin

text \<open>
  Two small components of the gateway: \<open>internal/gateway/stream_manager.go\<close>, the registry of live
  streams, and the latency ring and message counter of \<open>internal/gateway/heartbeat_handler.go\<close>.
  Clock readings and durations are arguments in nanoseconds.
\<close>

section \<open>StreamManager\<close>

record StreamEntry =
  se_ClusterID :: string
  se_ConnectedAt :: int
  se_LastSeen :: int

record StreamManager =
  sm_streams :: "(string, StreamEntry) gomap"

definition NewStreamManager :: StreamManager where
  "NewStreamManager = \<lparr>sm_streams = []\<rparr>"

definition sm_Register :: "int \<Rightarrow> int \<Rightarrow> string \<Rightarrow> StreamManager \<Rightarrow> StreamManager \<times> StreamEntry" where
  "sm_Register now now' clusterID m =
     (let e = \<lparr>se_ClusterID = clusterID, se_ConnectedAt = now, se_LastSeen = now'\<rparr> in
      (m\<lparr>sm_streams := AList.update clusterID e (sm_streams m)\<rparr>, e))"

definition sm_Deregister :: "string \<Rightarrow> StreamManager \<Rightarrow> StreamManager" where
  "sm_Deregister clusterID m = m\<lparr>sm_streams := AList.delete clusterID (sm_streams m)\<rparr>"

definition sm_Touch :: "int \<Rightarrow> string \<Rightarrow> StreamManager \<Rightarrow> StreamManager" where
  "sm_Touch now clusterID m =
     (case map_of (sm_streams m) clusterID of
        None \<Rightarrow> m
      | Some e \<Rightarrow> m\<lparr>sm_streams := AList.update clusterID (e\<lparr>se_LastSeen := now\<rparr>) (sm_streams m)\<rparr>)"

definition ActiveClusters :: "StreamManager \<Rightarrow> string list" where
  "ActiveClusters m = map fst (sm_streams m)"

section \<open>Latency ring\<close>

record latencies =
  latRing :: "int list"
  latPos :: nat
  latFull :: bool

definition latRingSize :: nat where "latRingSize = 2048"

definition new_latencies :: latencies where
  "new_latencies = \<lparr>latRing = replicate latRingSize 0, latPos = 0, latFull = False\<rparr>"

text \<open>\<open>d.Microseconds()\<close> divides towards zero.\<close>

definition Microseconds :: "int \<Rightarrow> int" where
  "Microseconds d = sgn d * (\<bar>d\<bar> div 1000)"

definition recordLatency :: "int \<Rightarrow> latencies \<Rightarrow> latencies" where
  "recordLatency d h =
     (let us = Microseconds d;
          h = h\<lparr>latRing := (latRing h)[latPos h := us], latPos := latPos h + 1\<rparr>
      in if latPos h \<ge> length (latRing h) then h\<lparr>latPos := 0, latFull := True\<rparr> else h)"

definition Percentiles :: "latencies \<Rightarrow> int \<times> int" where
  "Percentiles h =
     (let n = (if latFull h then length (latRing h) else latPos h) in
      if n = 0 then (0, 0)
      else (let buf = sort (take n (latRing h)) in (buf ! index_50 n, buf ! index_99 n)))"

section \<open>Message counter\<close>

record msg_rate =
  inboundMsgs :: uint64
  rateLastVal :: uint64
  rateLastAt :: int

text \<open>
  The zero \<open>time.Time\<close> is the start of year 1; \<open>Sub\<close> saturates at the ends of the 64-bit durations.
\<close>

definition zero_time :: int where "zero_time = - 62135596800 * 1000000000"

definition time_Sub :: "int \<Rightarrow> int \<Rightarrow> int" where
  "time_Sub t u = max (- (2 ^ 63)) (min (2 ^ 63 - 1) (t - u))"

text \<open>The rate is a float quotient; the model returns its two operands, when it is computed at all.\<close>

definition MsgRate :: "int \<Rightarrow> msg_rate \<Rightarrow> msg_rate \<times> (uint64 \<times> int) option \<times> uint64" where
  "MsgRate now h =
     (let cur = inboundMsgs h; elapsed = time_Sub now (rateLastAt h);
          rate = (if elapsed > 0 then Some (cur - rateLastVal h, elapsed) else None)
      in (h\<lparr>rateLastVal := cur, rateLastAt := now\<rparr>, rate, cur))"

section \<open>The registry tracks the open streams\<close>

text \<open>Streams are numbered; each opens for a cluster, is touched by its messages, and closes.\<close>

datatype stream_event = Opened nat string int | Message nat int | Closed nat

record tracker =
  tr_manager :: StreamManager
  tr_open :: "(nat, string) gomap"

fun track :: "stream_event \<Rightarrow> tracker \<Rightarrow> tracker" where
  "track (Opened i c now) t =
     t\<lparr>tr_manager := fst (sm_Register now now c (tr_manager t)), tr_open := AList.update i c (tr_open t)\<rparr>"
| "track (Message i now) t =
     (case map_of (tr_open t) i of
        None \<Rightarrow> t | Some c \<Rightarrow> t\<lparr>tr_manager := sm_Touch now c (tr_manager t)\<rparr>)"
| "track (Closed i) t =
     (case map_of (tr_open t) i of
        None \<Rightarrow> t
      | Some c \<Rightarrow> t\<lparr>tr_manager := sm_Deregister c (tr_manager t), tr_open := AList.delete i (tr_open t)\<rparr>)"

text \<open>No stream opens for a cluster that still has another one.\<close>

fun exclusive :: "stream_event list \<Rightarrow> tracker \<Rightarrow> bool" where
  "exclusive [] t \<longleftrightarrow> True"
| "exclusive (ev # evs) t \<longleftrightarrow>
     (case ev of Opened i c now \<Rightarrow> i \<notin> fst ` set (tr_open t) \<and> c \<notin> snd ` set (tr_open t) | _ \<Rightarrow> True) \<and>
     exclusive evs (track ev t)"

definition new_tracker :: tracker where
  "new_tracker = \<lparr>tr_manager = NewStreamManager, tr_open = []\<rparr>"

definition tracked :: "tracker \<Rightarrow> bool" where
  "tracked t \<longleftrightarrow> set (ActiveClusters (tr_manager t)) = snd ` set (tr_open t) \<and>
     distinct (ActiveClusters (tr_manager t)) \<and> distinct (map fst (tr_open t)) \<and> distinct (map snd (tr_open t))"

lemma active_register: "set (ActiveClusters (fst (sm_Register a b c m))) = insert c (set (ActiveClusters m))"
  by (simp add: sm_Register_def ActiveClusters_def Let_def dom_update)

lemma active_deregister: "set (ActiveClusters (sm_Deregister c m)) = set (ActiveClusters m) - {c}"
  by (simp add: sm_Deregister_def ActiveClusters_def delete_keys)

lemma active_touch: "ActiveClusters (sm_Touch now c m) = ActiveClusters m"
proof (cases "map_of (sm_streams m) c")
  case (Some e)
  then have "c \<in> fst ` set (sm_streams m)" by (metis map_of_eq_None_iff option.distinct(1))
  then show ?thesis using Some by (simp add: sm_Touch_def ActiveClusters_def update_keys)
qed (simp add: sm_Touch_def)

lemma update_new: "k \<notin> fst ` set m \<Longrightarrow> AList.update k v m = m @ [(k, v)]"
  by (induction m) auto

lemma delete_value:
  "distinct (map fst m) \<Longrightarrow> distinct (map snd m) \<Longrightarrow> map_of m k = Some v \<Longrightarrow>
   distinct (map snd (AList.delete k m)) \<and> snd ` set (AList.delete k m) = snd ` set m - {v}"
proof (induction m)
  case (Cons x m)
  show ?case
  proof (cases "fst x = k")
    case True
    then have "k \<notin> fst ` set m" using Cons.prems(1) by auto
    then have "AList.delete k m = m" by simp
    then show ?thesis using Cons.prems True by (cases x) auto
  next
    case False
    then have "v \<noteq> snd x" using Cons.prems(2,3) by (cases x) (auto dest!: map_of_SomeD simp: rev_image_eqI)
    moreover have "snd x \<notin> snd ` set (AList.delete k m)" using Cons.prems(2) by (auto simp: AList.delete_eq)
    ultimately show ?thesis using Cons False by (cases x) auto
  qed
qed simp

lemma tracked_step:
  assumes "tracked t" and "exclusive [ev] t"
  shows "tracked (track ev t)"
proof (cases ev)
  case (Opened i c now)
  then show ?thesis
    using assms by (auto simp: tracked_def active_register ActiveClusters_def sm_Register_def Let_def
        distinct_update update_new)
next
  case (Message i now)
  then show ?thesis using assms(1) by (auto simp: tracked_def active_touch split: option.split)
next
  case (Closed i)
  show ?thesis
  proof (cases "map_of (tr_open t) i")
    case (Some c)
    then show ?thesis
      using assms(1) Closed delete_value [of "tr_open t" i c]
      by (simp add: tracked_def active_deregister) (simp add: ActiveClusters_def sm_Deregister_def distinct_delete)
  qed (use assms(1) Closed in simp)
qed

text \<open>
  The registry of streams is exact when a cluster's old stream closes before its new one opens:
  after any run of openings, messages and closings, \<open>ActiveClusters\<close> lists each cluster with an open
  stream exactly once, and no other.
\<close>

lemma streams_tracked:
  assumes "exclusive evs new_tracker" and "t = fold track evs new_tracker"
  shows "distinct (ActiveClusters (tr_manager t)) \<and>
    set (ActiveClusters (tr_manager t)) = snd ` set (tr_open t)"
proof -
  have "tracked (fold track evs t0)" if "tracked t0" "exclusive evs t0" for t0
    using that tracked_step by (induction evs arbitrary: t0) (simp_all split: stream_event.splits)
  moreover have "tracked new_tracker"
    by (simp add: tracked_def new_tracker_def NewStreamManager_def ActiveClusters_def)
  ultimately show ?thesis using assms by (auto simp: tracked_def)
qed

text \<open>
  When they overlap, closing the old stream removes the entry of the new one: the cluster is
  connected and not listed, whatever messages follow.
\<close>

lemma reconnect_hides_cluster:
  "let t = fold track ([Opened 1 ''a'' 0, Opened 2 ''a'' 1, Closed 1] @ map (Message 2) ts) new_tracker
   in ActiveClusters (tr_manager t) = [] \<and> tr_open t = [(2, ''a'')]"
proof -
  let ?t = "fold track [Opened 1 ''a'' 0, Opened 2 ''a'' 1, Closed 1] new_tracker"
  have "?t = \<lparr>tr_manager = NewStreamManager, tr_open = [(2, ''a'')]\<rparr>"
    by (simp add: new_tracker_def NewStreamManager_def sm_Register_def sm_Deregister_def Let_def)
  moreover have "fold track (map (Message 2) ts) \<lparr>tr_manager = NewStreamManager, tr_open = [(2, ''a'')]\<rparr> =
      \<lparr>tr_manager = NewStreamManager, tr_open = [(2, ''a'')]\<rparr>" for ts
    by (induction ts) (simp_all add: sm_Touch_def NewStreamManager_def)
  ultimately show ?thesis by (simp add: NewStreamManager_def ActiveClusters_def)
qed

section \<open>The ring holds the last 2048 latencies\<close>

definition recent :: "int list \<Rightarrow> int list" where
  "recent ds = drop (length ds - latRingSize) (map Microseconds ds)"

text \<open>The ring read from the write position on, once it is full, and its written prefix before.\<close>

definition ring_ok :: "int list \<Rightarrow> latencies \<Rightarrow> bool" where
  "ring_ok ds h \<longleftrightarrow> length (latRing h) = latRingSize \<and> latPos h < latRingSize \<and>
     (if latFull h then latRingSize \<le> length ds \<and> drop (latPos h) (latRing h) @ take (latPos h) (latRing h) = recent ds
      else length ds = latPos h \<and> take (latPos h) (latRing h) = recent ds)"

lemma recent_snoc:
  "recent (ds @ [d]) = (if latRingSize \<le> length ds then tl (recent ds) else recent ds) @ [Microseconds d]"
  by (auto simp: recent_def tl_drop drop_Suc [symmetric] Suc_diff_le) (simp add: latRingSize_def)

lemma ring_step:
  assumes "ring_ok ds h"
  shows "ring_ok (ds @ [d]) (recordLatency d h)"
proof -
  let ?r = "latRing h" and ?p = "latPos h" and ?x = "Microseconds d"
  have len: "length ?r = latRingSize" "?p < length ?r" using assms by (auto simp: ring_ok_def)
  have upd: "take (Suc ?p) (?r[?p := ?x]) = take ?p ?r @ [?x]" "drop (Suc ?p) (?r[?p := ?x]) = drop (Suc ?p) ?r"
    using len(2) by (simp_all add: take_Suc_conv_app_nth)
  have new: "recent (ds @ [d]) = (if latFull h then drop (Suc ?p) ?r @ take ?p ?r else take ?p ?r) @ [?x]"
  proof (cases "latFull h")
    case True
    have "drop ?p ?r @ take ?p ?r = recent ds" "latRingSize \<le> length ds" using assms True by (simp_all add: ring_ok_def)
    then have "tl (recent ds) = drop (Suc ?p) ?r @ take ?p ?r"
      using len(2) by (metis Cons_nth_drop_Suc append_Cons list.sel(3))
    then show ?thesis using True \<open>latRingSize \<le> length ds\<close> by (simp add: recent_snoc)
  next
    case False
    then show ?thesis using assms len by (auto simp: ring_ok_def recent_snoc)
  qed
  show ?thesis
  proof (cases "Suc ?p = latRingSize")
    case True
    then show ?thesis
      using assms len upd new by (auto simp: ring_ok_def recordLatency_def Let_def)
  next
    case False
    then show ?thesis
      using assms len upd new by (auto simp: ring_ok_def recordLatency_def Let_def)
  qed
qed

text \<open>
  The latency percentiles are those of the most recent 2048 measurements: whatever durations
  were recorded, through any number of wrap-arounds of the ring, \<open>Percentiles\<close> returns the elements
  at positions \<open>n/2\<close> and \<open>99n/100\<close> of the sorted list of the last \<open>n = min(2048, count)\<close> of them (in
  microseconds), and zeros when there are none.
\<close>

lemma percentiles_of_recent:
  "Percentiles (fold recordLatency ds new_latencies) =
     (let buf = sort (recent ds); n = min latRingSize (length ds) in
      if n = 0 then (0, 0) else (buf ! (n div 2), buf ! (n * 99 div 100)))"
proof -
  let ?h = "fold recordLatency ds new_latencies"
  have "ring_ok ds ?h"
  proof (induction ds rule: rev_induct)
    case Nil
    then show ?case by (simp add: ring_ok_def new_latencies_def recent_def latRingSize_def)
  qed (simp add: ring_step)
  then have n: "(if latFull ?h then length (latRing ?h) else latPos ?h) = min latRingSize (length ds)"
    by (auto simp: ring_ok_def min_def)
  have "mset (take (min latRingSize (length ds)) (latRing ?h)) = mset (recent ds)"
  proof (cases "latFull ?h")
    case True
    then have "mset (recent ds) = mset (drop (latPos ?h) (latRing ?h)) + mset (take (latPos ?h) (latRing ?h))"
      using \<open>ring_ok ds ?h\<close> by (simp add: ring_ok_def flip: mset_append)
    also have "\<dots> = mset (latRing ?h)" by (metis append_take_drop_id mset_append union_commute)
    finally show ?thesis using True n by (simp flip: n)
  next
    case False
    then show ?thesis using \<open>ring_ok ds ?h\<close> by (simp add: ring_ok_def)
  qed
  then have "sort (take (min latRingSize (length ds)) (latRing ?h)) = sort (recent ds)"
    by (metis properties_for_sort mset_sort sorted_sort)
  moreover have "min latRingSize (length ds) \<le> 2048" by (simp add: latRingSize_def)
  ultimately show ?thesis
    unfolding Percentiles_def Let_def n by (simp only: index_50_exact index_99_exact)
qed

lemma streams_tracked_witness:
  "exclusive [Opened 1 ''a'' 0, Message 1 5, Closed 1, Opened 2 ''a'' 7] new_tracker \<and>
   ActiveClusters (tr_manager (fold track [Opened 1 ''a'' 0, Message 1 5, Closed 1, Opened 2 ''a'' 7] new_tracker)) = [''a'']"
proof -
  let ?evs = "[Opened 1 ''a'' 0, Message 1 5, Closed 1, Opened 2 ''a'' 7]"
  have run: "exclusive ?evs new_tracker" "tr_open (fold track ?evs new_tracker) = [(2, ''a'')]"
    by (simp_all add: new_tracker_def)
  have "distinct xs \<Longrightarrow> set xs = {x} \<Longrightarrow> xs = [x]" for xs :: "string list" and x
    by (cases xs; cases "tl xs") auto
  then show ?thesis using streams_tracked [OF run(1) refl] run by simp
qed

end
