(* ===== verification/Heartbeat_Gateway.thy ===== *)
theory Heartbeat_Gateway
  imports Provisioning_Workflow Go_Time Gateway_Dedup Gateway_Streams
begin

text \<open>
  \<open>internal/gateway/heartbeat_handler.go\<close>: the heartbeat service, unary and streaming.

  \<^item> The deduplicator is the parameter \<open>check\<close> (\<open>IsDuplicate\<close> of theory \<open>Gateway_Dedup\<close> with its clock
    reading), the Temporal client the parameter \<open>tc\<close>, and \<open>uuid.Parse\<close> and \<open>UUID.String\<close> are \<open>parse\<close>
    and \<open>ustr\<close>.
  \<^item> \<open>ctx k\<close> tells whether the request context ends during the \<open>k\<close>-th wait of a retry loop, and with
    which error; a wait that is not cut short returns after its backoff.
  \<^item> The three goroutines of a stream are steps on a shared state, taken in any order.
\<close>

section \<open>Messages\<close>

text \<open>\<open>Status\<close> of \<open>common.proto\<close>, ordered by its numbers.\<close>

datatype Status = STATUS_UNSPECIFIED | STATUS_OK | STATUS_QUOTA_WARNING | STATUS_QUOTA_EXCEEDED | STATUS_DEGRADED

fun Status_number :: "Status \<Rightarrow> nat" where
  "Status_number STATUS_UNSPECIFIED = 0"
| "Status_number STATUS_OK = 1"
| "Status_number STATUS_QUOTA_WARNING = 2"
| "Status_number STATUS_QUOTA_EXCEEDED = 3"
| "Status_number STATUS_DEGRADED = 4"

instantiation Status :: linorder
begin

definition less_eq_Status :: "Status \<Rightarrow> Status \<Rightarrow> bool" where
  "s \<le> t \<longleftrightarrow> Status_number s \<le> Status_number t"

definition less_Status :: "Status \<Rightarrow> Status \<Rightarrow> bool" where
  "s < t \<longleftrightarrow> Status_number s < Status_number t"

instance
proof
  fix s t :: Status
  show "s = t" if "s \<le> t" "t \<le> s"
    using that by (cases s; cases t) (simp_all add: less_eq_Status_def)
qed (auto simp: less_eq_Status_def less_Status_def)

end

record QuotaInfo =
  qi_ResourceType :: string
  qi_Used :: int64
  qi_Limit :: int64
  qi_Available :: int64
  qi_Status :: Status

datatype Command_Type = TYPE_UNSPECIFIED | TYPE_THROTTLE | TYPE_SCALE_DOWN | TYPE_SHUTDOWN

record Command =
  cmd_Type :: Command_Type
  cmd_Reason :: string

text \<open>The timestamp is given as its nanoseconds since the epoch.\<close>

record HeartbeatRequest =
  hr_ClusterId :: string
  hr_Timestamp :: "int64 option"
  hr_ActiveNodes :: int32
  hr_CpuMillisecondsDelta :: int64
  hr_MemoryMbSecondsDelta :: int64
  hr_SequenceNumber :: uint64
  hr_LastAckSequence :: uint64

record HeartbeatResponse =
  hp_Status :: Status
  hp_Quotas :: "QuotaInfo list"
  hp_AckSequence :: uint64
  hp_PendingCommands :: "Command list"

section \<open>Status and commands\<close>

definition overallStatus :: "QuotaInfo list \<Rightarrow> Status" where
  "overallStatus quotas =
     (let worst = fold (\<lambda>q worst. if qi_Status q > worst then qi_Status q else worst) quotas STATUS_UNSPECIFIED in
      if worst = STATUS_UNSPECIFIED then STATUS_OK else worst)"

text \<open>\<open>%d\<close> of a signed 64-bit integer.\<close>

definition show_int64 :: "int64 \<Rightarrow> string" where
  "show_int64 w = (if sint w < 0 then ''-'' @ decimal (nat (- sint w)) else decimal (nat (sint w)))"

definition buildPendingCommands :: "QuotaInfo list \<Rightarrow> Command list" where
  "buildPendingCommands quotas =
     map (\<lambda>q. \<lparr>cmd_Type = TYPE_SHUTDOWN,
              cmd_Reason = ''quota exceeded: '' @ qi_ResourceType q @ '' (available: '' @
                show_int64 (qi_Available q) @ '')''\<rparr>)
       (filter (\<lambda>q. qi_Status q = STATUS_QUOTA_EXCEEDED) quotas)"

text \<open>The status of one snapshot row; \<open>exceeded\<close> is the answer of the workflow for its resource.\<close>

definition used_of :: "string \<Rightarrow> int64 \<Rightarrow> int64 \<Rightarrow> int64" where
  "used_of resourceType debitsPosted debitsPending = (if IsGauge resourceType then debitsPending else debitsPosted)"

definition quota_status :: "bool \<Rightarrow> int64 option \<Rightarrow> int64 \<Rightarrow> int64 \<Rightarrow> Status" where
  "quota_status exceeded avail used creditsTotal =
     (if avail = None \<or> (case avail of None \<Rightarrow> False | Some a \<Rightarrow> sint a \<le> 0) \<or> exceeded then STATUS_QUOTA_EXCEEDED
      else if 0 < sint creditsTotal \<and> quotient_ge_08 used creditsTotal then STATUS_QUOTA_WARNING
      else STATUS_OK)"

definition snapshot_quota :: "(string \<Rightarrow> bool) \<Rightarrow> QuotaSnapshot \<Rightarrow> QuotaInfo" where
  "snapshot_quota exceeded s =
     (let used = used_of (sn_ResourceType s) (sn_DebitsPosted s) (sn_DebitsPending s) in
      \<lparr>qi_ResourceType = sn_ResourceType s, qi_Used = used, qi_Limit = sn_CreditsTotal s,
       qi_Available = (case sn_Available s of None \<Rightarrow> 0 | Some a \<Rightarrow> a),
       qi_Status = quota_status (exceeded (sn_ResourceType s)) (sn_Available s) used (sn_CreditsTotal s)\<rparr>)"

section \<open>Cluster identifiers\<close>

definition hex_digit :: "char \<Rightarrow> byte option" where
  "hex_digit c =
     (let n = of_char c :: nat in
      if 48 \<le> n \<and> n \<le> 57 then Some (of_nat (n - 48))
      else if 97 \<le> n \<and> n \<le> 102 then Some (of_nat (n - 87))
      else if 65 \<le> n \<and> n \<le> 70 then Some (of_nat (n - 55))
      else None)"

text \<open>\<open>hex.DecodeString\<close> returns the bytes before the first error.\<close>

fun hex_decode :: "string \<Rightarrow> byte list" where
  "hex_decode (a # b # rest) =
     (case (hex_digit a, hex_digit b) of
        (Some x, Some y) \<Rightarrow> (16 * x + y) # hex_decode rest
      | _ \<Rightarrow> [])"
| "hex_decode _ = []"

definition uuidToBytes :: "uuid_parser \<Rightarrow> string \<Rightarrow> bytes16 result" where
  "uuidToBytes parse i = (case parse i of Inl _ \<Rightarrow> Inr (le_word (take 16 (hex_decode i))) | Inr u \<Rightarrow> Inr u)"

section \<open>The handler\<close>

record 't temporal =
  tc_SignalHeartbeat :: "string \<Rightarrow> HeartbeatSignal \<Rightarrow> 't \<Rightarrow> 't \<times> unit result"
  tc_QueryLastTBAck :: "string \<Rightarrow> 't \<Rightarrow> uint64 result"
  tc_QueryExceededResources :: "string \<Rightarrow> 't \<Rightarrow> (string, bool) gomap result"

record 't externals =
  ex_parse :: uuid_parser
  ex_ustr :: "bytes16 \<Rightarrow> string"
  ex_temporal :: "'t temporal"

record 'd HeartbeatHandler =
  hh_dedup :: 'd
  hh_streams :: StreamManager
  hh_clusterToTenant :: "(string, string) gomap"
  hh_rate :: msg_rate
  hh_lat :: latencies

record ('d, 't) gateway =
  gw_handler :: "'d HeartbeatHandler"
  gw_db :: pg
  gw_temporal :: 't

definition NewHeartbeatHandler :: "'d \<Rightarrow> StreamManager \<Rightarrow> 'd HeartbeatHandler" where
  "NewHeartbeatHandler dedup sm =
     \<lparr>hh_dedup = dedup, hh_streams = sm, hh_clusterToTenant = [],
      hh_rate = \<lparr>inboundMsgs = 0, rateLastVal = 0, rateLastAt = zero_time\<rparr>, hh_lat = new_latencies\<rparr>"

definition on_handler :: "('d HeartbeatHandler \<Rightarrow> 'd HeartbeatHandler) \<Rightarrow> ('d, 't) gateway \<Rightarrow> ('d, 't) gateway" where
  "on_handler f g = g\<lparr>gw_handler := f (gw_handler g)\<rparr>"

definition count_message :: "'d HeartbeatHandler \<Rightarrow> 'd HeartbeatHandler" where
  "count_message h = h\<lparr>hh_rate := (hh_rate h)\<lparr>inboundMsgs := inboundMsgs (hh_rate h) + 1\<rparr>\<rparr>"

definition note_latency :: "int \<Rightarrow> 'd HeartbeatHandler \<Rightarrow> 'd HeartbeatHandler" where
  "note_latency d h = h\<lparr>hh_lat := recordLatency d (hh_lat h)\<rparr>"

text \<open>The lookup loop of \<open>resolveTenantID\<close>: at most three attempts, a wait before the second and third.\<close>

definition maxAttempts :: nat where "maxAttempts = 3"

function resolve_loop ::
    "(bytes16 \<Rightarrow> string) \<Rightarrow> (nat \<Rightarrow> error option) \<Rightarrow> string \<Rightarrow> bytes16 \<Rightarrow> nat \<Rightarrow> error \<Rightarrow>
     (string, string) gomap \<Rightarrow> pg \<Rightarrow> ((string, string) gomap \<times> pg) \<times> string result" where
  "resolve_loop ustr ctx clusterID u attempt lastErr cache db =
     (if attempt < maxAttempts then
        (case (if attempt > 0 then ctx attempt else None) of
           Some e \<Rightarrow> ((cache, db), Inl e)
         | None \<Rightarrow>
           (case q_GetCluster u db of
              (db1, Inr cluster) \<Rightarrow>
                (let tenantID = ustr (wc_TenantID cluster) in
                 ((AList.update clusterID tenantID cache, db1), Inr tenantID))
            | (db1, Inl e) \<Rightarrow>
                if errors_Is e ErrNoRows then ((cache, db1), Inl (Wrap (''GetCluster '' @ clusterID) e))
                else resolve_loop ustr ctx clusterID u (attempt + 1) e cache db1))
      else ((cache, db), Inl (Wrap (''GetCluster '' @ clusterID) lastErr)))"
  by pat_completeness auto
termination by (relation "measure (\<lambda>(_, _, _, _, attempt, _). maxAttempts - attempt)") auto

declare resolve_loop.simps [simp del]

definition resolveTenantID ::
    "'t externals \<Rightarrow> (nat \<Rightarrow> error option) \<Rightarrow> string \<Rightarrow> ('d, 't) gateway \<Rightarrow> ('d, 't) gateway \<times> string result" where
  "resolveTenantID ex ctx clusterID g =
     (case map_of (hh_clusterToTenant (gw_handler g)) clusterID of
        Some v \<Rightarrow> (g, Inr v)
      | None \<Rightarrow>
        (case ex_parse ex clusterID of
           Inl e \<Rightarrow> (g, Inl (Wrap ''cluster ID is not a valid UUID'' e))
         | Inr clusterUUID \<Rightarrow>
           (case resolve_loop (ex_ustr ex) ctx clusterID clusterUUID 0 (Msg ''%!w(<nil>)'')
                   (hh_clusterToTenant (gw_handler g)) (gw_db g) of
              ((cache, db), r) \<Rightarrow>
                (on_handler (\<lambda>h. h\<lparr>hh_clusterToTenant := cache\<rparr>) g\<lparr>gw_db := db\<rparr>, r))))"

definition heartbeat_signal :: "HeartbeatRequest \<Rightarrow> bytes16 \<Rightarrow> HeartbeatSignal" where
  "heartbeat_signal req clusterUUID =
     \<lparr>ClusterID = hr_ClusterId req, ClusterUUID = clusterUUID, SequenceNumber = hr_SequenceNumber req,
      CPUMillisecondsDelta = hr_CpuMillisecondsDelta req, MemoryMBSecondsDelta = hr_MemoryMbSecondsDelta req,
      ActiveNodes = hr_ActiveNodes req,
      HeartbeatTimestampNs = (case hr_Timestamp req of None \<Rightarrow> 0 | Some ts \<Rightarrow> ts)\<rparr>"

definition signalHeartbeat ::
    "'t externals \<Rightarrow> (nat \<Rightarrow> error option) \<Rightarrow> HeartbeatRequest \<Rightarrow> ('d, 't) gateway \<Rightarrow> ('d, 't) gateway \<times> unit result" where
  "signalHeartbeat ex ctx req g =
     (case uuidToBytes (ex_parse ex) (hr_ClusterId req) of
        Inl e \<Rightarrow> (g, Inl (Wrap ''parse cluster UUID'' e))
      | Inr clusterUUID \<Rightarrow>
        (case resolveTenantID ex ctx (hr_ClusterId req) g of
           (g1, Inl e) \<Rightarrow> (g1, Inl (Wrap (''resolve tenant for cluster '' @ hr_ClusterId req) e))
         | (g1, Inr tenantID) \<Rightarrow>
           (case tc_SignalHeartbeat (ex_temporal ex) (AccountingWorkflowID tenantID)
                   (heartbeat_signal req clusterUUID) (gw_temporal g1) of
              (t, r) \<Rightarrow> (g1\<lparr>gw_temporal := t\<rparr>, r))))"

definition queryWorkflowState ::
    "'t externals \<Rightarrow> (nat \<Rightarrow> error option) \<Rightarrow> string \<Rightarrow> ('d, 't) gateway \<Rightarrow>
     ('d, 't) gateway \<times> (uint64 \<times> QuotaInfo list) result" where
  "queryWorkflowState ex ctx clusterID g =
     (case resolveTenantID ex ctx clusterID g of
        (g1, Inl e) \<Rightarrow> (g1, Inl e)
      | (g1, Inr tenantID) \<Rightarrow>
        (case tc_QueryLastTBAck (ex_temporal ex) (AccountingWorkflowID tenantID) (gw_temporal g1) of
           Inl e \<Rightarrow> (g1, Inl e)
         | Inr ack \<Rightarrow>
           (let exceeded =
                  (case tc_QueryExceededResources (ex_temporal ex) (AccountingWorkflowID tenantID) (gw_temporal g1) of
                     Inl e \<Rightarrow> [] | Inr m \<Rightarrow> m)
            in case ex_parse ex tenantID of
                 Inl e \<Rightarrow> (g1, Inr (ack, []))
               | Inr tenantUUID \<Rightarrow>
                 (case q_GetQuotaSnapshots tenantUUID (gw_db g1) of
                    (db, Inl e) \<Rightarrow> (g1\<lparr>gw_db := db\<rparr>, Inr (ack, []))
                  | (db, Inr snapshots) \<Rightarrow>
                      (g1\<lparr>gw_db := db\<rparr>,
                       Inr (ack, map (snapshot_quota (\<lambda>r. map_of exceeded r = Some True)) snapshots))))))"

definition respond :: "uint64 \<Rightarrow> QuotaInfo list \<Rightarrow> HeartbeatResponse" where
  "respond ack quotas =
     \<lparr>hp_Status = overallStatus quotas, hp_Quotas = quotas, hp_AckSequence = ack,
      hp_PendingCommands = buildPendingCommands quotas\<rparr>"

text \<open>The unary call; \<open>now\<close> is the clock at the duplicate check and \<open>elapsed\<close> the time of the signal.\<close>

definition Heartbeat ::
    "(int \<Rightarrow> string \<Rightarrow> uint64 \<Rightarrow> 'd \<Rightarrow> 'd \<times> bool) \<Rightarrow> 't externals \<Rightarrow> (nat \<Rightarrow> error option) \<Rightarrow> int \<Rightarrow> int \<Rightarrow>
     HeartbeatRequest \<Rightarrow> ('d, 't) gateway \<Rightarrow> ('d, 't) gateway \<times> HeartbeatResponse result" where
  "Heartbeat check ex ctx now elapsed r g =
     (let clusterID = hr_ClusterId r; g = on_handler count_message g in
      case check now clusterID (hr_SequenceNumber r) (hh_dedup (gw_handler g)) of
        (d, dup) \<Rightarrow>
          (let g = on_handler (\<lambda>h. h\<lparr>hh_dedup := d\<rparr>) g;
               (g, err) = (if dup then (g, Inr ())
                           else (case signalHeartbeat ex ctx r g of
                                   (g1, err) \<Rightarrow> (on_handler (note_latency elapsed) g1, err)))
           in case err of
                Inl e \<Rightarrow> (g, Inl (Wrap ''internal'' e))
              | Inr _ \<Rightarrow>
                (case queryWorkflowState ex ctx clusterID g of
                   (g2, Inl e) \<Rightarrow> (g2, Inr (respond 0 []))
                 | (g2, Inr (ack, quotas)) \<Rightarrow> (g2, Inr (respond ack quotas)))))"

section \<open>Responses\<close>

lemma worst_status:
  "fold (\<lambda>q worst. if qi_Status q > worst then qi_Status q else worst) quotas w = Max (insert w (qi_Status ` set quotas))"
proof (induction quotas arbitrary: w)
  case (Cons q quotas)
  have "Max (insert w (insert (qi_Status q) A)) = Max (insert (max w (qi_Status q)) A)" if "finite A" for A
    using that by (cases "A = {}") (simp_all add: max.assoc [symmetric])
  then show ?case using Cons by (auto simp: max_def not_less)
qed simp

lemma quota_status_not_degraded: "quota_status e a u c \<in> {STATUS_OK, STATUS_QUOTA_WARNING, STATUS_QUOTA_EXCEEDED}"
  by (simp add: quota_status_def)

definition regular :: "Status \<Rightarrow> bool" where
  "regular s \<longleftrightarrow> s \<in> {STATUS_OK, STATUS_QUOTA_WARNING, STATUS_QUOTA_EXCEEDED}"

lemma overallStatus_max:
  assumes "\<forall>q \<in> set quotas. regular (qi_Status q)"
  shows "overallStatus quotas = Max (insert STATUS_OK (qi_Status ` set quotas))"
proof -
  let ?S = "qi_Status ` set quotas"
  have ok: "STATUS_UNSPECIFIED < STATUS_OK" "\<And>s. STATUS_UNSPECIFIED \<le> s" "\<And>s. s \<in> ?S \<Longrightarrow> STATUS_OK \<le> s"
    using assms by (auto simp: less_Status_def less_eq_Status_def regular_def)
  show ?thesis
  proof (cases "quotas = []")
    case False
    then have "Max (insert STATUS_UNSPECIFIED ?S) = Max ?S" "Max (insert STATUS_OK ?S) = Max ?S" "STATUS_OK \<le> Max ?S"
      using ok(2,3) by (auto simp: max_def)
    then show ?thesis
      using False ok(1) unfolding overallStatus_def Let_def worst_status by auto
  qed (simp add: overallStatus_def worst_status)
qed

lemma query_quotas:
  assumes "queryWorkflowState ex ctx clusterID g = (g', Inr (ack, quotas))"
  shows "\<forall>q \<in> set quotas. \<exists>exceeded s. q = snapshot_quota exceeded s"
  using assms by (auto simp: queryWorkflowState_def Let_def split: prod.splits sum.splits) blast+


section \<open>Resolving a cluster\<close>

text \<open>What the database says a cluster's tenant is, as the handler prints it.\<close>

definition recorded_tenant :: "'t externals \<Rightarrow> pg \<Rightarrow> string \<Rightarrow> string \<Rightarrow> bool" where
  "recorded_tenant ex db clusterID tenantID \<longleftrightarrow>
     (\<exists>u row. ex_parse ex clusterID = Inr u \<and> row \<in> set (workload_clusters db) \<and> wc_ID row = u \<and>
        tenantID = ex_ustr ex (wc_TenantID row))"

definition cache_ok :: "'t externals \<Rightarrow> ('d, 't) gateway \<Rightarrow> bool" where
  "cache_ok ex g \<longleftrightarrow> (\<forall>c t. map_of (hh_clusterToTenant (gw_handler g)) c = Some t \<longrightarrow> recorded_tenant ex (gw_db g) c t)"

lemma GetCluster_spec:
  assumes "q_GetCluster u db = (db', r)"
  shows "\<exists>os. db' = db\<lparr>pg_script := os\<rparr> \<and> length (pg_script db) \<le> length os + 1"
    and "r = Inr row \<Longrightarrow> row \<in> set (workload_clusters db) \<and> wc_ID row = u"
proof -
  show "\<exists>os. db' = db\<lparr>pg_script := os\<rparr> \<and> length (pg_script db) \<le> length os + 1"
  proof (cases "pg_script db")
    case Nil
    then have "db\<lparr>pg_script := []\<rparr> = db" by simp
    then show ?thesis using assms Nil by (intro exI [of _ "[]"]) (simp add: q_GetCluster_def)
  next
    case (Cons o' os)
    then show ?thesis
      using assms by (cases o') (auto simp: q_GetCluster_def query_def statement_def)
  qed
  show "row \<in> set (workload_clusters db) \<and> wc_ID row = u" if "r = Inr row"
    using assms that unfolding q_GetCluster_def
    by (auto elim!: query_Inr simp: find_Some_iff split: option.splits)
qed

lemma resolve_loop_spec:
  "resolve_loop ustr ctx c u k e cache db = ((cache', db'), r) \<Longrightarrow>
   \<exists>os. db' = db\<lparr>pg_script := os\<rparr> \<and> length (pg_script db) \<le> length os + (maxAttempts - k) \<and>
     (case r of
        Inl _ \<Rightarrow> cache' = cache
      | Inr t \<Rightarrow> cache' = AList.update c t cache \<and>
          (\<exists>row \<in> set (workload_clusters db). wc_ID row = u \<and> t = ustr (wc_TenantID row)))"
proof (induction ustr ctx c u k e cache db rule: resolve_loop.induct)
  case (1 ustr ctx c u k e cache db)
  have same: "db\<lparr>pg_script := pg_script db\<rparr> = db" by simp
  consider (stop) e' where "cache' = cache" "db' = db" "r = Inl e'"
    | (found) row where "q_GetCluster u db = (db', Inr row)" "r = Inr (ustr (wc_TenantID row))"
        "cache' = AList.update c (ustr (wc_TenantID row)) cache" "k < maxAttempts"
    | (absent) e1 e' where "q_GetCluster u db = (db', Inl e1)" "cache' = cache" "r = Inl e'" "k < maxAttempts"
    | (again) db1 e1 where "q_GetCluster u db = (db1, Inl e1)" "k < maxAttempts" "\<not> errors_Is e1 ErrNoRows"
        "(if k > 0 then ctx k else None) = None"
        "resolve_loop ustr ctx c u (k + 1) e1 cache db1 = ((cache', db'), r)"
    using "1.prems" by (subst (asm) resolve_loop.simps) (auto simp: Let_def split: if_splits option.splits prod.splits sum.splits)
  then show ?case
  proof cases
    case stop
    then show ?thesis using same by (intro exI [of _ "pg_script db"]) simp
  next
    case found
    then show ?thesis using GetCluster_spec(1) [OF found(1)] GetCluster_spec(2) [OF found(1) refl] by fastforce
  next
    case absent
    then show ?thesis using GetCluster_spec(1) [OF absent(1)] by fastforce
  next
    case again
    obtain os where os: "db1 = db\<lparr>pg_script := os\<rparr>" "length (pg_script db) \<le> length os + 1"
      using GetCluster_spec(1) [OF again(1)] by blast
    from "1.IH" [OF again(2,4) again(1) [symmetric] refl again(3) again(5)] obtain os' where
      "db' = db1\<lparr>pg_script := os'\<rparr>" "length (pg_script db1) \<le> length os' + (maxAttempts - (k + 1))"
      "case r of Inl _ \<Rightarrow> cache' = cache | Inr t \<Rightarrow> cache' = AList.update c t cache \<and>
         (\<exists>row \<in> set (workload_clusters db1). wc_ID row = u \<and> t = ustr (wc_TenantID row))"
      by blast
    then show ?thesis
      using os again(2) by (intro exI [of _ os']) (auto split: sum.splits)
  qed
qed

text \<open>Everything a resolution changes: the connection moves on, and the cache may learn one cluster.\<close>

lemma resolve_spec:
  assumes "resolveTenantID ex ctx c g = (g', r)" and "cache_ok ex g"
  obtains os where "gw_db g' = (gw_db g)\<lparr>pg_script := os\<rparr>" "length (pg_script (gw_db g)) \<le> length os + 3"
    "cache_ok ex g'" "gw_temporal g' = gw_temporal g" "\<And>t. r = Inr t \<Longrightarrow> recorded_tenant ex (gw_db g) c t"
    "hh_dedup (gw_handler g') = hh_dedup (gw_handler g)"
proof (cases "map_of (hh_clusterToTenant (gw_handler g)) c")
  case (Some t)
  then show ?thesis
    using assms that [of "pg_script (gw_db g)"] by (auto simp: resolveTenantID_def cache_ok_def)
next
  case None
  show ?thesis
  proof (cases "ex_parse ex c")
    case (Inl e)
    then show ?thesis using assms None that [of "pg_script (gw_db g)"] by (auto simp: resolveTenantID_def)
  next
    case (Inr u)
    obtain cache db where loop: "resolve_loop (ex_ustr ex) ctx c u 0 (Msg ''%!w(<nil>)'')
        (hh_clusterToTenant (gw_handler g)) (gw_db g) = ((cache, db), r)"
      and g': "g' = on_handler (\<lambda>h. h\<lparr>hh_clusterToTenant := cache\<rparr>) g\<lparr>gw_db := db\<rparr>"
      using assms(1) None Inr by (auto simp: resolveTenantID_def split: prod.splits)
    obtain os where os: "db = (gw_db g)\<lparr>pg_script := os\<rparr>" "length (pg_script (gw_db g)) \<le> length os + 3"
      and res: "case r of Inl _ \<Rightarrow> cache = hh_clusterToTenant (gw_handler g)
        | Inr t \<Rightarrow> cache = AList.update c t (hh_clusterToTenant (gw_handler g)) \<and> recorded_tenant ex (gw_db g) c t"
      using resolve_loop_spec [OF loop] Inr by (auto simp: recorded_tenant_def maxAttempts_def split: sum.splits)
    have "recorded_tenant ex db = recorded_tenant ex (gw_db g)"
      by (simp add: recorded_tenant_def os fun_eq_iff)
    then have "cache_ok ex g'"
      using assms(2) res by (auto simp: cache_ok_def g' on_handler_def split: sum.splits if_splits)
    then show ?thesis using that [of os] os res by (auto simp: g' on_handler_def split: sum.splits)
  qed
qed

text \<open>A cluster keeps its tenant, whatever the activities do to the database.\<close>

lemma recorded_script [simp]: "recorded_tenant ex (db\<lparr>pg_script := os\<rparr>) = recorded_tenant ex db"
  by (simp add: recorded_tenant_def fun_eq_iff)

lemma recorded_statement:
  "(\<And>db. recorded_tenant ex db c t \<Longrightarrow> recorded_tenant ex (fst (body db)) c t) \<Longrightarrow> recorded_tenant ex db c t \<Longrightarrow>
   recorded_tenant ex (fst (statement body db)) c t"
  by (rule statement_invariant [where P = "\<lambda>db. recorded_tenant ex db c t"]) simp_all

lemma recorded_rows:
  "recorded_tenant ex db c t \<longleftrightarrow>
     (\<exists>u x. ex_parse ex c = Inr u \<and> (u, x) \<in> (\<lambda>r. (wc_ID r, wc_TenantID r)) ` set (workload_clusters db) \<and> t = ex_ustr ex x)"
  by (force simp: recorded_tenant_def)

lemma recorded_same:
  "(\<lambda>r. (wc_ID r, wc_TenantID r)) ` set (workload_clusters db) \<subseteq>
     (\<lambda>r. (wc_ID r, wc_TenantID r)) ` set (workload_clusters db') \<Longrightarrow>
   recorded_tenant ex db c t \<Longrightarrow> recorded_tenant ex db' c t"
  unfolding recorded_rows by blast

lemma recorded_updated:
  "(\<And>r. p r \<Longrightarrow> wc_ID (f r) = wc_ID r \<and> wc_TenantID (f r) = wc_TenantID r) \<Longrightarrow>
   recorded_tenant ex (db\<lparr>workload_clusters := update_where p f (workload_clusters db)\<rparr>) c t = recorded_tenant ex db c t"
  using update_where_keys [of p "\<lambda>r. (wc_ID r, wc_TenantID r)" f "workload_clusters db"]
  unfolding recorded_rows by (simp flip: set_map)

interpretation recorded: pg_invariant "\<lambda>db. recorded_tenant ex db c t" for ex c t
proof
  fix db i st
  assume rec: "recorded_tenant ex db c t"
  show "recorded_tenant ex (fst (q_UpdateClusterStatus i st db)) c t"
    unfolding q_UpdateClusterStatus_def using _ rec
    by (rule recorded_statement) (simp add: recorded_updated)
  show "recorded_tenant ex (fst (q_DeregisterCluster i db)) c t"
    unfolding q_DeregisterCluster_def using _ rec
    by (rule recorded_statement) (simp add: recorded_updated)
qed (simp,
  unfold q_InsertTenant_def q_InsertCluster_def q_InsertTBAccountMapping_def q_UpsertQuotaSnapshot_def
    q_InsertCreditAdjustment_def q_MarkSoftLimitAlertSent_def q_ResetSoftLimitAlert_def q_DeleteTenant_def,
  (erule recorded_statement [rotated], erule recorded_same [rotated],
   force simp: Let_def upsert_snapshot_def set_alert_def split: option.split)+)

text \<open>
  C31. Resolving a cluster terminates after at most three database lookups, however the database and
  the request context behave, and is right: a returned tenant is the one the cluster's row names,
  also when it comes from the cache and any activities ran on the database since it was cached; and
  the cache stays right.
\<close>

theorem resolve_bounded_and_right:
  assumes "cache_ok ex g" and "db = fold (run_pg_attempt (ex_parse ex)) attempts (gw_db g)"
    and "resolveTenantID ex ctx c (g\<lparr>gw_db := db\<rparr>) = (g', r)"
  shows "length (pg_script db) \<le> length (pg_script (gw_db g')) + 3 \<and> cache_ok ex g' \<and>
    (\<forall>t. r = Inr t \<longrightarrow> recorded_tenant ex (gw_db g') c t)"
proof -
  have "cache_ok ex (g\<lparr>gw_db := db\<rparr>)"
    using assms(1) unfolding cache_ok_def by (simp add: assms(2) recorded.attempts_keep)
  with assms(3) show ?thesis by (rule resolve_spec) auto
qed

section \<open>What a heartbeat call does\<close>

lemma resolve_frame:
  "resolveTenantID ex ctx c g = (g', r) \<Longrightarrow>
   gw_temporal g' = gw_temporal g \<and> hh_dedup (gw_handler g') = hh_dedup (gw_handler g)"
  by (auto simp: resolveTenantID_def on_handler_def split: option.splits sum.splits prod.splits)

lemma query_frame:
  "queryWorkflowState ex ctx c g = (g', r) \<Longrightarrow>
   gw_temporal g' = gw_temporal g \<and> hh_dedup (gw_handler g') = hh_dedup (gw_handler g)"
  by (auto simp: queryWorkflowState_def Let_def dest: resolve_frame split: sum.splits prod.splits)

lemma signal_dedup:
  "signalHeartbeat ex ctx req g = (g', r) \<Longrightarrow> hh_dedup (gw_handler g') = hh_dedup (gw_handler g)"
  by (auto simp: signalHeartbeat_def dest: resolve_frame split: sum.splits prod.splits)

lemma signal_spec:
  assumes "signalHeartbeat ex ctx req g = (g', r)" and "cache_ok ex g"
  shows "isl r \<and> gw_temporal g' = gw_temporal g \<or>
    (\<exists>t u. recorded_tenant ex (gw_db g) (hr_ClusterId req) t \<and> uuidToBytes (ex_parse ex) (hr_ClusterId req) = Inr u \<and>
       tc_SignalHeartbeat (ex_temporal ex) (AccountingWorkflowID t) (heartbeat_signal req u) (gw_temporal g) =
         (gw_temporal g', r))"
proof -
  obtain u where u: "uuidToBytes (ex_parse ex) (hr_ClusterId req) = Inr u"
    by (cases "ex_parse ex (hr_ClusterId req)") (auto simp: uuidToBytes_def)
  obtain g1 rt where res: "resolveTenantID ex ctx (hr_ClusterId req) g = (g1, rt)" by fastforce
  from res assms(2) have "gw_temporal g1 = gw_temporal g"
    "\<And>t. rt = Inr t \<Longrightarrow> recorded_tenant ex (gw_db g) (hr_ClusterId req) t"
    by (rule resolve_spec, blast)+
  then show ?thesis using assms(1) u res by (auto simp: signalHeartbeat_def split: sum.splits prod.splits)
qed

text \<open>The steps of the unary call before the answer is put together.\<close>

definition checked :: "'d \<Rightarrow> ('d, 't) gateway \<Rightarrow> ('d, 't) gateway" where
  "checked d g = on_handler (\<lambda>h. h\<lparr>hh_dedup := d\<rparr>) (on_handler count_message g)"

lemma checked_fields [simp]:
  "gw_temporal (checked d g) = gw_temporal g" "gw_db (checked d g) = gw_db g"
  "hh_dedup (gw_handler (checked d g)) = d" "cache_ok ex (checked d g) = cache_ok ex g"
  by (simp_all add: checked_def on_handler_def count_message_def cache_ok_def)

definition answer :: "'t externals \<Rightarrow> (nat \<Rightarrow> error option) \<Rightarrow> string \<Rightarrow> ('d, 't) gateway \<Rightarrow>
    ('d, 't) gateway \<times> HeartbeatResponse result" where
  "answer ex ctx c g =
     (case queryWorkflowState ex ctx c g of
        (g2, Inl e) \<Rightarrow> (g2, Inr (respond 0 []))
      | (g2, Inr (ack, quotas)) \<Rightarrow> (g2, Inr (respond ack quotas)))"

lemma Heartbeat_steps:
  assumes "check now (hr_ClusterId r) (hr_SequenceNumber r) (hh_dedup (gw_handler g)) = (d, dup)"
  shows "Heartbeat check ex ctx now elapsed r g =
    (if dup then answer ex ctx (hr_ClusterId r) (checked d g)
     else (case signalHeartbeat ex ctx r (checked d g) of
             (g1, Inl e) \<Rightarrow> (on_handler (note_latency elapsed) g1, Inl (Wrap ''internal'' e))
           | (g1, Inr _) \<Rightarrow> answer ex ctx (hr_ClusterId r) (on_handler (note_latency elapsed) g1)))"
proof -
  have "hh_dedup (gw_handler (on_handler count_message g)) = hh_dedup (gw_handler g)"
    by (simp add: on_handler_def count_message_def)
  then show ?thesis
    using assms by (simp add: Heartbeat_def checked_def answer_def Let_def split: prod.split sum.split)
qed

lemma answer_frame:
  assumes "answer ex ctx c g = (g', res)"
  shows "\<not> isl res \<and> gw_temporal g' = gw_temporal g \<and> hh_dedup (gw_handler g') = hh_dedup (gw_handler g)"
  using assms by (auto simp: answer_def dest: query_frame split: prod.splits sum.splits)

lemma note_fields [simp]:
  "gw_temporal (on_handler (note_latency d) g) = gw_temporal g"
  "hh_dedup (gw_handler (on_handler (note_latency d) g)) = hh_dedup (gw_handler g)"
  by (simp_all add: on_handler_def note_latency_def)

text \<open>
  C10. A unary heartbeat is signalled exactly once or the caller learns of it.  A heartbeat taken for
  a duplicate is answered without a signal.  Any other is answered successfully exactly when one
  signal, carrying its figures, was accepted by the accounting workflow of the tenant that the
  cluster's row names; otherwise the call returns an error, and no signal or only a refused one was
  sent.
\<close>

theorem heartbeat_signalled:
  assumes "cache_ok ex g" and "Heartbeat check ex ctx now elapsed r g = (g', res)"
    and "check now (hr_ClusterId r) (hr_SequenceNumber r) (hh_dedup (gw_handler g)) = (d, dup)"
  shows "if dup then \<not> isl res \<and> gw_temporal g' = gw_temporal g
    else isl res \<and> gw_temporal g' = gw_temporal g \<or>
      (\<exists>t u a. recorded_tenant ex (gw_db g) (hr_ClusterId r) t \<and> uuidToBytes (ex_parse ex) (hr_ClusterId r) = Inr u \<and>
         tc_SignalHeartbeat (ex_temporal ex) (AccountingWorkflowID t) (heartbeat_signal r u) (gw_temporal g) =
           (gw_temporal g', a) \<and> isl a = isl res)"
proof (cases dup)
  case True
  then show ?thesis using assms(2,3) answer_frame by (fastforce simp: Heartbeat_steps)
next
  case False
  obtain g1 a where sig: "signalHeartbeat ex ctx r (checked d g) = (g1, a)" by fastforce
  have "gw_temporal g' = gw_temporal g1 \<and> isl a = isl res"
    using assms(2,3) False sig answer_frame [of ex ctx "hr_ClusterId r" "on_handler (note_latency elapsed) g1" g' res]
    by (auto simp: Heartbeat_steps split: sum.splits)
  then show ?thesis
    using signal_spec [OF sig] assms(1) False by simp blast
qed

text \<open>
  C34. A heartbeat whose signal failed is never delivered by retrying it.  When the unary call returned
  an error because the signal failed, the in-memory deduplicator already holds its sequence number:
  for as long as the entry is not pruned, whatever other traffic passes, sending the same heartbeat
  (or an earlier one of the cluster) again is answered with success and signals nothing.
\<close>

theorem failed_heartbeat_swallowed:
  assumes "Heartbeat mem_IsDuplicate ex ctx now elapsed r g = (g1, Inl e)"
    and "distinct (map fst (md_entries (hh_dedup (gw_handler g))))"
    and "list_all (timely now (md_ttl (hh_dedup (gw_handler g)))) evs"
    and "dedup_run mem_IsDuplicate mem_prune evs (hh_dedup (gw_handler g1)) = (hh_dedup (gw_handler g2), trail)"
    and "hr_ClusterId r' = hr_ClusterId r" and "hr_SequenceNumber r' \<le> hr_SequenceNumber r"
  shows "\<exists>g3 resp. Heartbeat mem_IsDuplicate ex ctx' now' elapsed' r' g2 = (g3, Inr resp) \<and>
    gw_temporal g3 = gw_temporal g2"
proof -
  let ?d = "hh_dedup (gw_handler g)"
  obtain d dup where chk: "mem_IsDuplicate now (hr_ClusterId r) (hr_SequenceNumber r) ?d = (d, dup)" by fastforce
  obtain g0 a where sig: "signalHeartbeat ex ctx r (checked d g) = (g0, a)" by fastforce
  have "\<not> dup" and "hh_dedup (gw_handler g1) = d"
    using assms(1) sig answer_frame signal_dedup [OF sig]
    by (auto simp: Heartbeat_steps [where check = mem_IsDuplicate, OF chk] split: if_splits sum.splits) fastforce+
  then have "mem_IsDuplicate now' (hr_ClusterId r') (hr_SequenceNumber r') (hh_dedup (gw_handler g2)) =
      (hh_dedup (gw_handler g2), True)"
    using mem_dedup_window [OF _ assms(2,3) _ assms(6)] chk assms(4,5) by simp
  note steps = Heartbeat_steps [where check = mem_IsDuplicate and g = g2, OF this]
  obtain g3 res where ans: "answer ex ctx' (hr_ClusterId r') (checked (hh_dedup (gw_handler g2)) g2) = (g3, res)" by fastforce
  then show ?thesis
    using steps [of ex ctx' elapsed'] answer_frame [OF ans] by (cases res) auto
qed

section \<open>A concrete gateway\<close>

text \<open>One cluster \<open>c\<close> of tenant \<open>t\<close>; Temporal records the signals it accepts, or refuses them all.\<close>

definition demo_temporal :: "bool \<Rightarrow> (string \<times> HeartbeatSignal) list temporal" where
  "demo_temporal up =
     \<lparr>tc_SignalHeartbeat = \<lambda>i sig t. if up then (t @ [(i, sig)], Inr ()) else (t, Inl (Msg ''unavailable'')),
      tc_QueryLastTBAck = \<lambda>i t. Inr 3, tc_QueryExceededResources = \<lambda>i t. Inr []\<rparr>"

definition demo_externals :: "bool \<Rightarrow> (string \<times> HeartbeatSignal) list externals" where
  "demo_externals up =
     \<lparr>ex_parse = \<lambda>s. if s = ''t'' then Inr 7 else if s = ''c'' then Inr 3 else Inl (Msg ''invalid UUID length''),
      ex_ustr = \<lambda>u. if u = 7 then ''t'' else ''c'', ex_temporal = demo_temporal up\<rparr>"

definition demo_cluster :: WorkloadCluster where
  "demo_cluster = \<lparr>wc_ID = 3, wc_TenantID = 7, wc_CloudProvider = ''aws'', wc_Region = ''eu'', wc_LastHeartbeat = None,
     wc_Status = ''healthy'', wc_AgentVersion = None, wc_DeregisteredAt = None, wc_CreatedAt = 0\<rparr>"

definition demo_quota :: QuotaSnapshot where
  "demo_quota = \<lparr>sn_TenantID = 7, sn_ResourceType = ''cpu_hours'', sn_CreditsTotal = 100, sn_DebitsPosted = 90,
     sn_DebitsPending = 0, sn_Available = Some 10, sn_SnapshotAt = 0\<rparr>"

definition demo_gateway :: "(MemDedup, (string \<times> HeartbeatSignal) list) gateway" where
  "demo_gateway =
     \<lparr>gw_handler = NewHeartbeatHandler (NewMemDedup 10) NewStreamManager,
      gw_db = (demo_pg [])\<lparr>workload_clusters := [demo_cluster], quota_snapshots := [demo_quota]\<rparr>, gw_temporal = []\<rparr>"

definition demo_request :: HeartbeatRequest where
  "demo_request = \<lparr>hr_ClusterId = ''c'', hr_Timestamp = None, hr_ActiveNodes = 2, hr_CpuMillisecondsDelta = 5,
     hr_MemoryMbSecondsDelta = 6, hr_SequenceNumber = 4, hr_LastAckSequence = 3\<rparr>"

lemma demo_cache: "cache_ok ex demo_gateway"
  by (simp add: cache_ok_def demo_gateway_def NewHeartbeatHandler_def)

lemmas demo_gateway_defs =
  demo_externals_def demo_temporal_def demo_cluster_def demo_quota_def demo_gateway_def demo_request_def demo_pg_def
  NewHeartbeatHandler_def NewMemDedup_def

lemma demo_externals_fields:
  "ex_parse (demo_externals up) ''c'' = Inr 3" "ex_parse (demo_externals up) ''t'' = Inr 7"
  "ex_ustr (demo_externals up) 7 = ''t''" "ex_temporal (demo_externals up) = demo_temporal up"
  by (simp_all add: demo_externals_def)

lemma demo_lookup:
  "resolve_loop ustr ctx ''c'' 3 0 e [] (gw_db demo_gateway) = (([(''c'', ustr 7)], gw_db demo_gateway), Inr (ustr 7))"
  by (subst resolve_loop.simps) (simp add: q_GetCluster_def maxAttempts_def demo_gateway_defs Let_def)

lemma demo_resolve:
  assumes "hh_clusterToTenant (gw_handler g) = []" and "gw_db g = gw_db demo_gateway"
  shows "resolveTenantID (demo_externals up) ctx ''c'' g =
     (on_handler (\<lambda>h. h\<lparr>hh_clusterToTenant := [(''c'', ''t'')]\<rparr>) g, Inr ''t'')"
proof -
  have "on_handler f g\<lparr>gw_db := gw_db demo_gateway\<rparr> = on_handler f g" for f
    using assms(2) [symmetric] by (simp add: on_handler_def)
  then show ?thesis
    using assms by (simp add: resolveTenantID_def demo_externals_fields demo_lookup)
qed

lemma demo_gateway_fresh: "hh_clusterToTenant (gw_handler demo_gateway) = []"
  by (simp add: demo_gateway_defs)

lemma demo_signal:
  "\<exists>g'. signalHeartbeat (demo_externals up) ctx demo_request (checked d demo_gateway) = (g', if up then Inr () else Inl (Msg ''unavailable''))"
proof -
  have "hh_clusterToTenant (gw_handler (checked d demo_gateway)) = []"
    by (simp add: checked_def on_handler_def count_message_def demo_gateway_fresh)
  note res = demo_resolve [OF this checked_fields(2), of up ctx]
  show ?thesis
    by (simp add: signalHeartbeat_def uuidToBytes_def demo_request_def demo_externals_fields res)
      (simp add: demo_temporal_def)
qed

lemma demo_check:
  "mem_IsDuplicate now (hr_ClusterId demo_request) (hr_SequenceNumber demo_request) (hh_dedup (gw_handler demo_gateway)) =
     (\<lparr>md_entries = [(''c'', \<lparr>de_seq = 4, de_seenAt = now\<rparr>)], md_ttl = 10\<rparr>, False)"
  by (simp add: mem_IsDuplicate_def demo_gateway_defs)

theorem resolve_bounded_and_right_witness:
  "recorded_tenant (demo_externals True)
     (gw_db (fst (resolveTenantID (demo_externals True) (\<lambda>_. None) ''c'' demo_gateway))) ''c'' ''t''"
proof -
  let ?ex = "demo_externals True"
  obtain g' where g': "resolveTenantID ?ex (\<lambda>_. None) ''c'' (demo_gateway\<lparr>gw_db := gw_db demo_gateway\<rparr>) = (g', Inr ''t'')"
    using demo_resolve [OF demo_gateway_fresh refl] by simp
  then have "recorded_tenant ?ex (gw_db g') ''c'' ''t''"
    using resolve_bounded_and_right [OF demo_cache _ g', of "[]"] by simp
  with g' show ?thesis by simp
qed


theorem heartbeat_signalled_witness:
  "\<exists>g' resp u. Heartbeat mem_IsDuplicate (demo_externals True) (\<lambda>_. None) 0 9 demo_request demo_gateway = (g', Inr resp) \<and>
     gw_temporal g' = [(''tenant-accounting-t'', heartbeat_signal demo_request u)]"
proof -
  let ?ex = "demo_externals True"
  obtain g' res where run: "Heartbeat mem_IsDuplicate ?ex (\<lambda>_. None) 0 9 demo_request demo_gateway = (g', res)" by fastforce
  obtain g0 where sig: "signalHeartbeat ?ex (\<lambda>_. None) demo_request (checked \<lparr>md_entries = [(''c'', \<lparr>de_seq = 4, de_seenAt = 0\<rparr>)],
      md_ttl = 10\<rparr> demo_gateway) = (g0, Inr ())"
    using demo_signal [of True "\<lambda>_. None"] by auto
  have ok: "\<not> isl res"
    using run sig answer_frame by (fastforce simp: Heartbeat_steps [where check = mem_IsDuplicate, OF demo_check])
  have only: "t = ''t''" if "recorded_tenant ?ex (gw_db demo_gateway) (hr_ClusterId demo_request) t" for t
    using that by (simp add: recorded_tenant_def demo_gateway_defs)
  obtain t u a where "recorded_tenant ?ex (gw_db demo_gateway) (hr_ClusterId demo_request) t"
    and "tc_SignalHeartbeat (ex_temporal ?ex) (AccountingWorkflowID t) (heartbeat_signal demo_request u)
      (gw_temporal demo_gateway) = (gw_temporal g', a)"
    using heartbeat_signalled [OF demo_cache run demo_check] ok by auto
  then have "gw_temporal g' = [(''tenant-accounting-t'', heartbeat_signal demo_request u)]"
    using only by (simp add: demo_externals_fields demo_temporal_def AccountingWorkflowID_def) (simp add: demo_gateway_def)
  then show ?thesis using ok run by (cases res) auto
qed

theorem failed_heartbeat_swallowed_witness:
  "\<exists>g1 e g3 resp. Heartbeat mem_IsDuplicate (demo_externals False) (\<lambda>_. None) 0 9 demo_request demo_gateway = (g1, Inl e) \<and>
     Heartbeat mem_IsDuplicate (demo_externals False) (\<lambda>_. None) 5 9 demo_request g1 = (g3, Inr resp)"
proof -
  let ?ex = "demo_externals False"
  obtain g0 where "signalHeartbeat ?ex (\<lambda>_. None) demo_request (checked \<lparr>md_entries = [(''c'', \<lparr>de_seq = 4, de_seenAt = 0\<rparr>)],
      md_ttl = 10\<rparr> demo_gateway) = (g0, Inl (Msg ''unavailable''))"
    using demo_signal [of False "\<lambda>_. None"] by auto
  then obtain g1 e where run: "Heartbeat mem_IsDuplicate ?ex (\<lambda>_. None) 0 9 demo_request demo_gateway = (g1, Inl e)"
    by (simp add: Heartbeat_steps [where check = mem_IsDuplicate, OF demo_check])
  have "distinct (map fst (md_entries (hh_dedup (gw_handler demo_gateway))))" by (simp add: demo_gateway_defs)
  from failed_heartbeat_swallowed [OF run this, of "[]" g1 "[]" demo_request "\<lambda>_. None" 5 9] run
  show ?thesis by auto
qed

end
