(* ===== verification/Stream_Session.thy ===== *)
theory Stream_Session
  imports Heartbeat_Gateway "HOL-Library.Sublist"
begin

text \<open>
  \<open>HeartbeatStream\<close> of \<open>internal/gateway/heartbeat_handler.go\<close>: one bidirectional stream.  Its receive
  goroutine, its signal dispatcher and its send loop share the channel \<open>sigCh\<close> and the cluster
  identifier; they are steps taken in any order, with the calls of other streams and the rest of the
  gateway in between.  The fields \<open>ss_passed\<close>, \<open>ss_settled\<close>, \<open>ss_dropped\<close> and \<open>ss_abandoned\<close> only record history.
\<close>

section \<open>State\<close>

record stream =
  ss_clusterID :: string
  ss_offer :: "HeartbeatRequest option"
  ss_sigCh :: "HeartbeatRequest list"
  ss_dispatching :: bool
  ss_sent :: "HeartbeatResponse list"
  ss_passed :: "HeartbeatRequest list"
  ss_settled :: "(HeartbeatRequest \<times> unit result) list"
  ss_dropped :: "HeartbeatRequest list"
  ss_abandoned :: "HeartbeatRequest list"

definition new_stream :: stream where
  "new_stream = \<lparr>ss_clusterID = [], ss_offer = None, ss_sigCh = [], ss_dispatching = True, ss_sent = [],
     ss_passed = [], ss_settled = [], ss_dropped = [], ss_abandoned = []\<rparr>"

definition sigChSize :: nat where "sigChSize = 256"

text \<open>The waits between attempts, in nanoseconds.\<close>

definition backoffs :: "int list" where
  "backoffs = [100 * 1000000, 500 * 1000000, 2 * Second]"

section \<open>The receive goroutine\<close>

text \<open>One message off the wire: the first one names the cluster, duplicates go no further.\<close>

definition receive_message ::
    "(int \<Rightarrow> string \<Rightarrow> uint64 \<Rightarrow> 'd \<Rightarrow> 'd \<times> bool) \<Rightarrow> int \<Rightarrow> HeartbeatRequest \<Rightarrow>
     ('d, 't) gateway \<Rightarrow> stream \<Rightarrow> ('d, 't) gateway \<times> stream" where
  "receive_message check now req g s =
     (let first = (ss_clusterID s = []);
          clusterID = (if first then hr_ClusterId req else ss_clusterID s);
          g = (if first
               then on_handler (\<lambda>h. h\<lparr>hh_streams := fst (sm_Register now now clusterID (hh_streams h))\<rparr>) g else g);
          g = on_handler count_message g;
          g = on_handler (\<lambda>h. h\<lparr>hh_streams := sm_Touch now clusterID (hh_streams h)\<rparr>) g;
          s = s\<lparr>ss_clusterID := clusterID\<rparr>
      in case check now clusterID (hr_SequenceNumber req) (hh_dedup (gw_handler g)) of
           (d, dup) \<Rightarrow>
             (let g = on_handler (\<lambda>h. h\<lparr>hh_dedup := d\<rparr>) g in
              if dup then (g, s)
              else (g, s\<lparr>ss_offer := Some req, ss_passed := ss_passed s @ [req]\<rparr>)))"

text \<open>The select: a place in the channel, or the timeout.\<close>

definition enqueue :: "HeartbeatRequest \<Rightarrow> stream \<Rightarrow> stream" where
  "enqueue req s = s\<lparr>ss_sigCh := ss_sigCh s @ [req], ss_offer := None\<rparr>"

definition drop_message :: "HeartbeatRequest \<Rightarrow> stream \<Rightarrow> stream" where
  "drop_message req s = s\<lparr>ss_offer := None, ss_dropped := ss_dropped s @ [req]\<rparr>"

section \<open>The dispatcher\<close>

text \<open>
  Attempts with backoff: \<open>Some\<close> the last result, or \<open>None\<close> when the context ended during a wait.
\<close>

fun signal_attempts ::
    "'t externals \<Rightarrow> (nat \<Rightarrow> nat \<Rightarrow> error option) \<Rightarrow> (nat \<Rightarrow> bool) \<Rightarrow> HeartbeatRequest \<Rightarrow> int list \<Rightarrow> nat \<Rightarrow>
     ('d, 't) gateway \<Rightarrow> ('d, 't) gateway \<times> unit result option" where
  "signal_attempts ex ctx ends req [] attempt g =
     (case signalHeartbeat ex (ctx attempt) req g of (g1, r) \<Rightarrow> (g1, Some r))"
| "signal_attempts ex ctx ends req (b # bs) attempt g =
     (case signalHeartbeat ex (ctx attempt) req g of
        (g1, Inr _) \<Rightarrow> (g1, Some (Inr ()))
      | (g1, Inl e) \<Rightarrow>
          if ends (attempt + 1) then (g1, None) else signal_attempts ex ctx ends req bs (attempt + 1) g1)"

definition dispatch ::
    "'t externals \<Rightarrow> (nat \<Rightarrow> nat \<Rightarrow> error option) \<Rightarrow> (nat \<Rightarrow> bool) \<Rightarrow> int \<Rightarrow> HeartbeatRequest \<Rightarrow> HeartbeatRequest list \<Rightarrow>
     ('d, 't) gateway \<Rightarrow> stream \<Rightarrow> ('d, 't) gateway \<times> stream" where
  "dispatch ex ctx ends elapsed req rest g s =
     (case signal_attempts ex ctx ends req backoffs 0 g of
        (g1, None) \<Rightarrow>
          (g1, s\<lparr>ss_sigCh := rest, ss_dispatching := False, ss_abandoned := ss_abandoned s @ [req]\<rparr>)
      | (g1, Some r) \<Rightarrow>
          (on_handler (note_latency elapsed) g1,
           s\<lparr>ss_sigCh := rest, ss_settled := ss_settled s @ [(req, r)]\<rparr>))"

section \<open>The send loop and the end of the stream\<close>

definition send_tick ::
    "'t externals \<Rightarrow> (nat \<Rightarrow> error option) \<Rightarrow> ('d, 't) gateway \<Rightarrow> stream \<Rightarrow> ('d, 't) gateway \<times> stream" where
  "send_tick ex ctx g s =
     (if ss_clusterID s = [] then (g, s)
      else
        (case queryWorkflowState ex ctx (ss_clusterID s) g of
           (g1, Inl e) \<Rightarrow> (g1, s)
         | (g1, Inr (ack, quotas)) \<Rightarrow> (g1, s\<lparr>ss_sent := ss_sent s @ [respond ack quotas]\<rparr>)))"

definition close_stream :: "('d, 't) gateway \<Rightarrow> stream \<Rightarrow> ('d, 't) gateway" where
  "close_stream g s =
     (if ss_clusterID s \<noteq> []
      then on_handler (\<lambda>h. h\<lparr>hh_streams := sm_Deregister (ss_clusterID s) (hh_streams h)\<rparr>) g else g)"

section \<open>Steps\<close>

inductive stream_step ::
    "(int \<Rightarrow> string \<Rightarrow> uint64 \<Rightarrow> 'd \<Rightarrow> 'd \<times> bool) \<Rightarrow> 't externals \<Rightarrow>
     ('d, 't) gateway \<times> stream \<Rightarrow> ('d, 't) gateway \<times> stream \<Rightarrow> bool"
  for check ex where
  received: "ss_offer s = None \<Longrightarrow> stream_step check ex (g, s) (receive_message check now req g s)"
| enqueued: "ss_offer s = Some req \<Longrightarrow> length (ss_sigCh s) < sigChSize \<Longrightarrow>
    stream_step check ex (g, s) (g, enqueue req s)"
| timed_out: "ss_offer s = Some req \<Longrightarrow> stream_step check ex (g, s) (g, drop_message req s)"
| dispatched: "ss_dispatching s \<Longrightarrow> ss_sigCh s = req # rest \<Longrightarrow>
    stream_step check ex (g, s) (dispatch ex ctx ends elapsed req rest g s)"
| ticked: "stream_step check ex (g, s) (send_tick ex ctx g s)"
| elsewhere: "stream_step check ex (g, s) (g', s)"

abbreviation stream_reach ::
    "(int \<Rightarrow> string \<Rightarrow> uint64 \<Rightarrow> 'd \<Rightarrow> 'd \<times> bool) \<Rightarrow> 't externals \<Rightarrow>
     ('d, 't) gateway \<times> stream \<Rightarrow> ('d, 't) gateway \<times> stream \<Rightarrow> bool" where
  "stream_reach check ex \<equiv> (stream_step check ex)\<^sup>*\<^sup>*"

section \<open>Nothing is lost silently, and the order is kept\<close>

definition offered :: "stream \<Rightarrow> HeartbeatRequest list" where
  "offered s = (case ss_offer s of None \<Rightarrow> [] | Some req \<Rightarrow> [req])"

text \<open>The messages past the duplicate check that were not dropped, oldest first.\<close>

definition pipeline :: "stream \<Rightarrow> HeartbeatRequest list" where
  "pipeline s = map fst (ss_settled s) @ ss_abandoned s @ ss_sigCh s @ offered s"

definition conserved :: "stream \<Rightarrow> bool" where
  "conserved s \<longleftrightarrow> mset (ss_passed s) = mset (pipeline s) + mset (ss_dropped s) \<and> subseq (pipeline s) (ss_passed s) \<and>
     length (ss_sigCh s) \<le> sigChSize \<and> (ss_dispatching s \<longrightarrow> ss_abandoned s = [])"

lemma conserved_same:
  "conserved s \<Longrightarrow> pipeline s' = pipeline s \<Longrightarrow> ss_passed s' = ss_passed s \<Longrightarrow> ss_dropped s' = ss_dropped s \<Longrightarrow>
   length (ss_sigCh s') \<le> sigChSize \<Longrightarrow> (ss_dispatching s' \<longrightarrow> ss_abandoned s' = []) \<Longrightarrow> conserved s'"
  by (simp add: conserved_def)

lemma receive_cases:
  obtains c where "snd (receive_message check now req g s) = s\<lparr>ss_clusterID := c\<rparr>"
  | c where "snd (receive_message check now req g s) =
      s\<lparr>ss_clusterID := c, ss_offer := Some req, ss_passed := ss_passed s @ [req]\<rparr>"
proof -
  define c where "c = (if ss_clusterID s = [] then hr_ClusterId req else ss_clusterID s)"
  define g1 where "g1 = on_handler (\<lambda>h. h\<lparr>hh_streams := sm_Touch now c (hh_streams h)\<rparr>) (on_handler count_message
    (if ss_clusterID s = [] then on_handler (\<lambda>h. h\<lparr>hh_streams := fst (sm_Register now now c (hh_streams h))\<rparr>) g else g))"
  obtain d dup where "check now c (hr_SequenceNumber req) (hh_dedup (gw_handler g1)) = (d, dup)" by fastforce
  then have "snd (receive_message check now req g s) =
      (if dup then s\<lparr>ss_clusterID := c\<rparr>
       else s\<lparr>ss_clusterID := c, ss_offer := Some req, ss_passed := ss_passed s @ [req]\<rparr>)"
    unfolding receive_message_def Let_def c_def [symmetric] g1_def [symmetric] by simp
  then show ?thesis using that by (cases dup) simp_all
qed

lemma conserved_receive:
  assumes "conserved s" and "ss_offer s = None"
  shows "conserved (snd (receive_message check now req g s))"
proof -
  let ?p = "map fst (ss_settled s) @ ss_abandoned s @ ss_sigCh s"
  have "subseq ?p (ss_passed s)" using assms by (simp add: conserved_def pipeline_def offered_def)
  then have sub: "subseq (?p @ [req]) (ss_passed s @ [req])" by (simp only: subseq_append)
  show ?thesis
  proof (cases rule: receive_cases [of check now req g s])
    case (1 c)
    show ?thesis using assms unfolding 1 by (simp add: conserved_def pipeline_def offered_def)
  next
    case (2 c)
    show ?thesis
      using assms sub unfolding 2 by (simp add: conserved_def pipeline_def offered_def del: subseq_append)
  qed
qed

lemma conserved_drop:
  assumes "conserved s" and "ss_offer s = Some req"
  shows "conserved (drop_message req s)"
proof -
  let ?p = "map fst (ss_settled s) @ ss_abandoned s @ ss_sigCh s"
  have "subseq ?p (?p @ [req])" by (rule subseq_rev_drop_many) (rule subseq_order.refl)
  moreover have "subseq (?p @ [req]) (ss_passed s)"
    using assms by (simp add: conserved_def pipeline_def offered_def del: subseq_append)
  ultimately have "subseq ?p (ss_passed s)" by (rule subseq_order.trans)
  then show ?thesis
    using assms by (simp add: drop_message_def conserved_def pipeline_def offered_def)
qed

lemma conserved_dispatch:
  assumes "conserved s" and "ss_dispatching s" and "ss_sigCh s = req # rest"
  shows "conserved (snd (dispatch ex ctx ends elapsed req rest g s))"
proof -
  obtain g1 r where "signal_attempts ex ctx ends req backoffs 0 g = (g1, r)" by fastforce
  then show ?thesis
    using assms
    by (intro conserved_same [OF assms(1)]) (cases r; simp add: dispatch_def pipeline_def offered_def conserved_def)+
qed

lemma conserved_tick:
  assumes "conserved s"
  shows "conserved (snd (send_tick ex ctx g s))"
proof -
  obtain g1 r where "queryWorkflowState ex ctx (ss_clusterID s) g = (g1, r)" by fastforce
  then show ?thesis
    using assms
    by (intro conserved_same [OF assms]) (cases r; simp add: send_tick_def pipeline_def offered_def conserved_def split: prod.split)+
qed

lemma conserved_enqueue:
  assumes "conserved s" and "ss_offer s = Some req" and "length (ss_sigCh s) < sigChSize"
  shows "conserved (enqueue req s)"
  using assms by (intro conserved_same [OF assms(1)]) (simp_all add: enqueue_def pipeline_def offered_def conserved_def)

lemma conserved_step: "stream_step check ex x y \<Longrightarrow> conserved (snd x) \<Longrightarrow> conserved (snd y)"
  by (induction rule: stream_step.induct)
    (simp_all only: snd_conv conserved_receive conserved_drop conserved_dispatch conserved_tick conserved_enqueue)


text \<open>What a settled heartbeat means: its last attempt, one of at most four, had that result.\<close>

lemma settled_result:
  "signal_attempts ex ctx ends req bs k g = (g', Some r) \<Longrightarrow>
   \<exists>n \<le> length bs. \<exists>g0. signalHeartbeat ex (ctx (k + n)) req g0 = (g', r)"
proof (induction ex ctx ends req bs k g rule: signal_attempts.induct)
  case (2 ex ctx ends req b bs k g)
  obtain g1 r1 where sig: "signalHeartbeat ex (ctx k) req g = (g1, r1)" by fastforce
  show ?case
  proof (cases r1)
    case (Inl e)
    with "2.prems" sig have "signal_attempts ex ctx ends req bs (k + 1) g1 = (g', Some r)" "\<not> ends (k + 1)"
      by (auto split: if_splits)
    with "2.IH" [OF sig [symmetric] Inl] show ?thesis by (metis Suc_le_mono add_Suc_shift length_Cons plus_1_eq_Suc add.commute)
  next
    case (Inr x)
    then show ?thesis using "2.prems" sig by (intro exI [of _ 0]) auto
  qed
qed (auto split: prod.splits)

section \<open>A concrete run\<close>


end
