(* ===== verification/Web_UI.thy ===== *)
theory Web_UI
  imports Heartbeat_Gateway
begin

text \<open>
  \<open>internal/webui/handler.go\<close>: the pages and the two JSON endpoints of the dashboard.  A response is
  its status and its body before encoding; the figures of the Go runtime (goroutines, heap, collector,
  uptime) are the argument \<open>rt\<close>, and the clock is \<open>now\<close>, in nanoseconds.
\<close>

section \<open>Responses\<close>

record quotaSnapshotJSON =
  qj_TenantID :: string
  qj_ResourceType :: string
  qj_CreditsTotal :: int64
  qj_DebitsPosted :: int64
  qj_DebitsPending :: int64
  qj_Available :: int64
  qj_SnapshotAt :: string

record staleClusterJSON =
  sc_ID :: string
  sc_TenantID :: string
  sc_CloudProvider :: string
  sc_Region :: string
  sc_Status :: string
  sc_LastHeartbeat :: string

record reportPayload =
  rp_QuotaSnapshots :: "quotaSnapshotJSON list"
  rp_StaleClusters :: "staleClusterJSON list"

record 'r runtimeStats =
  st_runtime :: 'r
  st_ActiveStreams :: nat
  st_MsgPerSec :: "(uint64 \<times> int) option"
  st_MsgTotal :: uint64
  st_SignalP50Us :: int
  st_SignalP99Us :: int

datatype 'r body = Page | MovedTo string | ErrorText string error | Stats "'r runtimeStats" | Report reportPayload

record 'r response =
  rs_Code :: nat
  rs_Body :: "'r body"

section \<open>The handler\<close>

definition serveStats :: "'r \<Rightarrow> int \<Rightarrow> ('d, 't) gateway \<Rightarrow> ('d, 't) gateway \<times> 'r response" where
  "serveStats rt now g =
     (case MsgRate now (hh_rate (gw_handler g)) of
        (rate, msgRate, msgTotal) \<Rightarrow>
          (case Percentiles (hh_lat (gw_handler g)) of
             (p50, p99) \<Rightarrow>
               (on_handler (\<lambda>h. h\<lparr>hh_rate := rate\<rparr>) g,
                \<lparr>rs_Code = 200, rs_Body = Stats
                   \<lparr>st_runtime = rt, st_ActiveStreams = length (ActiveClusters (hh_streams (gw_handler g))),
                    st_MsgPerSec = msgRate, st_MsgTotal = msgTotal, st_SignalP50Us = p50, st_SignalP99Us = p99\<rparr>\<rparr>)))"

definition snapshot_json :: "(bytes16 \<Rightarrow> string) \<Rightarrow> QuotaSnapshot \<Rightarrow> quotaSnapshotJSON" where
  "snapshot_json ustr s =
     \<lparr>qj_TenantID = ustr (sn_TenantID s), qj_ResourceType = sn_ResourceType s, qj_CreditsTotal = sn_CreditsTotal s,
      qj_DebitsPosted = sn_DebitsPosted s, qj_DebitsPending = sn_DebitsPending s,
      qj_Available = (case sn_Available s of None \<Rightarrow> 0 | Some a \<Rightarrow> a), qj_SnapshotAt = format_utc (sn_SnapshotAt s)\<rparr>"

definition cluster_json :: "(bytes16 \<Rightarrow> string) \<Rightarrow> WorkloadCluster \<Rightarrow> staleClusterJSON" where
  "cluster_json ustr c =
     \<lparr>sc_ID = ustr (wc_ID c), sc_TenantID = ustr (wc_TenantID c), sc_CloudProvider = wc_CloudProvider c,
      sc_Region = wc_Region c, sc_Status = wc_Status c,
      sc_LastHeartbeat = (case wc_LastHeartbeat c of None \<Rightarrow> '''' | Some t \<Rightarrow> format_utc t)\<rparr>"

definition serveReport :: "(bytes16 \<Rightarrow> string) \<Rightarrow> int \<Rightarrow> pg \<Rightarrow> pg \<times> 'r response" where
  "serveReport ustr now db =
     (case q_GetAllQuotaSnapshots db of
        (db1, Inl e) \<Rightarrow> (db1, \<lparr>rs_Code = 500, rs_Body = ErrorText ''GetAllQuotaSnapshots: '' e\<rparr>)
      | (db1, Inr snapshots) \<Rightarrow>
        (case q_ListStaleClusters (Some (now - 5 * 60 * 1000000000)) db1 of
           (db2, Inl e) \<Rightarrow> (db2, \<lparr>rs_Code = 500, rs_Body = ErrorText ''ListStaleClusters: '' e\<rparr>)
         | (db2, Inr staleClusters) \<Rightarrow>
             (db2, \<lparr>rs_Code = 200, rs_Body = Report
                \<lparr>rp_QuotaSnapshots = map (snapshot_json ustr) snapshots,
                 rp_StaleClusters = map (cluster_json ustr) staleClusters\<rparr>\<rparr>)))"

definition ui_ServeHTTP ::
    "(bytes16 \<Rightarrow> string) \<Rightarrow> 'r \<Rightarrow> int \<Rightarrow> string \<Rightarrow> ('d, 't) gateway \<Rightarrow> ('d, 't) gateway \<times> 'r response" where
  "ui_ServeHTTP ustr rt now path g =
     (if path = ''/api/ui/stats'' then serveStats rt now g
      else if path = ''/api/ui/report'' then
        (case serveReport ustr now (gw_db g) of (db, r) \<Rightarrow> (g\<lparr>gw_db := db\<rparr>, r))
      else if path = ''/ui'' then (g, \<lparr>rs_Code = 301, rs_Body = MovedTo ''/sim''\<rparr>)
      else (g, \<lparr>rs_Code = 200, rs_Body = Page\<rparr>))"

section \<open>Stale clusters\<close>

lemma stale_query:
  assumes "q_ListStaleClusters th db = (db', Inr rows)"
  shows "set rows = {c \<in> set (workload_clusters db). stale th c}"
  using assms unfolding q_ListStaleClusters_def by (auto simp: Let_def elim!: query_Inr)

lemma report_rows:
  assumes "serveReport ustr now db = (db', \<lparr>rs_Code = 200, rs_Body = Report payload\<rparr>)"
  obtains rows where "rp_StaleClusters payload = map (cluster_json ustr) rows"
    "set rows = {c \<in> set (workload_clusters db). stale (Some (now - 5 * 60 * 1000000000)) c}"
proof -
  obtain db1 snapshots rows where 1: "q_GetAllQuotaSnapshots db = (db1, Inr snapshots)"
    and 2: "q_ListStaleClusters (Some (now - 5 * 60 * 1000000000)) db1 = (db', Inr rows)"
    and payload: "payload = \<lparr>rp_QuotaSnapshots = map (snapshot_json ustr) snapshots,
      rp_StaleClusters = map (cluster_json ustr) rows\<rparr>"
    using assms by (auto simp: serveReport_def split: prod.splits sum.splits)
  have "workload_clusters db1 = workload_clusters db"
    using 1 unfolding q_GetAllQuotaSnapshots_def by (auto elim!: query_Inr)
  with stale_query [OF 2] payload show ?thesis by (intro that [of rows]) simp_all
qed

text \<open>No activity records a heartbeat: a cluster that was never seen stays so.\<close>

definition never_seen :: "pg \<Rightarrow> bool" where
  "never_seen db \<longleftrightarrow> (\<forall>c \<in> set (workload_clusters db). wc_LastHeartbeat c = None)"

lemma never_seen_script [simp]: "never_seen (db\<lparr>pg_script := os\<rparr>) = never_seen db"
  by (simp add: never_seen_def)

lemma never_seen_statement:
  "(\<And>db. never_seen db \<Longrightarrow> never_seen (fst (body db))) \<Longrightarrow> never_seen db \<Longrightarrow> never_seen (fst (statement body db))"
  by (rule statement_invariant [where P = never_seen]) simp_all

lemma never_seen_same: "workload_clusters db' = workload_clusters db \<Longrightarrow> never_seen db \<Longrightarrow> never_seen db'"
  by (simp add: never_seen_def)

interpretation unseen: pg_invariant never_seen
proof
  fix db i t p r
  assume ok: "never_seen db"
  show "never_seen (fst (q_InsertCluster i t p r db))"
    unfolding q_InsertCluster_def using _ ok
    by (rule never_seen_statement) (auto simp: never_seen_def Let_def)
  show "never_seen (fst (q_UpdateClusterStatus i r db))"
    unfolding q_UpdateClusterStatus_def using _ ok
    by (rule never_seen_statement) (auto simp: never_seen_def update_where_set)
  show "never_seen (fst (q_DeregisterCluster i db))"
    unfolding q_DeregisterCluster_def using _ ok
    by (rule never_seen_statement) (auto simp: never_seen_def update_where_set)
qed (simp,
  unfold q_InsertTenant_def q_InsertTBAccountMapping_def q_UpsertQuotaSnapshot_def q_InsertCreditAdjustment_def
    q_MarkSoftLimitAlertSent_def q_ResetSoftLimitAlert_def q_DeleteTenant_def,
  (erule never_seen_statement [rotated], erule never_seen_same [rotated],
   simp add: Let_def upsert_snapshot_def set_alert_def split: option.split)+)

text \<open>
  The report calls every cluster stale.  The report lists the clusters that sent no heartbeat in
  the last five minutes; but no activity writes \<open>last_heartbeat\<close>.  So from a database without
  clusters, after any activities, a report lists every cluster that is not suspended or
  deregistered, with an empty last heartbeat, however recently it was heard.
\<close>

lemma report_calls_all_stale:
  assumes "workload_clusters db = []"
    and "serveReport ustr now (fold (run_pg_attempt parse) attempts db) = (db', \<lparr>rs_Code = 200, rs_Body = Report payload\<rparr>)"
    and "c \<in> set (workload_clusters (fold (run_pg_attempt parse) attempts db))"
    and "wc_Status c \<notin> {''deregistered'', ''suspended''}"
  shows "cluster_json ustr c \<in> set (rp_StaleClusters payload) \<and> sc_LastHeartbeat (cluster_json ustr c) = ''''"
proof -
  have "never_seen (fold (run_pg_attempt parse) attempts db)"
    by (rule unseen.attempts_keep) (simp add: never_seen_def assms(1))
  then have none: "wc_LastHeartbeat c = None" using assms(3) by (simp add: never_seen_def)
  then have "stale (Some (now - 5 * 60 * 1000000000)) c" using assms(4) by (simp add: stale_def)
  moreover obtain rows where rows: "rp_StaleClusters payload = map (cluster_json ustr) rows"
    "set rows = {c \<in> set (workload_clusters (fold (run_pg_attempt parse) attempts db)).
       stale (Some (now - 5 * 60 * 1000000000)) c}"
    using assms(2) by (rule report_rows)
  ultimately have "c \<in> set rows" using assms(3) by blast
  moreover have "sc_LastHeartbeat (cluster_json ustr c) = ''''" using none by (simp add: cluster_json_def)
  ultimately show ?thesis by (simp add: rows(1))
qed

definition demo_join_attempt :: pg_attempt where
  "demo_join_attempt = ClusterAttempt \<lparr>ic_ClusterID = ''c'', ic_TenantID = ''t'', ic_CloudProvider = ''aws'', ic_Region = ''eu''\<rparr>"

lemma demo_joined:
  "workload_clusters (run_pg_attempt (ex_parse (demo_externals True)) demo_join_attempt (demo_pg [])) =
     [demo_cluster\<lparr>wc_CreatedAt := 5\<rparr>]"
  "pg_script (run_pg_attempt (ex_parse (demo_externals True)) demo_join_attempt (demo_pg [])) = []"
  by (simp_all add: demo_join_attempt_def InsertCluster_def with_uuid_def demo_externals_fields q_InsertCluster_def
      demo_pg_def cloud_providers_def cluster_exists_def tenant_exists_def Let_def demo_cluster_def)

lemma report_calls_all_stale_witness:
  "\<exists>db' payload. serveReport (ex_ustr (demo_externals True)) 7
       (run_pg_attempt (ex_parse (demo_externals True)) demo_join_attempt (demo_pg [])) =
       (db', \<lparr>rs_Code = 200, rs_Body = (Report payload :: unit body)\<rparr>) \<and>
     cluster_json (ex_ustr (demo_externals True)) (demo_cluster\<lparr>wc_CreatedAt := 5\<rparr>) \<in> set (rp_StaleClusters payload)"
proof -
  let ?db = "fold (run_pg_attempt (ex_parse (demo_externals True))) [demo_join_attempt] (demo_pg [])"
  have db: "workload_clusters ?db = [demo_cluster\<lparr>wc_CreatedAt := 5\<rparr>]" "pg_script ?db = []"
    using demo_joined by simp_all
  obtain db' payload where run: "serveReport (ex_ustr (demo_externals True)) 7 ?db =
      (db', \<lparr>rs_Code = 200, rs_Body = (Report payload :: unit body)\<rparr>)"
    using db(2) by (simp add: serveReport_def q_GetAllQuotaSnapshots_def q_ListStaleClusters_def query_def statement_def Let_def)
  have "workload_clusters (demo_pg []) = []" by (simp add: demo_pg_def)
  from report_calls_all_stale [OF this run, of "demo_cluster\<lparr>wc_CreatedAt := 5\<rparr>"] run db(1)
  show ?thesis by (auto simp: demo_cluster_def)
qed

end
