(* ===== verification/Provisioning_Gateway.thy ===== *)
theory Provisioning_Gateway
  imports Heartbeat_Gateway
begin

text \<open>
  \<open>internal/gateway/provisioning_handler.go\<close>: the calls that register a tenant and a cluster.  Each
  starts a workflow of theory \<open>Provisioning_Workflow\<close> and waits for it.  \<open>uuid.New()\<close> and the clock are
  arguments, and the Temporal client is the record \<open>prov_temporal\<close>: starting a workflow gives a
  handle, and \<open>Get\<close> on the handle waits for its end.
\<close>

section \<open>Definitions\<close>

record RegisterTenantRequest =
  rt_Name :: string
  rt_BillingTier :: string
  rt_CpuHoursCredits :: int64
  rt_MemoryGbHoursCredits :: int64
  rt_ActiveNodesLimit :: int64

record RegisterClusterRequest =
  rq_TenantId :: string
  rq_CloudProvider :: string
  rq_Region :: string

record ('w, 'run) prov_temporal =
  pt_ExecuteProvisioning :: "string \<Rightarrow> TenantProvisioningInput \<Rightarrow> 'w \<Rightarrow> 'w \<times> 'run result"
  pt_ExecuteRegistration :: "string \<Rightarrow> RegisterClusterWorkflowInput \<Rightarrow> 'w \<Rightarrow> 'w \<times> 'run result"
  pt_Get :: "'run \<Rightarrow> 'w \<Rightarrow> 'w \<times> unit result"

record ProvisioningHandler =
  ph_globalAccounts :: "(GlobalAccountKey, bytes16) gomap"

definition NewProvisioningHandler :: "(GlobalAccountKey, bytes16) gomap \<Rightarrow> ProvisioningHandler" where
  "NewProvisioningHandler globalAccounts = \<lparr>ph_globalAccounts = globalAccounts\<rparr>"

definition defaultCredits :: "string \<Rightarrow> (string, int64) gomap" where
  "defaultCredits tier =
     (if tier = ''pro'' then
        [(ResourceCPUHours, 1000000), (ResourceMemoryGBHours, 1000000), (ResourceActiveNodes, 20)]
      else if tier = ''starter'' then
        [(ResourceCPUHours, 200000), (ResourceMemoryGBHours, 200000), (ResourceActiveNodes, 5)]
      else
        [(ResourceCPUHours, 10000), (ResourceMemoryGBHours, 10000), (ResourceActiveNodes, 2)])"

definition override_credit :: "string \<Rightarrow> int64 \<Rightarrow> (string, int64) gomap \<Rightarrow> (string, int64) gomap" where
  "override_credit r amount credits = (if 0 < sint amount then AList.update r amount credits else credits)"

definition tenant_credits :: "RegisterTenantRequest \<Rightarrow> (string, int64) gomap" where
  "tenant_credits r =
     override_credit ResourceActiveNodes (rt_ActiveNodesLimit r)
       (override_credit ResourceMemoryGBHours (rt_MemoryGbHoursCredits r)
         (override_credit ResourceCPUHours (rt_CpuHoursCredits r) (defaultCredits (rt_BillingTier r))))"

definition global_ids :: "(GlobalAccountKey, bytes16) gomap \<Rightarrow> AccountType \<Rightarrow> id_map" where
  "global_ids accounts t =
     fold (\<lambda>res m. case map_of accounts \<lparr>key_Resource = res, key_AccountType = t\<rparr> of
                     None \<Rightarrow> m | Some i \<Rightarrow> AList.update res i m) AllResources []"

definition provisioning_input ::
    "(bytes16 \<Rightarrow> string) \<Rightarrow> ProvisioningHandler \<Rightarrow> bytes16 \<Rightarrow> int64 \<Rightarrow> RegisterTenantRequest \<Rightarrow> TenantProvisioningInput" where
  "provisioning_input ustr h tenantID now r =
     \<lparr>pv_TenantID = ustr tenantID, pv_TenantUUID = tenantID, pv_Name = rt_Name r,
      pv_BillingTier = rt_BillingTier r, pv_Credits = tenant_credits r,
      pv_GlobalOperatorIDs = global_ids (ph_globalAccounts h) AccountTypeOperator,
      pv_GlobalSinkIDs = global_ids (ph_globalAccounts h) AccountTypeSink, pv_PeriodStartNs = now\<rparr>"

definition RegisterTenant ::
    "('w, 'run) prov_temporal \<Rightarrow> (bytes16 \<Rightarrow> string) \<Rightarrow> ProvisioningHandler \<Rightarrow> bytes16 \<Rightarrow> int64 \<Rightarrow>
     RegisterTenantRequest \<Rightarrow> 'w \<Rightarrow> 'w \<times> string result" where
  "RegisterTenant tc ustr h tenantID now r w =
     (case pt_ExecuteProvisioning tc (ProvisioningWorkflowID (ustr tenantID))
             (provisioning_input ustr h tenantID now r) w of
        (w1, Inl e) \<Rightarrow> (w1, Inl (Wrap ''internal'' (Wrap ''start provisioning workflow'' e)))
      | (w1, Inr run) \<Rightarrow>
        (case pt_Get tc run w1 of
           (w2, Inl e) \<Rightarrow> (w2, Inl (Wrap ''internal'' (Wrap ''provisioning workflow failed'' e)))
         | (w2, Inr _) \<Rightarrow> (w2, Inr (ustr tenantID))))"

definition RegisterCluster ::
    "('w, 'run) prov_temporal \<Rightarrow> (bytes16 \<Rightarrow> string) \<Rightarrow> bytes16 \<Rightarrow> RegisterClusterRequest \<Rightarrow> 'w \<Rightarrow> 'w \<times> string result" where
  "RegisterCluster tc ustr clusterID r w =
     (case pt_ExecuteRegistration tc (ClusterRegistrationWorkflowID (ustr clusterID))
             \<lparr>rc_ClusterID = ustr clusterID, rc_TenantID = rq_TenantId r,
              rc_CloudProvider = rq_CloudProvider r, rc_Region = rq_Region r\<rparr> w of
        (w1, Inl e) \<Rightarrow> (w1, Inl (Wrap ''internal'' (Wrap ''start cluster workflow'' e)))
      | (w1, Inr run) \<Rightarrow>
        (case pt_Get tc run w1 of
           (w2, Inl e) \<Rightarrow> (w2, Inl (Wrap ''internal'' (Wrap ''cluster registration failed'' e)))
         | (w2, Inr _) \<Rightarrow> (w2, Inr (ustr clusterID))))"

section \<open>What the calls rely on\<close>

text \<open>
  Temporal runs the workflow it is asked to: a wait that ends without an error means that the
  workflow has run to its end on the world and returned no error.
\<close>

definition runs_workflows :: "('w, 'run) prov_temporal \<Rightarrow> 'w prov_calls \<Rightarrow> hash \<Rightarrow> bool" where
  "runs_workflows tc calls H \<longleftrightarrow>
     (\<forall>i input w w1 run w2. pt_ExecuteProvisioning tc i input w = (w1, Inr run) \<longrightarrow> pt_Get tc run w1 = (w2, Inr ()) \<longrightarrow>
        (\<exists>ids. TenantProvisioningWorkflow calls H input w = (w2, Inr ids))) \<and>
     (\<forall>i input w w1 run w2. pt_ExecuteRegistration tc i input w = (w1, Inr run) \<longrightarrow> pt_Get tc run w1 = (w2, Inr ()) \<longrightarrow>
        RegisterClusterWorkflow calls input w = (w2, Inr ()))"

section \<open>Credits and global accounts\<close>

lemma resources_distinct [simp]:
  "ResourceCPUHours \<noteq> ResourceMemoryGBHours" "ResourceCPUHours \<noteq> ResourceActiveNodes"
  "ResourceMemoryGBHours \<noteq> ResourceActiveNodes"
  by (simp_all add: ResourceCPUHours_def ResourceMemoryGBHours_def ResourceActiveNodes_def)

lemmas resources_distinct_sym [simp] = resources_distinct [symmetric]

text \<open>The amount a request names for a resource.\<close>

definition requested :: "RegisterTenantRequest \<Rightarrow> string \<Rightarrow> int64" where
  "requested r res =
     (if res = ResourceCPUHours then rt_CpuHoursCredits r
      else if res = ResourceMemoryGBHours then rt_MemoryGbHoursCredits r else rt_ActiveNodesLimit r)"

lemma default_positive: "r \<in> set AllResources \<Longrightarrow> \<exists>n. map_of (defaultCredits tier) r = Some n \<and> 0 < sint n"
  by (auto simp only: defaultCredits_def AllResources_def list.set insert_iff empty_iff) simp_all

lemma tenant_credits_lookup:
  assumes "res \<in> set AllResources"
  shows "map_of (tenant_credits r) res =
    (if 0 < sint (requested r res) then Some (requested r res) else map_of (defaultCredits (rt_BillingTier r)) res)"
  using assms by (auto simp: tenant_credits_def override_credit_def requested_def AllResources_def update_conv)

lemma global_ids_lookup:
  "map_of (global_ids accounts t) res =
    (if res \<in> set AllResources then map_of accounts \<lparr>key_Resource = res, key_AccountType = t\<rparr> else None)"
  by (auto simp: global_ids_def AllResources_def update_conv split: option.splits)

section \<open>Successful calls ran their workflow\<close>

lemma register_tenantD:
  assumes "RegisterTenant tc ustr h u now r w = (w', Inr i)" "runs_workflows tc calls H"
  shows "i = ustr u" "\<exists>ids. TenantProvisioningWorkflow calls H (provisioning_input ustr h u now r) w = (w', Inr ids)"
  using assms unfolding RegisterTenant_def runs_workflows_def
  by (auto split: prod.splits sum.splits)

lemma register_clusterD:
  assumes "RegisterCluster tc ustr u r w = (w', Inr i)" "runs_workflows tc calls H"
  shows "i = ustr u" "RegisterClusterWorkflow calls \<lparr>rc_ClusterID = ustr u, rc_TenantID = rq_TenantId r,
    rc_CloudProvider = rq_CloudProvider r, rc_Region = rq_Region r\<rparr> w = (w', Inr ())"
  using assms unfolding RegisterCluster_def runs_workflows_def
  by (auto split: prod.splits sum.splits)

lemma find_skip: "find P xs = None \<Longrightarrow> find P (xs @ ys) = find P ys"
  by (induction xs) (auto split: if_splits)

lemma cluster_inserted:
  assumes "with_retries n (InsertCluster parse i) db = (db', Inr ())" "parse (ic_ClusterID i) = Inr u"
    "parse (ic_TenantID i) = Inr t"
  shows "\<exists>row. find (\<lambda>c. wc_ID c = u) (workload_clusters db') = Some row \<and> wc_TenantID row = t \<and> tenant_exists t db'"
proof -
  obtain db0 where "InsertCluster parse i db0 = (db', Inr ())"
    using with_retries_last [OF assms(1), of "\<lambda>_. True"] by blast
  then obtain row where "q_InsertCluster u t (ic_CloudProvider i) (ic_Region i) db0 = (db', Inr row)"
    using assms(2,3) by (auto simp: InsertCluster_def with_uuid_def drop_value_def prod_eq_iff split: sum.splits)
  then have "\<not> cluster_exists u db0 \<and> tenant_exists t db' \<and>
    workload_clusters db' = workload_clusters db0 @ [row] \<and> wc_ID row = u \<and> wc_TenantID row = t"
    unfolding q_InsertCluster_def
    by (elim statement_Inr) (auto simp: Let_def tenant_exists_def cluster_exists_def split: if_splits)
  moreover from this have "find (\<lambda>c. wc_ID c = u) (workload_clusters db0) = None"
    by (auto simp: cluster_exists_def find_None_iff)
  ultimately show ?thesis by (simp add: find_skip)
qed

section \<open>A deployment that runs its workflows at once\<close>

text \<open>The handle is the error a workflow ended with, if any.\<close>

definition direct_temporal :: "'w prov_calls \<Rightarrow> hash \<Rightarrow> ('w, error option) prov_temporal" where
  "direct_temporal calls H =
     \<lparr>pt_ExecuteProvisioning = \<lambda>_ input w. (case TenantProvisioningWorkflow calls H input w of
        (w', Inl e) \<Rightarrow> (w', Inr (Some e)) | (w', Inr _) \<Rightarrow> (w', Inr None)),
      pt_ExecuteRegistration = \<lambda>_ input w. (case RegisterClusterWorkflow calls input w of
        (w', Inl e) \<Rightarrow> (w', Inr (Some e)) | (w', Inr _) \<Rightarrow> (w', Inr None)),
      pt_Get = \<lambda>run w. (w, case run of None \<Rightarrow> Inr () | Some e \<Rightarrow> Inl e)\<rparr>"

lemma direct_runs: "runs_workflows (direct_temporal calls H) calls H"
  by (auto simp: runs_workflows_def direct_temporal_def split: prod.splits sum.splits option.splits)

lemma direct_register:
  assumes "TenantProvisioningWorkflow calls H (provisioning_input ustr h u now r) w = (w', Inr ids)"
  shows "RegisterTenant (direct_temporal calls H) ustr h u now r w = (w', Inr (ustr u))"
  using assms by (simp add: RegisterTenant_def direct_temporal_def)

section \<open>Properties\<close>

text \<open>
  C9. A tenant that registers successfully is ready to be billed.  The call returns the printed UUID
  only after the workflow has completed: then the tenant's row exists, and for each resource there is
  a TigerBeetle wallet of this tenant under the hard limit that PostgreSQL names.  The credits the
  workflow was asked to load are positive for every resource: the requested amount when it is
  positive, and the default of the billing tier otherwise.
\<close>

theorem registered_tenant_ready:
  assumes "tb_laws c v" and "start_frame start_wf" and "runs_workflows tc (deployment c parse start_wf signal_wf) H"
    and "parse (ustr u) = Inr u" and "\<forall>r. mapped_account (w_pg w) (u, r) = None" and "res \<in> set AllResources"
    and "RegisterTenant tc ustr h u now r w = (w', Inr i)"
  shows "i = ustr u \<and> tenant_exists u (w_pg w') \<and>
    (\<exists>j a. acct v (w_tb w') j = Some a \<and> acc_UserData128 a = u \<and> DebitsMustNotExceedCredits (acc_Flags a) \<and>
       mapped_account (w_pg w') (u, res) = Some (le_bytes 16 j)) \<and>
    (\<exists>n. map_of (pv_Credits (provisioning_input ustr h u now r)) res = Some n \<and> 0 < sint n \<and>
       (0 < sint (requested r res) \<longrightarrow> n = requested r res))"
proof -
  let ?in = "provisioning_input ustr h u now r"
  have i: "i = ustr u" by (rule register_tenantD(1) [OF assms(7,3)])
  obtain ids where run: "TenantProvisioningWorkflow (deployment c parse start_wf signal_wf) H ?in w = (w', Inr ids)"
    using register_tenantD(2) [OF assms(7,3)] by blast
  have "parse (pv_TenantID ?in) = Inr u" by (simp add: provisioning_input_def assms(4))
  from provisioned [OF assms(1,2) this run assms(5,6)] have ready: "tenant_exists u (w_pg w')"
    "\<exists>j a. acct v (w_tb w') j = Some a \<and> acc_UserData128 a = u \<and> DebitsMustNotExceedCredits (acc_Flags a) \<and>
       mapped_account (w_pg w') (u, res) = Some (le_bytes 16 j)"
    by (auto simp: provisioning_input_def)
  moreover have "\<exists>n. map_of (pv_Credits ?in) res = Some n \<and> 0 < sint n \<and> (0 < sint (requested r res) \<longrightarrow> n = requested r res)"
    using default_positive [OF assms(6), of "rt_BillingTier r"]
    by (auto simp: provisioning_input_def tenant_credits_lookup [OF assms(6)])
  ultimately show ?thesis using i by blast
qed

text \<open>A cluster has one recorded tenant.\<close>

lemma recorded_unique:
  assumes "schema_ok db" "recorded_tenant ex db c t" "recorded_tenant ex db c t'"
  shows "t = t'"
proof -
  have "distinct (map wc_ID (workload_clusters db))" using assms(1) by (simp add: schema_ok_def clusters_ok_def)
  then have inj: "inj_on wc_ID (set (workload_clusters db))" by (simp add: distinct_map)
  obtain row where row: "ex_parse ex c = Inr (wc_ID row)" "row \<in> set (workload_clusters db)" "t = ex_ustr ex (wc_TenantID row)"
    using assms(2) by (auto simp: recorded_tenant_def)
  obtain row' where row': "ex_parse ex c = Inr (wc_ID row')" "row' \<in> set (workload_clusters db)"
    "t' = ex_ustr ex (wc_TenantID row')"
    using assms(3) by (auto simp: recorded_tenant_def)
  have "row = row'" using row(1,2) row'(1,2) by (intro inj_onD [OF inj]) simp_all
  then show ?thesis using row(3) row'(3) by simp
qed

lemma resolve_answers:
  assumes "recorded_tenant ex (gw_db g) c t" "pg_script (gw_db g) = []"
  shows "\<exists>t'. snd (resolveTenantID ex ctx c g) = Inr t'"
proof (cases "map_of (hh_clusterToTenant (gw_handler g)) c")
  case None
  obtain u where u: "ex_parse ex c = Inr u" "\<exists>row \<in> set (workload_clusters (gw_db g)). wc_ID row = u"
    using assms(1) by (auto simp: recorded_tenant_def)
  then obtain row where "find (\<lambda>c. wc_ID c = u) (workload_clusters (gw_db g)) = Some row"
    by (cases "find (\<lambda>c. wc_ID c = u) (workload_clusters (gw_db g))") (auto simp: find_None_iff)
  then have "q_GetCluster u (gw_db g) = (gw_db g, Inr row)"
    using assms(2) by (simp add: q_GetCluster_def query_def statement_def)
  then show ?thesis
    using u(1) by (simp add: resolveTenantID_def None resolve_loop.simps [of _ _ _ _ 0] maxAttempts_def Let_def)
qed (simp add: resolveTenantID_def)

text \<open>What is relied on of Temporal's signal call: it does not reach the database.\<close>

definition signal_frame :: "(string \<Rightarrow> RegisterClusterSignal \<Rightarrow> 'tb world \<Rightarrow> 'tb world \<times> unit result) \<Rightarrow> bool" where
  "signal_frame signal_wf \<longleftrightarrow> (\<forall>i sig w. w_pg (fst (signal_wf i sig w)) = w_pg w)"

lemma registration_steps:
  assumes "RegisterClusterWorkflow (deployment c parse start_wf signal_wf) input w = (w', Inr ())" "signal_frame signal_wf"
  shows "with_retries 4 (InsertCluster parse \<lparr>ic_ClusterID = rc_ClusterID input, ic_TenantID = rc_TenantID input,
    ic_CloudProvider = rc_CloudProvider input, ic_Region = rc_Region input\<rparr>) (w_pg w) = (w_pg w', Inr ())"
proof -
  obtain w1 where w1: "on_pg (with_retries 4 (InsertCluster parse \<lparr>ic_ClusterID = rc_ClusterID input,
      ic_TenantID = rc_TenantID input, ic_CloudProvider = rc_CloudProvider input, ic_Region = rc_Region input\<rparr>)) w = (w1, Inr ())"
    "signal_wf (AccountingWorkflowID (rc_TenantID input)) \<lparr>reg_ClusterID = rc_ClusterID input\<rparr> w1 = (w', Inr ())"
    using assms(1) by (auto simp: RegisterClusterWorkflow_def deployment_def retries_on_pg split: prod.splits sum.splits)
  have "w_pg w' = w_pg w1" using w1(2) assms(2) unfolding signal_frame_def by (metis fst_conv)
  then show ?thesis using on_pgD [OF w1(1)] by simp
qed

text \<open>
  C29. Heartbeats of a registered cluster reach its tenant.  After a successful registration, and
  whatever activities run on the database from then on, every resolution of the cluster by the
  heartbeat service that returns a tenant returns the one the cluster was registered for; and it
  does return while the database answers.
\<close>

theorem registered_cluster_routed:
  assumes "runs_workflows tc (deployment c (ex_parse ex) start_wf signal_wf) H" and "signal_frame signal_wf"
    and "ex_parse ex (ex_ustr ex u) = Inr u" and "ex_parse ex (rq_TenantId r) = Inr t" and "schema_ok (w_pg w)"
    and "RegisterCluster tc (ex_ustr ex) u r w = (w', Inr i)"
    and "gw_db g = fold (run_pg_attempt (ex_parse ex)) attempts (w_pg w')" and "cache_ok ex g"
    and "resolveTenantID ex ctx i g = (g', res)"
  shows "(\<forall>t'. res = Inr t' \<longrightarrow> t' = ex_ustr ex t) \<and> (pg_script (gw_db g) = [] \<longrightarrow> res = Inr (ex_ustr ex t))"
proof -
  let ?in = "\<lparr>ic_ClusterID = ex_ustr ex u, ic_TenantID = rq_TenantId r, ic_CloudProvider = rq_CloudProvider r,
    ic_Region = rq_Region r\<rparr>"
  have i: "i = ex_ustr ex u" by (rule register_clusterD(1) [OF assms(6,1)])
  have ins: "with_retries 4 (InsertCluster (ex_parse ex) ?in) (w_pg w) = (w_pg w', Inr ())"
    using registration_steps [OF register_clusterD(2) [OF assms(6,1)] assms(2)] by simp
  have "\<exists>row. find (\<lambda>c. wc_ID c = u) (workload_clusters (w_pg w')) = Some row \<and> wc_TenantID row = t"
    using cluster_inserted [OF ins] assms(3,4) by auto
  then have "recorded_tenant ex (w_pg w') i (ex_ustr ex t)"
    using assms(3) by (auto simp: recorded_tenant_def i find_Some_iff) (metis nth_mem)
  then have rec: "recorded_tenant ex (gw_db g) i (ex_ustr ex t)"
    unfolding assms(7) by (rule recorded.attempts_keep)
  have "schema_ok (w_pg w')"
    using with_retries_invariant [where I = schema_ok and act = "InsertCluster (ex_parse ex) ?in", OF schema.inserts_keep(2) assms(5)]
      ins by (metis fst_conv)
  then have "schema_ok (gw_db g)" unfolding assms(7) by (rule schema.attempts_keep)
  moreover have "recorded_tenant ex (gw_db g) i t'" if "res = Inr t'" for t'
    using resolve_spec [OF assms(9,8)] that by metis
  ultimately have "\<forall>t'. res = Inr t' \<longrightarrow> t' = ex_ustr ex t" using recorded_unique rec by blast
  then show ?thesis using resolve_answers [OF rec, of ctx] assms(9) by auto
qed

section \<open>Concrete calls\<close>

definition demo_calls :: "uuid_parser \<Rightarrow> ref_tb world prov_calls" where
  "demo_calls parse = deployment ref_client parse demo_start_wf demo_signal_wf"

definition demo_signup :: RegisterTenantRequest where
  "demo_signup = \<lparr>rt_Name = ''acme'', rt_BillingTier = ''pro'', rt_CpuHoursCredits = 500, rt_MemoryGbHoursCredits = 0,
     rt_ActiveNodesLimit = 0\<rparr>"

lemma demo_signup_accounts: "\<exists>s' ids. CreateTenantTBAccounts ref_client 7 empty_ref = (s', Inr ids)"
proof -
  have "\<not> isl (snd (CreateTenantQuotaAccounts ref_client 7 [] empty_ref))" by code_simp
  then obtain s' ids where "CreateTenantQuotaAccounts ref_client 7 [] empty_ref = (s', Inr ids)"
    by (blast dest: returned)
  then show ?thesis by (simp add: CreateTenantTBAccounts_def)
qed

lemma demo_signup_credits:
  "tenant_credits demo_signup = [(ResourceCPUHours, 500), (ResourceMemoryGBHours, 1000000), (ResourceActiveNodes, 20)]"
  by (simp add: tenant_credits_def override_credit_def demo_signup_def defaultCredits_def)

lemma demo_signup_run:
  "\<exists>w'. RegisterTenant (direct_temporal (demo_calls demo_parse) demo_hash) (\<lambda>_. ''t'') (NewProvisioningHandler []) 7 1000
     demo_signup (demo_world []) = (w', Inr ''t'')"
proof -
  let ?in = "provisioning_input (\<lambda>_. ''t'') (NewProvisioningHandler []) 7 1000 demo_signup"
  obtain s' ids where 2: "CreateTenantTBAccounts ref_client 7 empty_ref = (s', Inr ids)"
    using demo_signup_accounts by blast
  obtain db1 db2 where
    1: "InsertTenant demo_parse \<lparr>it_TenantID = ''t'', it_Name = ''acme'', it_BillingTier = ''pro''\<rparr> (empty_pg []) = (db1, Inr ())"
    and 3: "InsertTBAccountMapping demo_parse \<lparr>im_TenantID = ''t'', im_AccountMap = ids\<rparr> db1 = (db2, Inr ())"
    by (rule demo_rows_run)
  have ops: "pv_GlobalOperatorIDs ?in = []"
    by (simp add: provisioning_input_def NewProvisioningHandler_def global_ids_def AllResources_def)
  have 4: "SubmitAllocationTransfers ref_client (initial_allocation ?in ids m) s' = (s', Inr ())" for m
    by (simp add: SubmitAllocationTransfers_def initial_allocation_def ops allocation_of_credit_def collect_def
        map_filter_def Let_def split_def)
  have "\<exists>m. allocTransferIDs demo_hash ?in = Inr m"
    unfolding allocTransferIDs_def
    by (rule traverse_total)
      (auto simp: provisioning_input_def demo_signup_credits LedgerID_def split: sum.split)
  then obtain m where m: "allocTransferIDs demo_hash ?in = Inr m" by blast
  have fields: "pv_TenantID ?in = ''t''" "pv_Name ?in = ''acme''" "pv_BillingTier ?in = ''pro''" "pv_TenantUUID ?in = 7"
    by (simp_all add: provisioning_input_def demo_signup_def)
  have run: "\<exists>w'. TenantProvisioningWorkflow (demo_calls demo_parse) demo_hash ?in (demo_world []) = (w', Inr ids)"
    by (simp add: TenantProvisioningWorkflow_def demo_calls_def deployment_calls demo_world_def on_pg_def on_tb_def
        fields with_retries_first 1 2 3 4 m load_wallet_def wrap_error_def start_accounting_def demo_start_wf_def)
  then obtain w' where "TenantProvisioningWorkflow (demo_calls demo_parse) demo_hash ?in (demo_world []) = (w', Inr ids)" ..
  from direct_register [OF this] show ?thesis by auto
qed

theorem registered_tenant_ready_witness:
  "\<exists>w' j a. RegisterTenant (direct_temporal (demo_calls demo_parse) demo_hash) (\<lambda>_. ''t'') (NewProvisioningHandler []) 7 1000
       demo_signup (demo_world []) = (w', Inr ''t'') \<and>
     acct ref_view (w_tb w') j = Some a \<and> acc_UserData128 a = 7 \<and>
     mapped_account (w_pg w') (7, ResourceCPUHours) = Some (le_bytes 16 j)"
proof -
  obtain w' where run: "RegisterTenant (direct_temporal (demo_calls demo_parse) demo_hash) (\<lambda>_. ''t'')
      (NewProvisioningHandler []) 7 1000 demo_signup (demo_world []) = (w', Inr ''t'')"
    using demo_signup_run by blast
  have "start_frame (demo_start_wf :: string \<Rightarrow> TenantAccountingInput \<Rightarrow> ref_tb world \<Rightarrow> ref_tb world \<times> unit result)"
    by (simp add: start_frame_def demo_start_wf_def)
  moreover have "demo_parse ((\<lambda>_. ''t'') (7 :: bytes16)) = Inr 7" by (simp add: demo_parse_def)
  moreover have "\<forall>r. mapped_account (w_pg (demo_world [])) (7, r) = None"
    by (simp add: mapped_account_def demo_world_def empty_pg_def demo_pg_def)
  moreover have "ResourceCPUHours \<in> set AllResources" by (simp add: AllResources_def)
  ultimately show ?thesis
    using registered_tenant_ready [OF ref_laws _ direct_runs [of "demo_calls demo_parse", unfolded demo_calls_def] _ _ _
      run [unfolded demo_calls_def]] run by blast
qed

definition demo_join :: RegisterClusterRequest where
  "demo_join = \<lparr>rq_TenantId = ''t'', rq_CloudProvider = ''aws'', rq_Region = ''eu''\<rparr>"

definition demo_live :: "ref_tb world" where
  "demo_live = \<lparr>w_tb = empty_ref, w_pg = demo_pg [], w_workflows = [], w_signals = []\<rparr>"

lemma demo_join_run:
  "\<exists>w'. RegisterCluster (direct_temporal (demo_calls (ex_parse (demo_externals True))) demo_hash)
     (ex_ustr (demo_externals True)) 3 demo_join demo_live = (w', Inr ''c'') \<and> pg_script (w_pg w') = []"
proof -
  let ?in = "\<lparr>ic_ClusterID = ''c'', ic_TenantID = ''t'', ic_CloudProvider = ''aws'', ic_Region = ''eu''\<rparr>"
  let ?P = "ex_parse (demo_externals True)"
  have ins: "snd (InsertCluster ?P ?in (demo_pg [])) = Inr () \<and> pg_script (fst (InsertCluster ?P ?in (demo_pg []))) = []"
    by (simp add: InsertCluster_def with_uuid_def demo_externals_fields drop_value_def q_InsertCluster_def statement_def
        demo_pg_def cloud_providers_def cluster_exists_def tenant_exists_def Let_def)
  then have "with_retries 4 (InsertCluster ?P ?in) (demo_pg []) = (fst (InsertCluster ?P ?in (demo_pg [])), Inr ())"
    by (simp add: with_retries_first prod_eq_iff)
  then show ?thesis
    using ins
    by (simp add: RegisterCluster_def direct_temporal_def demo_calls_def RegisterClusterWorkflow_def deployment_def
        retries_on_pg on_pg_def demo_join_def demo_live_def demo_signal_wf_def demo_externals_def)
qed

theorem registered_cluster_routed_witness:
  "\<exists>w' g'. RegisterCluster (direct_temporal (demo_calls (ex_parse (demo_externals True))) demo_hash)
       (ex_ustr (demo_externals True)) 3 demo_join demo_live = (w', Inr ''c'') \<and>
     resolveTenantID (demo_externals True) (\<lambda>_. None) ''c'' (demo_gateway\<lparr>gw_db := w_pg w'\<rparr>) = (g', Inr ''t'')"
proof -
  let ?ex = "demo_externals True"
  obtain w' where run: "RegisterCluster (direct_temporal (demo_calls (ex_parse ?ex)) demo_hash) (ex_ustr ?ex) 3 demo_join
      demo_live = (w', Inr ''c'')" and script: "pg_script (w_pg w') = []"
    using demo_join_run by blast
  obtain g' res where res: "resolveTenantID ?ex (\<lambda>_. None) ''c'' (demo_gateway\<lparr>gw_db := w_pg w'\<rparr>) = (g', res)" by fastforce
  have frame: "signal_frame (demo_signal_wf :: string \<Rightarrow> RegisterClusterSignal \<Rightarrow> ref_tb world \<Rightarrow> ref_tb world \<times> unit result)"
    by (simp add: signal_frame_def demo_signal_wf_def)
  have parse: "ex_parse ?ex (ex_ustr ?ex 3) = Inr 3" "ex_parse ?ex (rq_TenantId demo_join) = Inr 7"
    by (simp_all add: demo_externals_def demo_join_def)
  have ok: "schema_ok (w_pg demo_live)" by (simp add: demo_live_def demo_schema)
  have cache: "cache_ok ?ex (demo_gateway\<lparr>gw_db := w_pg w'\<rparr>)"
    by (simp add: cache_ok_def demo_gateway_def NewHeartbeatHandler_def)
  let ?g = "demo_gateway\<lparr>gw_db := w_pg w'\<rparr>"
  have db: "gw_db ?g = fold (run_pg_attempt (ex_parse ?ex)) [] (w_pg w')" "pg_script (gw_db ?g) = []"
    using script by simp_all
  have "res = Inr (ex_ustr ?ex 7)"
    using registered_cluster_routed [OF direct_runs [of "demo_calls (ex_parse ?ex)", unfolded demo_calls_def] frame
      parse ok run [unfolded demo_calls_def] db(1) cache res] db(2) by (rule mp [OF conjunct2])
  then have routed: "res = Inr ''t''" by (simp only: demo_externals_fields)
  show ?thesis by (rule exI [of _ w'], rule exI [of _ g']) (simp only: run res routed simp_thms)
qed

end
