(* ===== verification/Billing.thy ===== *)
theory Billing
  imports TB_Activities
begin

text \<open>
  Billing across attempts.  Temporal runs an activity at least once: an attempt may be repeated
  after its effects have happened.  Here the TigerBeetle activities run in any order and any
  number of times (\<open>run_attempts\<close>), and the ledger's charges are bounded by the distinct
  heartbeats behind them.
\<close>

section \<open>What a call adds to the ledger\<close>

definition adds :: "'tb tb_view \<Rightarrow> 'tb \<Rightarrow> 'tb \<Rightarrow> (bytes16 \<Rightarrow> Transfer \<Rightarrow> bool) \<Rightarrow> bool" where
  "adds v s s' Q \<longleftrightarrow> (\<forall>i t. committed v s' i = Some t \<longrightarrow> committed v s i = Some t \<or> Q i t)"

lemma adds_same: "committed v s' = committed v s \<Longrightarrow> adds v s s' Q"
  by (simp add: adds_def)

lemma adds_trans: "adds v s s1 Q \<Longrightarrow> adds v s1 s2 Q \<Longrightarrow> adds v s s2 Q"
  unfolding adds_def by blast

lemma adds_mono: "adds v s s' Q \<Longrightarrow> (\<And>i t. Q i t \<Longrightarrow> R i t) \<Longrightarrow> adds v s s' R"
  unfolding adds_def by blast

lemma commit_adds:
  assumes "tb_laws c v" "commit v s t = (s', r)"
  shows "adds v s s' (\<lambda>i u. u = t \<and> i = tr_ID t)"
  using assms by (cases rule: commit_cases) (auto simp: adds_def split: if_splits)

lemma batch_adds:
  assumes "tb_laws c v"
  shows "adds v s (fst (run_events (commit v) k s ts)) (\<lambda>i u. u \<in> set ts \<and> i = tr_ID u)"
proof (rule run_events_invariant [where P = "\<lambda>s'. adds v s s' (\<lambda>i u. u \<in> set ts \<and> i = tr_ID u)"])
  fix s1 t s2 r
  assume "adds v s s1 (\<lambda>i u. u \<in> set ts \<and> i = tr_ID u)" "t \<in> set ts" "commit v s1 t = (s2, r)"
  then show "adds v s s2 (\<lambda>i u. u \<in> set ts \<and> i = tr_ID u)"
    using commit_adds [OF assms, of s1 t s2 r] unfolding adds_def by blast
qed (simp add: adds_def)

lemma create_adds:
  assumes "tb_laws c v" "CreateTransfers c s ts = (s', r)"
  shows "adds v s s' (\<lambda>i u. u \<in> set ts \<and> i = tr_ID u)"
proof (cases r)
  case (Inl e)
  then show ?thesis
    using batch_errD [OF assms(1), of s ts s' e] assms(2) batch_adds [OF assms(1), of s 0 ts]
    by (auto simp: adds_same)
next
  case (Inr rs)
  then show ?thesis
    using batch_okD [OF assms(1), of s ts s' rs] assms(2) batch_adds [OF assms(1), of s 0 ts] by simp
qed

lemma submitBatch_adds:
  assumes "tb_laws c v" "submitBatch c ts rs s = (s', r)"
  shows "adds v s s' (\<lambda>i u. u \<in> set ts \<and> i = tr_ID u)"
  using assms(2) create_adds [OF assms(1), of s ts]
  by (auto simp: submitBatch_def split: prod.splits sum.splits)

lemma usage_adds:
  assumes "tb_laws c v" "SubmitUsageBatch c us s = (s', r)"
  shows "adds v s s' (\<lambda>i t. \<exists>u \<in> set us. usage_transfer u = Inr t \<and> i = ut_TransferID u)"
proof (cases "traverse usage_transfer us")
  case (Inl e)
  then show ?thesis using assms(2) by (simp add: SubmitUsageBatch_def adds_same)
next
  case (Inr ts)
  then have "submitBatch c ts (map ut_Resource us) s = (s', r)"
    using assms(2) by (simp add: SubmitUsageBatch_def)
  from submitBatch_adds [OF assms(1) this] show ?thesis
    by (rule adds_mono) (use traverse_set [OF Inr] usage_transferD(1) in fastforce)
qed

lemma random_frame:
  assumes "tb_laws c v" "given_or_random c i s = (s', j)"
  shows "committed v s' = committed v s"
  using assms randomD(2) [OF assms(1), of s s' j] by (auto simp: given_or_random_def RandomID_def split: if_splits)

lemma new_pending_ids_frame:
  assumes "tb_laws c v"
  shows "new_pending_ids c us s = (s', ids) \<Longrightarrow> committed v s' = committed v s"
proof (induction us arbitrary: s ids)
  case (Cons u us)
  then show ?case by (auto split: prod.splits) (metis random_frame [OF assms])
qed simp

lemma gauge_loop_frame:
  assumes "tb_laws c v"
  shows "gauge_loop c i us s = (s', r) \<Longrightarrow> committed v s' = committed v s"
proof (induction us arbitrary: i s r)
  case (Cons x us)
  obtain u newID where x: "x = (u, newID)" by fastforce
  obtain s1 r1 where g: "gauge_transfers c i u newID s = (s1, r1)" by fastforce
  then have "committed v s1 = committed v s"
    using random_frame [OF assms, of "gu_VoidTransferID u" s]
    by (auto simp: gauge_transfers_def split: prod.splits sum.splits option.splits if_splits)
  with Cons g x show ?case by (auto split: prod.splits sum.splits)
qed simp

lemma gauge_adds:
  assumes "tb_laws c v" "SubmitGaugePendingUpdates c us s = (s', r)"
  shows "adds v s s' (\<lambda>i t. gauge_event t)"
proof -
  obtain s1 newIDs where ids: "new_pending_ids c us s = (s1, newIDs)" by fastforce
  obtain s2 x where loop: "gauge_loop c 0 (zip us newIDs) s1 = (s2, x)" by fastforce
  have frame: "committed v s2 = committed v s"
    using new_pending_ids_frame [OF assms(1) ids] gauge_loop_frame [OF assms(1) loop] by simp
  show ?thesis
  proof (cases "x = Inr [] \<or> isl x \<or> us = []")
    case True
    then show ?thesis
      using assms(2) ids loop frame
      by (auto simp: SubmitGaugePendingUpdates_def Let_def adds_same split: if_splits sum.splits list.splits)
  next
    case False
    then obtain tms where tms: "x = Inr tms" "tms \<noteq> []" "us \<noteq> []" by (cases x) auto
    obtain s3 y where call: "CreateTransfers c s2 (map fst tms) = (s3, y)" by fastforce
    then have "s' = s3"
      using assms(2) ids loop tms
      by (cases tms; cases y) (auto simp: SubmitGaugePendingUpdates_def Let_def)
    moreover have "adds v s2 s3 (\<lambda>i t. gauge_event t)"
      using create_adds [OF assms(1) call]
      by (rule adds_mono) (use gauge_loop_events [of c 0 "zip us newIDs" s1 s2 tms] loop tms in blast)
    ultimately show ?thesis using frame by (simp add: adds_def)
  qed
qed

section \<open>Attempts of the TigerBeetle activities\<close>

datatype tb_attempt =
    BatchAttempt "(string, HeartbeatSignal) gomap \<Rightarrow> (string, HeartbeatSignal) gomap" TBBatchInput
  | AllocationAttempt SubmitAllocationInput
  | AccountsAttempt bytes16
  | GlobalAttempt "(GlobalAccountKey, bytes16) gomap"

fun run_attempt :: "'tb tb_client \<Rightarrow> hash \<Rightarrow> tb_attempt \<Rightarrow> 'tb \<Rightarrow> 'tb" where
  "run_attempt c H (BatchAttempt iter input) s = fst (SubmitTBBatch c H iter input s)"
| "run_attempt c H (AllocationAttempt input) s = fst (SubmitAllocationTransfers c input s)"
| "run_attempt c H (AccountsAttempt t) s = fst (CreateTenantTBAccounts c t s)"
| "run_attempt c H (GlobalAttempt m) s = fst (CreateGlobalAccounts c m s)"

definition run_attempts :: "'tb tb_client \<Rightarrow> hash \<Rightarrow> tb_attempt list \<Rightarrow> 'tb \<Rightarrow> 'tb" where
  "run_attempts c H as s = fold (run_attempt c H) as s"

interpretation attempt_call: ledger_call c "run_attempt c H a" for c H a
  by unfold_locales
     (cases a; simp add: batch_activity.reach allocation_activity.reach accounts_activity.reach
      global_accounts_call.reach)

lemma run_attempts_reach: "tb_reach c s0 s \<Longrightarrow> tb_reach c s0 (run_attempts c H as s)"
  unfolding run_attempts_def by (induction as arbitrary: s) (simp_all add: attempt_call.reach_from)

interpretation attempts_call: ledger_call c "run_attempts c H as" for c H as
  by unfold_locales (rule run_attempts_reach [OF reach_refl])

section \<open>What an attempt adds\<close>

text \<open>The heartbeats behind a list of attempts, and the usage one of them puts on the ledger.\<close>

fun heartbeats_of :: "tb_attempt \<Rightarrow> HeartbeatSignal list" where
  "heartbeats_of (BatchAttempt iter input) = bi_Heartbeats input"
| "heartbeats_of _ = []"

definition usage_from :: "hash \<Rightarrow> TBBatchInput \<Rightarrow> bytes16 \<Rightarrow> Transfer \<Rightarrow> bool" where
  "usage_from H input i t \<longleftrightarrow>
     (\<exists>hb \<in> set (bi_Heartbeats input). \<exists>r \<in> set AllResources. \<exists>u.
        usage_of_heartbeat H input hb r = Inr (Some u) \<and> usage_transfer u = Inr t \<and> i = ut_TransferID u)"

lemma batch_activity_adds:
  assumes "tb_laws c v" "SubmitTBBatch c H iter input s = (s', r)"
  shows "adds v s s' (\<lambda>i t. gauge_event t \<or> usage_from H input i t)"
proof -
  obtain us where us: "usage_transfers H input = Inr us" using usage_transfers_total by blast
  obtain s1 x where part: "submit_usage_part c us s = (s1, x)" by fastforce
  have a1: "adds v s s1 (\<lambda>i t. gauge_event t \<or> usage_from H input i t)"
  proof (cases "us = []")
    case True
    then show ?thesis using part by (simp add: submit_usage_part_def adds_same)
  next
    case False
    obtain s1' y where call: "SubmitUsageBatch c us s = (s1', y)" by fastforce
    then have "s1 = s1'" using part False by (cases y) (auto simp: submit_usage_part_def)
    moreover have "usage_from H input i t"
      if "\<exists>u \<in> set us. usage_transfer u = Inr t \<and> i = ut_TransferID u" for i t
      using that usage_transfers_mem [OF us] unfolding usage_from_def by blast
    ultimately show ?thesis using usage_adds [OF assms(1) call] by (auto intro: adds_mono)
  qed
  show ?thesis
  proof (cases x)
    case (Inl e)
    then show ?thesis using assms(2) us part a1 by (simp add: SubmitTBBatch_def)
  next
    case (Inr m)
    let ?gs = "map snd (gauge_updates input (iter (latest_by_cluster (bi_Heartbeats input) [])))"
    obtain s2 y where call: "SubmitGaugePendingUpdates c ?gs s1 = (s2, y)" by fastforce
    have "adds v s1 s2 (\<lambda>i t. gauge_event t \<or> usage_from H input i t)"
      using gauge_adds [OF assms(1) call] by (rule adds_mono) simp
    moreover have "s' = s1 \<or> s' = s2"
      using assms(2) us part Inr call by (cases y) (auto simp: SubmitTBBatch_def Let_def split: if_splits)
    ultimately show ?thesis using a1 adds_trans [OF a1] by auto
  qed
qed

lemma build_allocations_frame:
  assumes "tb_laws c v"
  shows "build_allocations c as s = (s', r) \<Longrightarrow> committed v s' = committed v s"
proof (induction as arbitrary: s r)
  case (Cons a as)
  obtain s1 i where g: "given_or_random c (at_TransferID a) s = (s1, i)" by fastforce
  with random_frame [OF assms g] Cons show ?case by (auto split: prod.splits sum.splits)
qed simp

lemma build_allocations_mem:
  "build_allocations c as s = (s', Inr ts) \<Longrightarrow> t \<in> set ts \<Longrightarrow> \<exists>a \<in> set as. DebitAccountID t = at_OperatorID a"
proof (induction as arbitrary: s ts)
  case (Cons a as)
  then obtain s1 i u us where "allocation_transfer a i = Inr u" "build_allocations c as s1 = (s', Inr us)"
    "ts = u # us" by (auto split: prod.splits sum.splits)
  with Cons allocation_transferD(2) show ?case by fastforce
qed simp

lemma allocations_adds:
  assumes "tb_laws c v" "SubmitAllocations c as s = (s', r)"
  shows "adds v s s' (\<lambda>i t. \<exists>a \<in> set as. DebitAccountID t = at_OperatorID a)"
proof -
  obtain s1 x where b: "build_allocations c as s = (s1, x)" by fastforce
  note frame = build_allocations_frame [OF assms(1) b]
  show ?thesis
  proof (cases x)
    case (Inl e)
    then show ?thesis using assms(2) b frame by (simp add: SubmitAllocations_def adds_same)
  next
    case (Inr ts)
    then have "submitBatch c ts (map at_Resource as) s1 = (s', r)"
      using assms(2) b by (simp add: SubmitAllocations_def)
    from submitBatch_adds [OF assms(1) this] have "adds v s1 s' (\<lambda>i t. \<exists>a \<in> set as. DebitAccountID t = at_OperatorID a)"
      by (rule adds_mono) (use build_allocations_mem [of c as s s1 ts] b Inr in blast)
    then show ?thesis using frame by (simp add: adds_def)
  qed
qed

lemma allocation_activity_adds:
  assumes "tb_laws c v" "SubmitAllocationTransfers c input s = (s', r)"
  shows "adds v s s' (\<lambda>i t. DebitAccountID t \<in> snd ` set (ai_GlobalOperatorIDs input))"
proof -
  let ?as = "collect (map (allocation_of_credit input) (ai_Credits input))"
  have op: "at_OperatorID a \<in> snd ` set (ai_GlobalOperatorIDs input)" if "a \<in> set ?as" for a
    using that
    by (force simp: set_collect allocation_of_credit_def image_iff split: option.splits dest: map_of_SomeD)
  obtain s1 x where call: "SubmitAllocations c ?as s = (s1, x)" by fastforce
  then have "s' = s \<or> s' = s1"
    using assms(2) by (cases x) (auto simp: SubmitAllocationTransfers_def Let_def split: if_splits)
  then show ?thesis
    using allocations_adds [OF assms(1) call] op by (auto simp: adds_same elim!: adds_mono)
qed

lemma id_or_random_frame:
  assumes "tb_laws c v" "id_or_random c m k s = (s', i)"
  shows "committed v s' = committed v s"
  using assms(2) randomD(2) [OF assms(1), of s s' i]
  by (auto simp: id_or_random_def RandomID_def split: option.splits)

lemma tenant_loop_frame:
  assumes "tb_laws c v"
  shows "tenant_loop c d m todo res accounts rs s = (s', x) \<Longrightarrow> committed v s' = committed v s"
proof (induction todo arbitrary: res accounts rs s)
  case (Cons r todo)
  obtain s1 i where g: "id_or_random c m r s = (s1, i)" by fastforce
  with id_or_random_frame [OF assms g] Cons show ?case by (auto split: sum.splits)
qed simp

lemma global_loop_frame:
  assumes "tb_laws c v"
  shows "global_loop c m todo res accounts keys s = (s', x) \<Longrightarrow> committed v s' = committed v s"
proof (induction todo arbitrary: res accounts keys s)
  case (Cons k todo)
  obtain s1 i where g: "id_or_random c m k s = (s1, i)" by fastforce
  with id_or_random_frame [OF assms g] Cons show ?case by (auto split: sum.splits)
qed simp

lemma tenant_accounts_frame:
  assumes "tb_laws c v"
  shows "committed v (fst (CreateTenantQuotaAccounts c t m s)) = committed v s"
proof -
  obtain s1 x where l: "tenant_loop c (UUIDToUint128 t) m AllResources [] [] [] s = (s1, x)" by fastforce
  show ?thesis
  proof (cases x)
    case (Inl e)
    then show ?thesis using l tenant_loop_frame [OF assms l] by (simp add: CreateTenantQuotaAccounts_def)
  next
    case (Inr y)
    obtain res accounts rs where y: "y = (res, accounts, rs)" by (cases y) auto
    obtain s2 z where call: "CreateAccounts c s1 accounts = (s2, z)" by fastforce
    have "fst (CreateTenantQuotaAccounts c t m s) = s2"
      using l Inr y call by (cases z) (auto simp: CreateTenantQuotaAccounts_def split: sum.splits)
    then show ?thesis using accountsD(1) [OF assms call] tenant_loop_frame [OF assms l] by simp
  qed
qed

lemma global_accounts_frame:
  assumes "tb_laws c v"
  shows "committed v (fst (CreateGlobalAccounts c m s)) = committed v s"
proof -
  obtain s1 x where l: "global_loop c m global_keys [] [] [] s = (s1, x)" by fastforce
  show ?thesis
  proof (cases x)
    case (Inl e)
    then show ?thesis using l global_loop_frame [OF assms l] by (simp add: CreateGlobalAccounts_def)
  next
    case (Inr y)
    obtain res accounts rs where y: "y = (res, accounts, rs)" by (cases y) auto
    obtain s2 z where call: "CreateAccounts c s1 accounts = (s2, z)" by fastforce
    have "fst (CreateGlobalAccounts c m s) = s2"
      using l Inr y call by (cases z) (auto simp: CreateGlobalAccounts_def split: sum.splits)
    then show ?thesis using accountsD(1) [OF assms call] global_loop_frame [OF assms l] by simp
  qed
qed

lemma accounts_activity_adds:
  assumes "tb_laws c v"
  shows "adds v s (run_attempt c H (AccountsAttempt t) s) Q" "adds v s (run_attempt c H (GlobalAttempt m) s) Q"
  using tenant_accounts_frame [OF assms, of t "[]" s] global_accounts_frame [OF assms, of m s]
  by (cases "CreateTenantQuotaAccounts c t [] s"; cases "snd (CreateTenantQuotaAccounts c t [] s)";
      auto simp: CreateTenantTBAccounts_def adds_same)+

section \<open>Charges are bounded by the distinct heartbeats\<close>

lemma sum_by_keys:
  fixes f :: "'i \<Rightarrow> nat"
  assumes "finite K" "finite B" "\<And>i. i \<in> B \<Longrightarrow> f i \<noteq> 0 \<Longrightarrow> \<exists>k \<in> K. i = g k \<and> f i = d k"
  shows "sum f B \<le> sum d K"
proof -
  let ?B = "{i \<in> B. f i \<noteq> 0}"
  have "\<forall>i \<in> ?B. \<exists>k. k \<in> K \<and> g k = i \<and> d k = f i" using assms(3) by fastforce
  from bchoice [OF this] obtain h where h: "\<forall>i \<in> ?B. h i \<in> K \<and> g (h i) = i \<and> d (h i) = f i" ..
  have "inj_on h ?B" by (rule inj_on_inverseI [of _ g]) (use h in auto)
  have "sum f B = sum f ?B" by (rule sum.mono_neutral_right) (use assms(2) in auto)
  also have "\<dots> = sum (d \<circ> h) ?B" by (rule sum.cong) (use h in auto)
  also have "\<dots> = sum d (h ` ?B)" using \<open>inj_on h ?B\<close> by (simp add: sum.reindex)
  also have "\<dots> \<le> sum d K" by (rule sum_mono2) (use assms(1) h in auto)
  finally show ?thesis .
qed

text \<open>A transfer a list of attempts may post against account \<open>j\<close>: the delta of one heartbeat.\<close>

definition charge_of :: "hash \<Rightarrow> uint32 \<Rightarrow> (bytes16 \<times> uint64 \<Rightarrow> nat) \<Rightarrow> HeartbeatSignal set \<Rightarrow>
    bytes16 \<Rightarrow> Transfer \<Rightarrow> bool" where
  "charge_of H l delta hbs i t \<longleftrightarrow>
     (\<exists>hb \<in> hbs. i = DeriveTransferID H (ClusterUUID hb) (SequenceNumber hb) l \<and>
        unat (Amount t) = delta (ClusterUUID hb, SequenceNumber hb))"

lemma posted_by_charges:
  assumes keep: "\<And>i t. committed v s0 i = Some t \<Longrightarrow> committed v s i = Some t"
    and new: "adds v s0 s (\<lambda>i t. posting t \<and> DebitAccountID t = j \<longrightarrow> charge_of H l delta hbs i t)"
    and fin: "finite hbs"
  shows "posted_debits v s j \<le> posted_debits v s0 j +
    sum delta ((\<lambda>hb. (ClusterUUID hb, SequenceNumber hb)) ` hbs)"
proof -
  let ?K = "(\<lambda>hb. (ClusterUUID hb, SequenceNumber hb)) ` hbs"
  let ?f = "\<lambda>m i. case m i of None \<Rightarrow> 0 | Some t \<Rightarrow> if posting t \<and> DebitAccountID t = j then unat (Amount t) else 0"
  let ?A = "{i. committed v s0 i \<noteq> None}"
  have split: "posted_debits v s j = sum (?f (committed v s)) ?A + sum (?f (committed v s)) (- ?A)"
    unfolding posted_debits_def total_def by (subst sum.union_disjoint [symmetric]) simp_all
  have "sum (?f (committed v s)) ?A = sum (?f (committed v s0)) ?A"
    by (rule sum.cong) (use keep in \<open>fastforce split: option.splits\<close>)+
  also have "\<dots> = posted_debits v s0 j"
    unfolding posted_debits_def total_def by (rule sum.mono_neutral_left) (auto split: option.splits)
  finally have old: "sum (?f (committed v s)) ?A = posted_debits v s0 j" .
  have "sum (?f (committed v s)) (- ?A) \<le> sum delta ?K"
  proof (rule sum_by_keys [where g = "\<lambda>k. DeriveTransferID H (fst k) (snd k) l"])
    fix i assume i: "i \<in> - ?A" "?f (committed v s) i \<noteq> 0"
    then obtain t where t: "committed v s i = Some t" "posting t" "DebitAccountID t = j"
      "?f (committed v s) i = unat (Amount t)"
      by (auto split: option.splits if_splits)
    have "committed v s0 i \<noteq> Some t" using i(1) by simp
    with t new have "charge_of H l delta hbs i t" unfolding adds_def by blast
    then show "\<exists>k \<in> ?K. i = DeriveTransferID H (fst k) (snd k) l \<and> ?f (committed v s) i = delta k"
      using t(4) by (auto simp: charge_of_def)
  qed (use fin in simp_all)
  with split old show ?thesis by simp
qed

text \<open>Account \<open>j\<close> is the wallet of resource \<open>r\<close> and of no other posted resource, and no operator's.\<close>

fun wallet_of :: "bytes16 \<Rightarrow> ResourceType \<Rightarrow> tb_attempt \<Rightarrow> bool" where
  "wallet_of j r (BatchAttempt iter input) \<longleftrightarrow>
     (\<forall>r' \<in> set AllResources. map_of (TenantQuotaIDs (bi_AccountMap input)) r' = Some j \<longrightarrow> r' = r)"
| "wallet_of j r (AllocationAttempt input) \<longleftrightarrow> j \<notin> snd ` set (ai_GlobalOperatorIDs input)"
| "wallet_of j r _ \<longleftrightarrow> True"

lemma attempt_charges:
  assumes "tb_laws c v" "wallet_of j r a" "LedgerID r = Inr l" "set (heartbeats_of a) \<subseteq> hbs"
    "\<forall>hb \<in> hbs. unat (heartbeatAmount hb r) = delta (ClusterUUID hb, SequenceNumber hb)"
  shows "adds v s (run_attempt c H a s) (\<lambda>i t. posting t \<and> DebitAccountID t = j \<longrightarrow> charge_of H l delta hbs i t)"
proof (cases a)
  case (BatchAttempt iter input)
  have "charge_of H l delta hbs i t"
    if use: "usage_from H input i t" and j: "DebitAccountID t = j" for i t
  proof -
    obtain hb r' u where u: "hb \<in> set (bi_Heartbeats input)" "r' \<in> set AllResources"
      "usage_of_heartbeat H input hb r' = Inr (Some u)" "usage_transfer u = Inr t" "i = ut_TransferID u"
      using use unfolding usage_from_def by blast
    note h = usage_of_heartbeat_Some [OF u(3)] and d = usage_transferD [OF u(4)]
    have "r' = r" using assms(2) BatchAttempt h(6) d(2) j u(2) by simp
    moreover have "hb \<in> hbs" using assms(4) BatchAttempt u(1) by auto
    ultimately show ?thesis
      using h(3,5) d(4) u(5) assms(3,5) by (auto simp: charge_of_def)
  qed
  note charge = this
  have "adds v s (fst (SubmitTBBatch c H iter input s))
      (\<lambda>i t. posting t \<and> DebitAccountID t = j \<longrightarrow> charge_of H l delta hbs i t)"
    by (rule adds_mono [OF batch_activity_adds [OF assms(1) prod.collapse [symmetric]]])
       (use charge gauge_event_not_posting in blast)
  then show ?thesis using BatchAttempt by simp
next
  case (AllocationAttempt input)
  have "adds v s (fst (SubmitAllocationTransfers c input s))
      (\<lambda>i t. posting t \<and> DebitAccountID t = j \<longrightarrow> charge_of H l delta hbs i t)"
    by (rule adds_mono [OF allocation_activity_adds [OF assms(1) prod.collapse [symmetric]]])
       (use assms(2) AllocationAttempt in auto)
  then show ?thesis using AllocationAttempt by simp
next
  case (AccountsAttempt t)
  then show ?thesis using accounts_activity_adds(1) [OF assms(1), where H = H and t = t] by simp
next
  case (GlobalAttempt m)
  then show ?thesis using accounts_activity_adds(2) [OF assms(1), where H = H and m = m] by simp
qed

lemma attempts_charges:
  assumes "tb_laws c v" "list_all (wallet_of j r) as" "LedgerID r = Inr l"
    "set (concat (map heartbeats_of as)) \<subseteq> hbs"
    "\<forall>hb \<in> hbs. unat (heartbeatAmount hb r) = delta (ClusterUUID hb, SequenceNumber hb)"
  shows "adds v s (run_attempts c H as s)
    (\<lambda>i t. posting t \<and> DebitAccountID t = j \<longrightarrow> charge_of H l delta hbs i t)"
  using assms(2,4) unfolding run_attempts_def
proof (induction as arbitrary: s)
  case (Cons a as)
  have "adds v s (run_attempt c H a s) (\<lambda>i t. posting t \<and> DebitAccountID t = j \<longrightarrow> charge_of H l delta hbs i t)"
    by (rule attempt_charges [OF assms(1) _ assms(3) _ assms(5)]) (use Cons.prems in auto)
  moreover have "adds v (run_attempt c H a s) (fold (run_attempt c H) as (run_attempt c H a s))
      (\<lambda>i t. posting t \<and> DebitAccountID t = j \<longrightarrow> charge_of H l delta hbs i t)"
    by (rule Cons.IH) (use Cons.prems in auto)
  ultimately show ?case by (simp add: adds_trans)
qed (simp add: adds_same)

text \<open>The bound on a wallet's posted debits, over any set of heartbeats that covers the attempts.\<close>

lemma attempts_bounded:
  assumes "tb_laws c v" "books v s" "acct v s j = Some a" "list_all (wallet_of j r) as" "LedgerID r = Inr l"
    "set (concat (map heartbeats_of as)) \<subseteq> hbs" "finite hbs"
    "\<forall>hb \<in> hbs. unat (heartbeatAmount hb r) = delta (ClusterUUID hb, SequenceNumber hb)"
  shows "\<exists>b. acct v (run_attempts c H as s) j = Some b \<and>
    unat (DebitsPosted b) \<le> unat (DebitsPosted a) +
      sum delta ((\<lambda>hb. (ClusterUUID hb, SequenceNumber hb)) ` hbs)"
proof -
  let ?s = "run_attempts c H as s"
  obtain b where b: "acct v ?s j = Some b"
    using attempts_call.keeps_account [OF assms(1,3), of H as] by blast
  have "posted_debits v ?s j \<le> posted_debits v s j +
      sum delta ((\<lambda>hb. (ClusterUUID hb, SequenceNumber hb)) ` hbs)"
    using attempts_charges [OF assms(1,4-6,8), of s H] assms(7)
    by (intro posted_by_charges) (auto intro: attempts_call.keeps_transfer [OF assms(1)])
  moreover have "unat (DebitsPosted b) = posted_debits v ?s j" "unat (DebitsPosted a) = posted_debits v s j"
    using attempts_call.keeps_books [OF assms(1,2), of H as] b assms(2,3)
    by (simp_all add: books_def account_books_def)
  ultimately show ?thesis using b by auto
qed

section \<open>Properties\<close>

text \<open>
  C4. Every heartbeat is charged at most once.  Let the TigerBeetle activities run in any order
  and any number of times, with any batches (retries, duplicated heartbeats, overlapping
  batches, failed attempts).  If each cluster reports one amount per sequence number, then the
  posted debits of a wallet grow by at most the sum of those amounts over the distinct pairs
  of cluster and sequence number that were ever submitted.
\<close>

theorem heartbeat_charged_at_most_once:
  assumes "tb_laws c v" "books v s" "acct v s j = Some a" "list_all (wallet_of j r) as" "LedgerID r = Inr l"
    "\<forall>hb \<in> set (concat (map heartbeats_of as)).
       unat (heartbeatAmount hb r) = delta (ClusterUUID hb, SequenceNumber hb)"
  shows "\<exists>b. acct v (run_attempts c H as s) j = Some b \<and>
    unat (DebitsPosted b) \<le> unat (DebitsPosted a) +
      sum delta ((\<lambda>hb. (ClusterUUID hb, SequenceNumber hb)) ` set (concat (map heartbeats_of as)))"
  by (rule attempts_bounded [OF assms(1-5) order_refl finite_set assms(6)])

definition demo_heartbeat :: "uint64 \<Rightarrow> int64 \<Rightarrow> int32 \<Rightarrow> HeartbeatSignal" where
  "demo_heartbeat n cpu nodes = \<lparr>ClusterID = ''c1'', ClusterUUID = 7, SequenceNumber = n,
     CPUMillisecondsDelta = cpu, MemoryMBSecondsDelta = 0, ActiveNodes = nodes, HeartbeatTimestampNs = 0\<rparr>"

definition demo_input :: "HeartbeatSignal list \<Rightarrow> TBBatchInput" where
  "demo_input hbs = \<lparr>bi_TenantID = ''t1'', bi_TenantUUID = 5,
     bi_AccountMap = \<lparr>OperatorIDs = [],
       TenantQuotaIDs = [(ResourceCPUHours, 1006), (ResourceActiveNodes, 1008)], SinkIDs = []\<rparr>,
     bi_Heartbeats = hbs,
     bi_GlobalOperatorIDs = [(ResourceCPUHours, 1000), (ResourceActiveNodes, 1004)],
     bi_GlobalSinkIDs = [(ResourceCPUHours, 1001), (ResourceActiveNodes, 1005)],
     bi_PendingGaugeIDs = [], bi_NewGaugePendingIDs = [(''c1'', [(ResourceActiveNodes, 801)])],
     bi_GaugeVoidIDs = [(''c1'', [(ResourceActiveNodes, 802)])]\<rparr>"

lemma demo_ledger_books: "books ref_view demo_books"
  by (rule books_kept.reach_keeps [OF demo_books_reach(1) ref_laws empty_books [OF empty_ref_ledger]])

theorem heartbeat_charged_at_most_once_witness:
  "\<exists>b. ref_acct (run_attempts ref_client demo_hash
       [BatchAttempt (\<lambda>m. m) (demo_input [demo_heartbeat 1 60 3]),
        BatchAttempt (\<lambda>m. m) (demo_input [demo_heartbeat 1 60 3])] demo_books) 1006 = Some b \<and>
     unat (DebitsPosted b) \<le> 60"
proof -
  let ?as = "[BatchAttempt (\<lambda>m. m) (demo_input [demo_heartbeat 1 60 3]),
        BatchAttempt (\<lambda>m. m) (demo_input [demo_heartbeat 1 60 3])]"
  have a: "acct ref_view demo_books 1006 = Some ((new_account 1006 1 2 quota_flags 5)\<lparr>CreditsPosted := 100\<rparr>)"
    by (simp add: ref_acct_def demo_books_eval new_account_def)
  have w: "list_all (wallet_of 1006 ResourceCPUHours) ?as"
    by (auto simp: demo_input_def split: if_splits)
  have l: "LedgerID ResourceCPUHours = Inr 1" by (simp add: LedgerID_def)
  have d: "\<forall>hb \<in> set (concat (map heartbeats_of ?as)).
      unat (heartbeatAmount hb ResourceCPUHours) = (\<lambda>_. 60) (ClusterUUID hb, SequenceNumber hb)"
    by (simp add: demo_input_def demo_heartbeat_def heartbeatAmount_def)
  from heartbeat_charged_at_most_once [OF ref_laws demo_ledger_books a w l d, of demo_hash]
  show ?thesis by (simp add: demo_input_def new_account_def)
qed

text \<open>A usage transfer that some batch attempt built for the wallet \<open>w\<close> out of one of its heartbeats.\<close>

definition billed :: "hash \<Rightarrow> tb_attempt list \<Rightarrow> bytes16 \<Rightarrow> bytes16 \<Rightarrow> Transfer \<Rightarrow> bool" where
  "billed H as w i t \<longleftrightarrow>
     (\<exists>iter input hb r u. BatchAttempt iter input \<in> set as \<and> hb \<in> set (bi_Heartbeats input) \<and>
        map_of (TenantQuotaIDs (bi_AccountMap input)) r = Some w \<and>
        usage_of_heartbeat H input hb r = Inr (Some u) \<and> usage_transfer u = Inr t \<and> i = ut_TransferID u)"

lemma billed_debits: "billed H as w i t \<Longrightarrow> posting t \<and> DebitAccountID t = w"
  by (auto simp: billed_def usage_transferD usage_of_heartbeat_def Let_def
      split: if_splits option.splits sum.splits)

lemma billed_within_debits:
  "(\<Sum>i \<in> {i. \<exists>t. committed v s i = Some t \<and> billed H as w i t}. unat (Amount (the (committed v s i)))) \<le>
     posted_debits v s w"
proof -
  let ?S = "{i. \<exists>t. committed v s i = Some t \<and> billed H as w i t}"
  let ?f = "\<lambda>i. case committed v s i of None \<Rightarrow> 0
    | Some t \<Rightarrow> if posting t \<and> DebitAccountID t = w then unat (Amount t) else 0"
  have "(\<Sum>i \<in> ?S. unat (Amount (the (committed v s i)))) = sum ?f ?S"
    by (rule sum.cong) (auto dest: billed_debits)
  also have "\<dots> \<le> sum ?f UNIV" by (rule sum_mono2) simp_all
  finally show ?thesis by (simp add: posted_debits_def total_def)
qed

lemma tenant_wallets:
  assumes "tb_laws c v" "CreateTenantTBAccounts c u s = (s', Inr wallets)" "r \<in> set AllResources"
  obtains w a where "map_of wallets r = Some w" "acct v s' w = Some a" "LedgerID r = Inr (acc_Ledger a)"
    "acc_Code a = AccountCodeTenantQuota" "acc_UserData128 a = u" "DebitsMustNotExceedCredits (acc_Flags a)"
proof -
  obtain ids where call: "CreateTenantQuotaAccounts c u [] s = (s', Inr ids)"
    and w: "wallets = map (\<lambda>(r, i). (r, Uint128ToBytes i)) ids"
    using assms(2) by (auto simp: CreateTenantTBAccounts_def split: prod.splits sum.splits)
  obtain i a where "map_of ids r = Some i" "acct v s' i = Some a" "LedgerID r = Inr (acc_Ledger a)"
    "acc_Code a = AccountCodeTenantQuota" "acc_UserData128 a = u" "DebitsMustNotExceedCredits (acc_Flags a)"
    using tenant_accounts_created [OF assms(1) call assms(3)] by blast
  then show ?thesis by (intro that) (simp_all add: w map_of_map Uint128ToBytes_def)
qed



end
