(* ===== verification/Credit_System.thy ===== *)
theory Credit_System
  imports Billing Provisioning_Workflow
begin

text \<open>
  The composition of a tenant's accounting workflow with the ledger.  A state pairs the step machine
  of theory \<open>Workflow_Machine\<close> with a TigerBeetle state; the workflow's own steps leave the ledger
  alone, and the activities it waits for run on it, any number of times, until one is answered.
\<close>

section \<open>Steps of the composed system\<close>

definition refreshing :: "wf \<Rightarrow> nat" where
  "refreshing w = length (filter (\<lambda>u. case u of Refreshing _ \<Rightarrow> True | Allocating _ _ \<Rightarrow> False) (wf_updates w))"

text \<open>
  \<open>control\<close> is any step of the workflow that is not the answer of a ledger activity: it commits no
  batch and moves no credit update past its allocation.  An \<open>attempt\<close> runs an activity whose answer
  does not reach the workflow; the \<open>done\<close> steps deliver the answer of the last attempt.
\<close>

inductive sys_step :: "'tb tb_client \<Rightarrow> hash \<Rightarrow> wf \<times> 'tb \<Rightarrow> wf \<times> 'tb \<Rightarrow> bool" for c H where
  control: "wf_step H w w' \<Longrightarrow> wf_flushed w' = wf_flushed w \<Longrightarrow> refreshing w' \<le> refreshing w \<Longrightarrow>
    sys_step c H (w, s) (w', s)"
| batch_attempt: "wf_main w = Submitting reason bi \<Longrightarrow>
    sys_step c H (w, s) (w, fst (SubmitTBBatch c H iter bi s))"
| batch_done: "wf_main w = Submitting reason bi \<Longrightarrow> SubmitTBBatch c H iter bi s = (s', Inr result) \<Longrightarrow>
    sys_step c H (w, s) (on_commit result reason w, s')"
| credit_attempt: "Allocating sig a \<in> set (wf_updates w) \<Longrightarrow>
    sys_step c H (w, s) (w, fst (SubmitAllocationTransfers c a s))"
| credit_done: "running w \<Longrightarrow> wf_updates w = us @ Allocating sig a # vs \<Longrightarrow>
    SubmitAllocationTransfers c a s = (s', Inr ()) \<Longrightarrow>
    sys_step c H (w, s)
      (w\<lparr>wf_state := adjust_commit sig (wf_state w), wf_updates := us @ Refreshing sig # vs\<rparr>, s')"

abbreviation sys_reach :: "'tb tb_client \<Rightarrow> hash \<Rightarrow> wf \<times> 'tb \<Rightarrow> wf \<times> 'tb \<Rightarrow> bool" where
  "sys_reach c H \<equiv> (sys_step c H)\<^sup>*\<^sup>*"

text \<open>The workflow in the system makes steps of the workflow.\<close>

lemma sys_workflow_step: "sys_step c H x y \<Longrightarrow> wf_reach H (fst x) (fst y)"
proof (induction rule: sys_step.induct)
  case (batch_done w reason bi iter s s' result)
  then show ?case using committed [of w reason bi H result] by auto
next
  case (credit_done w us sig a vs s s')
  then show ?case using update_credited [of w us sig a vs H] by auto
qed auto

lemma sys_workflow: "sys_reach c H x y \<Longrightarrow> wf_reach H (fst x) (fst y)"
  by (induction rule: rtranclp_induct) (auto dest: sys_workflow_step)

section \<open>The tenant's configuration never changes\<close>

definition same_tenant :: "TenantAccountingInput \<Rightarrow> TenantAccountingState \<Rightarrow> bool" where
  "same_tenant input st \<longleftrightarrow> AccountMap st = in_AccountMap input \<and>
     st_GlobalOperatorIDs st = in_GlobalOperatorIDs input \<and> st_GlobalSinkIDs st = in_GlobalSinkIDs input"

definition tenant_batch :: "TenantAccountingInput \<Rightarrow> TBBatchInput \<Rightarrow> bool" where
  "tenant_batch input bi \<longleftrightarrow> TenantQuotaIDs (bi_AccountMap bi) = in_AccountMap input \<and>
     bi_GlobalOperatorIDs bi = in_GlobalOperatorIDs input \<and> bi_GlobalSinkIDs bi = in_GlobalSinkIDs input"

definition tenant_fixed :: "TenantAccountingInput \<Rightarrow> wf \<Rightarrow> bool" where
  "tenant_fixed input w \<longleftrightarrow> same_tenant input (wf_state w) \<and>
     (\<forall>reason bi. wf_main w = Submitting reason bi \<longrightarrow> tenant_batch input bi) \<and>
     (\<forall>sig a. Allocating sig a \<in> set (wf_updates w) \<longrightarrow>
        snd ` set (ai_GlobalOperatorIDs a) \<subseteq> insert 0 (snd ` set (in_GlobalOperatorIDs input)))"

lemma same_tenant_updates [simp]:
  "same_tenant i (st\<lparr>CurBatch := b\<rparr>) = same_tenant i st" "same_tenant i (st\<lparr>FlushSeqNo := n\<rparr>) = same_tenant i st"
  "same_tenant i (st\<lparr>CurrentFlushInterval := d\<rparr>) = same_tenant i st"
  "same_tenant i (st\<lparr>ProcessedSeqs := p\<rparr>) = same_tenant i st" "same_tenant i (st\<lparr>LastAck := n\<rparr>) = same_tenant i st"
  "same_tenant i (st\<lparr>ExceededResources := x\<rparr>) = same_tenant i st" "same_tenant i (st\<lparr>PendingGaugeIDs := g\<rparr>) = same_tenant i st"
  by (simp_all add: same_tenant_def)

lemma same_tenant_commit [simp]: "same_tenant i (flush_commit result st) = same_tenant i st"
proof -
  have "same_tenant i (fold mark_processed hbs st) = same_tenant i st" for hbs st
    by (induction hbs arbitrary: st) (simp_all add: mark_processed_def)
  then show ?thesis by (simp add: flush_commit_def Let_def)
qed

lemma same_tenant_steps [simp]:
  "same_tenant i (handle_register reg st) = same_tenant i st" "same_tenant i (adjust_commit sig st) = same_tenant i st"
  "same_tenant i (initial_state i)"
  "same_tenant i (initial_state (continue_input st)) = same_tenant i st"
  "same_tenant i (wf_state (finish_flush reason w)) = same_tenant i (wf_state w)"
  by (simp_all add: handle_register_def adjust_commit_def finish_flush_def set_interval_def split: flush_reason.split)
    (simp_all add: same_tenant_def initial_state_def continue_input_def)

lemma flush_begin_tenant:
  "flush_begin H st = (st', Inr bi) \<Longrightarrow> same_tenant i st \<Longrightarrow> tenant_batch i bi"
  by (auto simp: flush_begin_def Let_def same_tenant_def tenant_batch_def split: sum.splits)

lemma tenant_begin:
  assumes "tenant_fixed i w" and "\<forall>reason bi. wf_main w \<noteq> Submitting reason bi"
  shows "tenant_fixed i (begin_flush H reason w)"
proof -
  obtain st r where call: "flush_begin H (wf_state w) = (st, r)" by fastforce
  then have "st = (wf_state w)\<lparr>FlushSeqNo := FlushSeqNo (wf_state w) + 1\<rparr>" by (metis flush_begin_state fst_conv)
  then show ?thesis
    using assms call flush_begin_tenant [of H "wf_state w" st _ i]
    by (auto simp: tenant_fixed_def begin_flush_def wf_simps split: sum.splits if_splits)
qed

lemma tenant_heartbeat:
  assumes "tenant_fixed i w" and "wf_main w = Selecting"
  shows "tenant_fixed i (on_heartbeat H sig w)"
proof (cases rule: on_heartbeat_cases [of w sig H])
  case skip
  then show ?thesis using assms(1) by simp
next
  case (append w1)
  then show ?thesis using assms by (simp add: tenant_fixed_def)
next
  case (full w1)
  have "tenant_fixed i w1" using assms full(2) by (simp add: tenant_fixed_def)
  then show ?thesis using full assms(2) by (simp add: tenant_begin)
qed

lemma tenant_finish: "tenant_fixed i w \<Longrightarrow> tenant_fixed i (finish_flush reason w)"
  by (simp add: tenant_fixed_def wf_simps)

lemma tenant_update:
  assumes "adjust_begin H sig st = (st', Inr a)" and "same_tenant i st"
  shows "snd ` set (ai_GlobalOperatorIDs a) \<subseteq> insert 0 (snd ` set (in_GlobalOperatorIDs i))"
  using assms
  by (auto simp: adjust_begin_def Let_def same_tenant_def split: sum.splits option.splits dest!: map_of_SomeD)

interpretation tenant: wf_invariant H "\<lambda>w. tenant_fixed i w \<and> wf_ok w" for H i
proof
  fix w w' assume step: "wf_step H w w'" and ok: "tenant_fixed i w \<and> wf_ok w"
  have "wf_ok w'" using pc.step [OF step] ok by blast
  moreover from step have "tenant_fixed i w'"
  proof cases
    case (heartbeat sig)
    then show ?thesis using ok by (simp add: tenant_heartbeat)
  next
    case timer
    then show ?thesis using ok by (simp add: tenant_begin)
  next
    case continue
    then show ?thesis using ok by (simp add: tenant_begin)
  next
    case (failed reason input)
    have "tenant_fixed i (w\<lparr>wf_failures := Suc (wf_failures w)\<rparr>)" using ok by (simp add: tenant_fixed_def)
    then show ?thesis using failed by (simp add: on_failure_def tenant_finish)
  next
    case (projected reason)
    then show ?thesis using ok by (simp add: tenant_finish)
  next
    case (update_started sig st allocation)
    then show ?thesis
      using ok tenant_update [OF update_started(4), of i] adjust_begin_fields [OF update_started(4)]
      by (auto simp: tenant_fixed_def)
  next
    case (restarted input)
    then show ?thesis using ok by (auto simp: tenant_fixed_def restart_def wf_ok_def)
  qed (use ok in \<open>auto simp: tenant_fixed_def on_commit_def wf_simps\<close>)
  ultimately show "tenant_fixed i w' \<and> wf_ok w'" by simp
qed

section \<open>What the workflow puts on the ledger\<close>

text \<open>Account \<open>j\<close> is the tenant's wallet for resource \<open>r\<close>, and nobody's operator account.\<close>

definition own_wallet :: "TenantAccountingInput \<Rightarrow> bytes16 \<Rightarrow> ResourceType \<Rightarrow> bool" where
  "own_wallet input j r \<longleftrightarrow> (\<forall>r' \<in> set AllResources. map_of (in_AccountMap input) r' = Some j \<longrightarrow> r' = r) \<and>
     j \<notin> insert 0 (snd ` set (in_GlobalOperatorIDs input))"

definition billed ::
    "'tb tb_client \<Rightarrow> hash \<Rightarrow> bytes16 \<Rightarrow> ResourceType \<Rightarrow> 'tb \<Rightarrow> wf \<times> 'tb \<Rightarrow> bool" where
  "billed c H j r s0 x \<longleftrightarrow> (\<exists>as. snd x = run_attempts c H as s0 \<and> list_all (wallet_of j r) as \<and>
     set (concat (map heartbeats_of as)) \<subseteq> set (wf_received (fst x)))"

lemma received_grows: "wf_step H w w' \<Longrightarrow> set (wf_received w) \<subseteq> set (wf_received w')"
proof (induction rule: wf_step.induct)
  case (heartbeat w sig)
  show ?case by (rule on_heartbeat_cases [of w sig H]) (auto simp: wf_simps)
qed (auto simp: on_commit_def on_failure_def restart_def wf_simps)

lemma billed_more:
  assumes "billed c H j r s0 (w, s)" and "wallet_of j r a"
    and "set (heartbeats_of a) \<subseteq> set (wf_received w)" and "set (wf_received w) \<subseteq> set (wf_received w')"
  shows "billed c H j r s0 (w', run_attempt c H a s)"
proof -
  obtain as where "s = run_attempts c H as s0" "list_all (wallet_of j r) as"
    "set (concat (map heartbeats_of as)) \<subseteq> set (wf_received w)"
    using assms(1) by (auto simp: billed_def)
  then show ?thesis
    using assms(2-4) unfolding billed_def by (intro exI [of _ "as @ [a]"]) (auto simp: run_attempts_def)
qed

lemma batch_is_own:
  assumes "tenant_fixed i w" "wf_ok w" "accounted w" "own_wallet i j r" "wf_main w = Submitting reason bi"
  shows "wallet_of j r (BatchAttempt iter bi)" "set (heartbeats_of (BatchAttempt iter bi)) \<subseteq> set (wf_received w)"
proof -
  show "wallet_of j r (BatchAttempt iter bi)"
    using assms(1,4,5) by (auto simp: tenant_fixed_def tenant_batch_def own_wallet_def)
  have "set (CurBatch (wf_state w)) \<subseteq> set (wf_received w)"
    using assms(3) unfolding accounted_def by (metis UnCI set_mset_mset set_mset_union subsetI)
  then show "set (heartbeats_of (BatchAttempt iter bi)) \<subseteq> set (wf_received w)"
    using assms(2,5) by (simp add: wf_ok_def)
qed

lemma credit_is_own:
  assumes "tenant_fixed i w" "own_wallet i j r" "Allocating sig a \<in> set (wf_updates w)"
  shows "wallet_of j r (AllocationAttempt a)"
proof -
  have "snd ` set (ai_GlobalOperatorIDs a) \<subseteq> insert 0 (snd ` set (in_GlobalOperatorIDs i))"
    using assms(1,3) unfolding tenant_fixed_def by blast
  then show ?thesis using assms(2) by (auto simp only: own_wallet_def wallet_of.simps)
qed

lemma billed_step:
  assumes "sys_step c H x y" and "tenant_fixed i (fst x)" "wf_ok (fst x)" "accounted (fst x)" "own_wallet i j r"
    and "billed c H j r s0 x"
  shows "billed c H j r s0 y"
  using assms
proof (induction rule: sys_step.induct)
  case (control w w' s)
  then show ?case using received_grows [of H w w'] by (fastforce simp: billed_def)
next
  case (batch_attempt w reason bi s iter)
  then show ?case
    using billed_more [of c H j r s0 w s "BatchAttempt iter bi" w] batch_is_own [of i w j r reason bi iter] by simp
next
  case (batch_done w reason bi iter s s' result)
  then show ?case
    using billed_more [of c H j r s0 w s "BatchAttempt iter bi" "on_commit result reason w"]
      batch_is_own [of i w j r reason bi iter] by (simp add: on_commit_def)
next
  case (credit_attempt sig a w s)
  then show ?case
    using billed_more [of c H j r s0 w s "AllocationAttempt a" w] credit_is_own [of i w j r sig a] by simp
next
  case (credit_done w us sig a vs s s')
  let ?w = "w\<lparr>wf_state := adjust_commit sig (wf_state w), wf_updates := us @ Refreshing sig # vs\<rparr>"
  show ?case
    using credit_done billed_more [of c H j r s0 w s "AllocationAttempt a" ?w] credit_is_own [of i w j r sig a] by simp
qed

lemma sys_tenant:
  assumes "sys_reach c H (start input, s0) x"
  shows "tenant_fixed input (fst x)" "wf_ok (fst x)" "accounted (fst x)"
proof -
  have reach: "wf_reach H (start input) (fst x)" using sys_workflow [OF assms] by simp
  have "tenant_fixed input (start input) \<and> wf_ok (start input)"
    by (simp add: tenant_fixed_def wf_ok_def wf_simps)
  then show "tenant_fixed input (fst x)" "wf_ok (fst x)" using tenant.reach [OF reach] by blast+
  show "accounted (fst x)" by (rule accounting.reach [OF reach]) (simp add: accounted_def wf_simps)
qed

lemma sys_billed:
  assumes "sys_reach c H (start input, s0) x" and "own_wallet input j r"
  shows "billed c H j r s0 x"
  using assms(1)
proof (induction rule: rtranclp_induct)
  case base
  show ?case by (auto simp: billed_def run_attempts_def intro!: exI [of _ "[]"])
next
  case (step y z)
  from sys_tenant [OF step(1)] show ?case using billed_step [OF step(2)] step(3) assms(2) by simp
qed

section \<open>What a committed heartbeat leaves on the ledger\<close>

text \<open>The ledger only moves by service calls.\<close>

lemma sys_ledger_step: "sys_step c H x y \<Longrightarrow> tb_reach c (snd x) (snd y)"
proof (induction rule: sys_step.induct)
  case (batch_attempt w reason bi s iter)
  then show ?case using batch_activity.reach [of c s H iter bi] by simp
next
  case (batch_done w reason bi iter s s' result)
  then show ?case using batch_activity.reach [of c s H iter bi] by simp
next
  case (credit_attempt sig a w s)
  then show ?case using allocation_activity.reach [of c s a] by simp
next
  case (credit_done w us sig a vs s s')
  then show ?case using allocation_activity.reach [of c s a] by simp
qed (simp add: reach_refl)

text \<open>A counter the tenant has all three accounts for, with something to charge.\<close>

definition usage_due :: "TenantAccountingInput \<Rightarrow> HeartbeatSignal \<Rightarrow> ResourceType \<Rightarrow> bool" where
  "usage_due input hb r \<longleftrightarrow> r \<in> set AllResources \<and> \<not> IsGauge r \<and> heartbeatAmount hb r \<noteq> 0 \<and>
     map_of (in_GlobalOperatorIDs input) r \<noteq> None \<and> map_of (in_AccountMap input) r \<noteq> None \<and>
     map_of (in_GlobalSinkIDs input) r \<noteq> None"

definition decided :: "'tb tb_view \<Rightarrow> hash \<Rightarrow> 'tb \<Rightarrow> HeartbeatSignal \<Rightarrow> uint32 \<Rightarrow> bool" where
  "decided v H s hb l \<longleftrightarrow> (let i = DeriveTransferID H (ClusterUUID hb) (SequenceNumber hb) l in
     committed v s i \<noteq> None \<or> burnt v s i)"

lemma decided_kept: "tb_reach c s s' \<Longrightarrow> tb_laws c v \<Longrightarrow> decided v H s hb l \<Longrightarrow> decided v H s' hb l"
  unfolding decided_def Let_def
  by (metis burnt_kept.reach_keeps transfer_kept.reach_keeps not_Some_eq)

lemma usage_part_decides:
  assumes "tb_laws c v" "submit_usage_part c us s = (s', Inr m)" "u \<in> set us"
  shows "committed v s' (ut_TransferID u) \<noteq> None \<or> burnt v s' (ut_TransferID u)"
proof -
  obtain rs where call: "SubmitUsageBatch c us s = (s', Inr rs)"
    using assms(2,3) by (auto simp: submit_usage_part_def split: if_splits prod.splits sum.splits)
  obtain k where "k < length us" "u = us ! k" using assms(3) by (auto simp: in_set_conv_nth)
  then show ?thesis
    using usage.results(2,5,6) [OF assms(1) _ call, of k] by (auto simp: list_all_iff)
qed

lemma batch_decides:
  assumes "tb_laws c v" "SubmitTBBatch c H iter bi s = (s', Inr result)" "tenant_batch input bi"
    and "hb \<in> set (bi_Heartbeats bi)" "usage_due input hb r" "LedgerID r = Inr l"
  shows "decided v H s' hb l"
proof -
  obtain us where us: "usage_transfers H bi = Inr us" using usage_transfers_total by blast
  obtain s1 m where part: "submit_usage_part c us s = (s1, Inr m)"
    using assms(2) us by (auto simp: SubmitTBBatch_def split: prod.splits sum.splits)
  obtain u where u: "usage_of_heartbeat H bi hb r = Inr (Some u)"
    "ut_TransferID u = DeriveTransferID H (ClusterUUID hb) (SequenceNumber hb) l"
    using assms(3,5,6) by (auto simp: usage_of_heartbeat_def usage_due_def tenant_batch_def Let_def)
  then have "u \<in> set us" using usage_transfers_mem [OF us] assms(4,5) unfolding usage_due_def by blast
  from usage_part_decides [OF assms(1) part this] have "decided v H s1 hb l"
    using u(2) by (simp add: decided_def)
  moreover have "tb_reach c s1 s'"
  proof -
    let ?gs = "map snd (gauge_updates bi (iter (latest_by_cluster (bi_Heartbeats bi) [])))"
    have "s' = s1 \<or> s' = fst (SubmitGaugePendingUpdates c ?gs s1)"
      using assms(2) us part
      by (auto simp: SubmitTBBatch_def Let_def split: if_splits prod.splits sum.splits)
    then show ?thesis using gauge_call.reach [of c s1 ?gs] by (auto intro: reach_refl)
  qed
  ultimately show ?thesis using decided_kept [OF _ assms(1)] by blast
qed

lemma decided_step:
  assumes "sys_step c H x y" "tb_laws c v" "tenant_fixed input (fst x)" "wf_ok (fst x)"
    and due: "usage_due input hb r" "LedgerID r = Inr l"
    and old: "hb \<in> set (concat (wf_flushed (fst x))) \<Longrightarrow> decided v H (snd x) hb l"
    and hb: "hb \<in> set (concat (wf_flushed (fst y)))"
  shows "decided v H (snd y) hb l"
proof -
  consider (old) "hb \<in> set (concat (wf_flushed (fst x)))"
    | (new) w reason bi iter s s' result where "wf_main w = Submitting reason bi" "x = (w, s)"
        "SubmitTBBatch c H iter bi s = (s', Inr result)" "y = (on_commit result reason w, s')"
        "hb \<in> set (CurBatch (wf_state w))"
    using assms(1) hb by cases (auto simp: on_commit_def)
  then show ?thesis
  proof cases
    case old
    then show ?thesis using decided_kept [OF sys_ledger_step [OF assms(1)] assms(2)] assms(7) by blast
  next
    case new
    then have "tenant_batch input bi" "hb \<in> set (bi_Heartbeats bi)"
      using assms(3,4) by (auto simp: tenant_fixed_def wf_ok_def)
    then show ?thesis using batch_decides [OF assms(2) new(3) _ _ due] new(4) by simp
  qed
qed

lemma sys_decided:
  assumes "sys_reach c H (start input, s0) x" "tb_laws c v" "usage_due input hb r" "LedgerID r = Inr l"
    "hb \<in> set (concat (wf_flushed (fst x)))"
  shows "decided v H (snd x) hb l"
  using assms(1,5)
proof (induction rule: rtranclp_induct)
  case base
  then show ?case by (simp add: wf_simps)
next
  case (step y z)
  show ?case
    by (rule decided_step [OF step(2) assms(2) _ _ assms(3,4) step(3) step(4)])
      (use sys_tenant [OF step(1)] in simp_all)
qed

section \<open>A concrete run of the system\<close>

definition demo_customer :: TenantAccountingInput where
  "demo_customer = \<lparr>in_TenantID = ''t1'', in_TenantUUID = 5, in_AccountMap = [(ResourceCPUHours, 1006)],
     in_GlobalOperatorIDs = [(ResourceCPUHours, 1000)], in_GlobalSinkIDs = [(ResourceCPUHours, 1001)],
     CarryProcessedSeqs = [], CarryPendingGaugeIDs = [], CarryExceededResources = [], CarryLastAck = 0,
     CarryFlushSeqNo = 0\<rparr>"

definition demo_submitting :: wf where
  "demo_submitting = begin_flush demo_hash (ByTimer True)
     (on_heartbeat demo_hash (demo_heartbeat 1 60 0) (start demo_customer))"

definition demo_batch :: TBBatchInput where
  "demo_batch = (case wf_main demo_submitting of Submitting _ bi \<Rightarrow> bi | _ \<Rightarrow> demo_input [])"

lemma demo_submits:
  "wf_main demo_submitting = Submitting (ByTimer True) demo_batch \<and>
   CurBatch (wf_state demo_submitting) = [demo_heartbeat 1 60 0] \<and>
   wf_received demo_submitting = [demo_heartbeat 1 60 0] \<and> wf_flushed demo_submitting = [] \<and>
   \<not> isl (snd (SubmitTBBatch ref_client demo_hash (\<lambda>m. m) demo_batch demo_books))"
  by code_simp

lemma demo_charged:
  obtains w s where "sys_reach ref_client demo_hash (start demo_customer, demo_books) (w, s)"
    "wf_received w = [demo_heartbeat 1 60 0]" "wf_flushed w = [[demo_heartbeat 1 60 0]]"
proof -
  let ?w1 = "on_heartbeat demo_hash (demo_heartbeat 1 60 0) (start demo_customer)"
  obtain s result where call: "SubmitTBBatch ref_client demo_hash (\<lambda>m. m) demo_batch demo_books = (s, Inr result)"
    using demo_submits returned by blast
  have "wf_step demo_hash (start demo_customer) ?w1" by (rule heartbeat) (simp add: wf_simps)
  then have "sys_step ref_client demo_hash (start demo_customer, demo_books) (?w1, demo_books)"
    by (rule control) code_simp+
  moreover have "wf_main ?w1 = Selecting \<and> CurBatch (wf_state ?w1) \<noteq> []" by code_simp
  then have "wf_step demo_hash ?w1 demo_submitting"
    using timer [of ?w1 demo_hash] unfolding demo_submitting_def by simp
  then have "sys_step ref_client demo_hash (?w1, demo_books) (demo_submitting, demo_books)"
    by (rule control) code_simp+
  moreover have "sys_step ref_client demo_hash (demo_submitting, demo_books)
      (on_commit result (ByTimer True) demo_submitting, s)"
    using demo_submits call by (intro batch_done) blast+
  ultimately have "sys_reach ref_client demo_hash (start demo_customer, demo_books)
      (on_commit result (ByTimer True) demo_submitting, s)"
    by (meson converse_rtranclp_into_rtranclp r_into_rtranclp)
  then show ?thesis by (rule that) (use demo_submits in \<open>simp_all add: on_commit_def\<close>)
qed

section \<open>Properties\<close>

text \<open>
  C1. A tenant is never charged for more than its clusters reported.  Run the tenant's workflow
  against the ledger in any interleaving: heartbeats in any order and duplicated, flushes that
  fail and are tried again, activities whose answer is lost, credit updates, restarts as a new
  run.  If each cluster reports one amount of the resource per sequence number, the posted debits
  of the tenant's wallet grow by at most the sum of these amounts over the distinct pairs of
  cluster and sequence number the workflow received.
\<close>

theorem system_bills_reported_usage:
  assumes "tb_laws c v" "books v s0" "acct v s0 j = Some a" "own_wallet input j r" "LedgerID r = Inr l"
    "sys_reach c H (start input, s0) (w, s)"
    "\<forall>hb \<in> set (wf_received w). unat (heartbeatAmount hb r) = delta (ClusterUUID hb, SequenceNumber hb)"
  shows "\<exists>b. acct v s j = Some b \<and> unat (DebitsPosted b) \<le> unat (DebitsPosted a) +
    sum delta ((\<lambda>hb. (ClusterUUID hb, SequenceNumber hb)) ` set (wf_received w))"
proof -
  obtain as where "s = run_attempts c H as s0" "list_all (wallet_of j r) as"
    "set (concat (map heartbeats_of as)) \<subseteq> set (wf_received w)"
    using sys_billed [OF assms(6,4)] by (auto simp: billed_def)
  then show ?thesis using attempts_bounded [OF assms(1-3) _ assms(5) _ finite_set assms(7)] by simp
qed

theorem system_bills_reported_usage_witness:
  "\<exists>w s b. sys_reach ref_client demo_hash (start demo_customer, demo_books) (w, s) \<and> wf_flushed w \<noteq> [] \<and>
     ref_acct s 1006 = Some b \<and> unat (DebitsPosted b) \<le> 60"
proof -
  obtain w s where run: "sys_reach ref_client demo_hash (start demo_customer, demo_books) (w, s)"
    and w: "wf_received w = [demo_heartbeat 1 60 0]" "wf_flushed w = [[demo_heartbeat 1 60 0]]"
    by (rule demo_charged)
  have a: "acct ref_view demo_books 1006 = Some ((new_account 1006 1 2 quota_flags 5)\<lparr>CreditsPosted := 100\<rparr>)"
    by (simp add: ref_acct_def demo_books_eval new_account_def)
  have own: "own_wallet demo_customer 1006 ResourceCPUHours" by (simp add: own_wallet_def demo_customer_def)
  have l: "LedgerID ResourceCPUHours = Inr 1" by (simp add: LedgerID_def)
  have "\<forall>hb \<in> set (wf_received w). unat (heartbeatAmount hb ResourceCPUHours) =
      (\<lambda>_. 60) (ClusterUUID hb, SequenceNumber hb)"
    using w by (simp add: demo_heartbeat_def heartbeatAmount_def)
  from system_bills_reported_usage [OF ref_laws demo_ledger_books a own l run this] run w show ?thesis
    by (intro exI [of _ w] exI [of _ s]) (simp add: new_account_def)
qed

text \<open>
  C7. No committed usage is forgotten.  Once a heartbeat is in a batch the workflow considers
  committed, then at every later moment of every run the ledger has decided on its charge for each
  counter resource it reports and the tenant has accounts for: the transfer of that cluster,
  sequence number and ledger is committed, or the hard limit refused it and its identifier is burnt.
\<close>

theorem system_decides_committed_usage:
  assumes "tb_laws c v" "sys_reach c H (start input, s0) (w, s)" "hb \<in> set (concat (wf_flushed w))"
    "usage_due input hb r" "LedgerID r = Inr l"
  shows "let i = DeriveTransferID H (ClusterUUID hb) (SequenceNumber hb) l in
    committed v s i \<noteq> None \<or> burnt v s i"
  using sys_decided [OF assms(2,1,4,5)] assms(3) by (simp add: decided_def)

theorem system_decides_committed_usage_witness:
  "\<exists>w s. sys_reach ref_client demo_hash (start demo_customer, demo_books) (w, s) \<and>
     (let i = DeriveTransferID demo_hash 7 1 1 in
      committed ref_view s i \<noteq> None \<or> burnt ref_view s i)"
proof -
  obtain w s where run: "sys_reach ref_client demo_hash (start demo_customer, demo_books) (w, s)"
    and w: "wf_received w = [demo_heartbeat 1 60 0]" "wf_flushed w = [[demo_heartbeat 1 60 0]]"
    by (rule demo_charged)
  have due: "usage_due demo_customer (demo_heartbeat 1 60 0) ResourceCPUHours" by code_simp
  have l: "LedgerID ResourceCPUHours = Inr 1" by (simp add: LedgerID_def)
  from system_decides_committed_usage [OF ref_laws run _ due l] run w show ?thesis
    by (intro exI [of _ w] exI [of _ s]) (simp add: demo_heartbeat_def)
qed

end
