(* ===== verification/Cluster_Simulator.thy ===== *)
theory Cluster_Simulator
  imports Heartbeat_Gateway
begin

text \<open>
  The cluster agent of \<open>cmd/simulator/main.go\<close>, with the driver of its scenario.

  \<^item> \<open>ClusterSim.run\<close> is a step relation: the cases of its \<open>select\<close>, the receive goroutine, and the steps
    of the driver that touch the cluster.  Random draws, responses and send errors are arguments of
    the steps.
  \<^item> What the stream carries is a list of requests, each marked as a replay or not; what the terminal
    program is sent is a list of messages.
  \<^item> Workloads are computed in \<open>float64\<close> as written, without fused operations.
\<close>

section \<open>Messages and counters\<close>

datatype EventKind = EventHeartbeatACK | EventUsageDebit | EventHardLimit | EventSoftLimit | EventSurgePack
  | EventDuplicate | EventInfo

record Event =
  ev_Timestamp :: int
  ev_TenantIdx :: int
  ev_Kind :: EventKind
  ev_Message :: string

text \<open>The percentage of a quota is a float; the model keeps its operands, when it is computed at all.\<close>

record QuotaState =
  qt_Resource :: string
  qt_Used :: int64
  qt_Limit :: int64
  qt_Available :: int64
  qt_Pct :: "(int64 \<times> int64) option"
  qt_Status :: string

record TBStats =
  tb_TransfersTotal :: int64
  tb_Rejected :: int64
  tb_Idempotent :: int64

record ClusterState =
  cl_Name :: string
  cl_Region :: string
  cl_Speed :: string
  cl_Connected :: bool
  cl_Seq :: uint64
  cl_AckSeq :: uint64
  cl_RateDesc :: string
  cl_LastSeen :: int

datatype ui_msg =
    eventMsg Event
  | quotaUpdateMsg int "QuotaState list"
  | clusterUpdateMsg int "ClusterState list"
  | tbStatsUpdateMsg int TBStats
  | clusterHeartbeatMsg int string uint64 uint64 int

text \<open>The dash of the messages, in UTF-8.\<close>

definition em_dash :: string where
  "em_dash = map char_of [226, 128, 148 :: nat]"

definition rateDesc :: "int \<Rightarrow> string" where
  "rateDesc d =
     (if d < 1000000000 then decimal (nat (1000000000 div d)) @ '' hb/s''
      else (let secs = d div 1000000000 in
            if secs \<le> 1 then ''1 hb/s'' else ''1 hb/'' @ decimal (nat secs) @ ''s''))"

section \<open>Clusters and tenants\<close>

record ClusterSim =
  cs_id :: string
  cs_label :: string
  cs_tenantIdx :: int
  cs_tickInterval :: int
  cs_usageMult :: fl
  cs_exhaustClosed :: bool
  cs_replayCh :: "uint64 list"
  cs_recentSeqs :: "uint64 list"
  cs_stopped :: bool

definition newClusterSim :: "string \<Rightarrow> int \<Rightarrow> int \<Rightarrow> fl \<Rightarrow> ClusterSim" where
  "newClusterSim label tenantIdx tickInterval usageMult =
     \<lparr>cs_id = [], cs_label = label, cs_tenantIdx = tenantIdx, cs_tickInterval = tickInterval, cs_usageMult = usageMult,
      cs_exhaustClosed = False, cs_replayCh = [], cs_recentSeqs = [], cs_stopped = False\<rparr>"

record TenantSim =
  tn_idx :: int
  tn_tenantID :: string
  tn_name :: string
  tn_tier :: string
  tn_clusters :: "ClusterSim list"
  tn_tbStats :: TBStats

definition recordTransfers :: "int64 \<Rightarrow> TenantSim \<Rightarrow> TenantSim \<times> ui_msg" where
  "recordTransfers n t =
     (let s = (tn_tbStats t)\<lparr>tb_TransfersTotal := tb_TransfersTotal (tn_tbStats t) + n\<rparr> in
      (t\<lparr>tn_tbStats := s\<rparr>, tbStatsUpdateMsg (tn_idx t) s))"

definition recordRejected :: "TenantSim \<Rightarrow> TenantSim \<times> ui_msg" where
  "recordRejected t =
     (let s = (tn_tbStats t)\<lparr>tb_Rejected := tb_Rejected (tn_tbStats t) + 1\<rparr> in
      (t\<lparr>tn_tbStats := s\<rparr>, tbStatsUpdateMsg (tn_idx t) s))"

definition recordIdempotent :: "TenantSim \<Rightarrow> TenantSim \<times> ui_msg" where
  "recordIdempotent t =
     (let s = (tn_tbStats t)\<lparr>tb_Idempotent := tb_Idempotent (tn_tbStats t) + 1\<rparr> in
      (t\<lparr>tn_tbStats := s\<rparr>, tbStatsUpdateMsg (tn_idx t) s))"

definition Millisecond :: int where "Millisecond = 1000000"

text \<open>The floats nearest to 1.0, 0.6, 0.3 and 0.15.\<close>

definition simulated_tenants :: "TenantSim list" where
  "simulated_tenants =
     (let none = \<lparr>tb_TransfersTotal = 0, tb_Rejected = 0, tb_Idempotent = 0\<rparr> in
      [\<lparr>tn_idx = 0, tn_tenantID = [], tn_name = ''Acme Corp'', tn_tier = ''pro'',
        tn_clusters =
          [newClusterSim ''A'' 0 (25 * Millisecond) (1, 0),
           newClusterSim ''B'' 0 (50 * Millisecond) (5404319552844595, 53),
           newClusterSim ''C'' 0 (100 * Millisecond) (5404319552844595, 54)],
        tn_tbStats = none\<rparr>,
       \<lparr>tn_idx = 1, tn_tenantID = [], tn_name = ''Globex Inc'', tn_tier = ''starter'',
        tn_clusters =
          [newClusterSim ''D'' 1 (50 * Millisecond) (5404319552844595, 54),
           newClusterSim ''E'' 1 (100 * Millisecond) (5404319552844595, 55)],
        tn_tbStats = none\<rparr>])"

section \<open>Workload\<close>

text \<open>The draws of one tick: \<open>rand.N(4)\<close>, \<open>rand.N(5)\<close>, and \<open>rand.Float64()\<close> as a multiple of \<open>2^-53\<close>.\<close>

record draws =
  dr_N4 :: nat
  dr_N5 :: nat
  dr_Float64 :: nat

definition drawn :: "draws \<Rightarrow> bool" where
  "drawn d \<longleftrightarrow> dr_N4 d < 4 \<and> dr_N5 d < 5 \<and> dr_Float64 d < 2 ^ 53"

definition sim_nodes :: "bool \<Rightarrow> draws \<Rightarrow> nat" where
  "sim_nodes exhaust d = (if exhaust then dr_N5 d + 18 else dr_N4 d + 2)"

definition sim_util :: "draws \<Rightarrow> fl" where
  "sim_util d = fl_add (1, 1) (fl_mult (dr_Float64 d, 53) (3602879701896397, 53))"

definition cpuDelta :: "bool \<Rightarrow> nat \<Rightarrow> nat \<Rightarrow> fl \<Rightarrow> fl \<Rightarrow> nat" where
  "cpuDelta exhaust tickMs nodes util usageMult =
     (let cpus = fl_mult (tickMs, 0) (2, 0) in
      fl_trunc
        (if exhaust then fl_mult (fl_mult (fl_mult cpus (8, 0)) (nodes, 0)) usageMult
         else fl_mult (fl_mult (fl_mult cpus (nodes, 0)) util) usageMult))"

definition memDelta :: "nat \<Rightarrow> nat \<Rightarrow> fl \<Rightarrow> nat" where
  "memDelta tickMs nodes usageMult =
     fl_trunc (fl_mult (fl_mult (fl_mult (fl_div (tickMs, 0) (1000, 0)) (512, 0)) (nodes, 0)) usageMult)"

section \<open>The agent\<close>

text \<open>
  The locals of \<open>run\<close> with its cluster and tenant; \<open>ag_offers\<close> are the sequence numbers the driver is about
  to put on the replay channel.
\<close>

record agent =
  ag_sim :: ClusterSim
  ag_tenant :: TenantSim
  ag_seq :: uint64
  ag_lastAck :: uint64
  ag_prevAck :: uint64
  ag_exhaust :: bool
  ag_wasStopped :: bool
  ag_running :: bool
  ag_offers :: "uint64 list"
  ag_sent :: "(HeartbeatRequest \<times> bool) list"
  ag_msgs :: "ui_msg list"

definition start_agent :: "ClusterSim \<Rightarrow> TenantSim \<Rightarrow> agent" where
  "start_agent sim tenant =
     \<lparr>ag_sim = sim, ag_tenant = tenant, ag_seq = 0, ag_lastAck = 0, ag_prevAck = 0, ag_exhaust = False,
      ag_wasStopped = False, ag_running = (cs_id sim \<noteq> []), ag_offers = [], ag_sent = [], ag_msgs = []\<rparr>"

definition tell :: "ui_msg \<Rightarrow> agent \<Rightarrow> agent" where
  "tell m a = a\<lparr>ag_msgs := ag_msgs a @ [m]\<rparr>"

definition on_tenant :: "(TenantSim \<Rightarrow> TenantSim \<times> ui_msg) \<Rightarrow> agent \<Rightarrow> agent" where
  "on_tenant f a = (case f (ag_tenant a) of (t, m) \<Rightarrow> tell m (a\<lparr>ag_tenant := t\<rparr>))"

definition tell_event :: "int \<Rightarrow> EventKind \<Rightarrow> string \<Rightarrow> agent \<Rightarrow> agent" where
  "tell_event now kind text a =
     tell (eventMsg \<lparr>ev_Timestamp = now, ev_TenantIdx = cs_tenantIdx (ag_sim a), ev_Kind = kind,
       ev_Message = ''['' @ cs_label (ag_sim a) @ ''] '' @ text\<rparr>) a"

definition set_stopped :: "bool \<Rightarrow> agent \<Rightarrow> agent" where
  "set_stopped b a = a\<lparr>ag_wasStopped := b, ag_sim := (ag_sim a)\<lparr>cs_stopped := b\<rparr>\<rparr>"

text \<open>The receive goroutine.\<close>

definition quota_state :: "QuotaInfo \<Rightarrow> QuotaState" where
  "quota_state q =
     \<lparr>qt_Resource = qi_ResourceType q, qt_Used = qi_Used q, qt_Limit = qi_Limit q, qt_Available = qi_Available q,
      qt_Pct = (if sint (qi_Limit q) > 0 then Some (qi_Used q, qi_Limit q) else None),
      qt_Status =
        (if qi_Status q = STATUS_QUOTA_WARNING then ''warning''
         else if qi_Status q = STATUS_QUOTA_EXCEEDED then ''exceeded'' else ''ok'')\<rparr>"

definition hasKill :: "HeartbeatResponse \<Rightarrow> bool" where
  "hasKill resp = list_ex (\<lambda>cmd. cmd_Type cmd = TYPE_SHUTDOWN) (hp_PendingCommands resp)"

definition obey :: "int \<Rightarrow> HeartbeatResponse \<Rightarrow> agent \<Rightarrow> agent" where
  "obey now resp a =
     (if hasKill resp \<and> \<not> ag_wasStopped a then
        tell_event now EventHardLimit (''KILL SIGNAL '' @ em_dash @ '' stopping all heartbeats (hard limit hit)'')
          (on_tenant recordRejected (set_stopped True a))
      else if \<not> hasKill resp \<and> ag_wasStopped a then
        tell_event now EventInfo (''RESUMED '' @ em_dash @ '' quota restored, heartbeats resuming'') (set_stopped False a)
      else a)"

definition receive_response :: "int \<Rightarrow> HeartbeatResponse \<Rightarrow> agent \<Rightarrow> agent" where
  "receive_response now resp a =
     (let a = a\<lparr>ag_lastAck := hp_AckSequence resp\<rparr>;
          a = (if hp_AckSequence resp > ag_prevAck a
               then (on_tenant (recordTransfers ((hp_AckSequence resp - ag_prevAck a) * 3)) a)\<lparr>ag_prevAck := hp_AckSequence resp\<rparr>
               else a);
          a = (if hp_Quotas resp \<noteq> []
               then tell (quotaUpdateMsg (cs_tenantIdx (ag_sim a)) (map quota_state (hp_Quotas resp))) a else a);
          a = obey now resp a;
          a = (if hp_Status resp = STATUS_QUOTA_WARNING
               then tell_event now EventSoftLimit (''SOFT LIMIT '' @ em_dash @ '' approaching quota'') a
               else tell_event now EventHeartbeatACK (''ack seq='' @ decimal (unat (hp_AckSequence resp))) a)
      in tell (clusterHeartbeatMsg (cs_tenantIdx (ag_sim a)) (cs_label (ag_sim a)) (ag_seq a) (hp_AckSequence resp) now) a)"

text \<open>The cases of the send loop.  A replay goes out whether or not the agent is stopped.\<close>

definition ramp_up :: "agent \<Rightarrow> agent" where
  "ramp_up a = a\<lparr>ag_exhaust := True, ag_sim := (ag_sim a)\<lparr>cs_exhaustClosed := False\<rparr>\<rparr>"

definition send_replay :: "int \<Rightarrow> bool \<Rightarrow> uint64 \<Rightarrow> uint64 list \<Rightarrow> agent \<Rightarrow> agent" where
  "send_replay now sent replaySeq rest a =
     (let req = \<lparr>hr_ClusterId = cs_id (ag_sim a), hr_Timestamp = None, hr_ActiveNodes = 4,
                 hr_CpuMillisecondsDelta = 1000, hr_MemoryMbSecondsDelta = 500, hr_SequenceNumber = replaySeq,
                 hr_LastAckSequence = ag_lastAck a\<rparr>;
          a = a\<lparr>ag_sim := (ag_sim a)\<lparr>cs_replayCh := rest\<rparr>,
                ag_sent := (if sent then ag_sent a @ [(req, True)] else ag_sent a)\<rparr>
      in tell_event now EventDuplicate
           (''replaying seq='' @ decimal (unat replaySeq) @ '' '' @ em_dash @ '' deduped at workflow (processedSeqs)'')
           (on_tenant recordIdempotent a))"

definition fresh_request :: "draws \<Rightarrow> agent \<Rightarrow> HeartbeatRequest" where
  "fresh_request d a =
     (let tickMs = nat (cs_tickInterval (ag_sim a) div Millisecond);
          nodes = sim_nodes (ag_exhaust a) d
      in \<lparr>hr_ClusterId = cs_id (ag_sim a), hr_Timestamp = None, hr_ActiveNodes = of_nat nodes,
          hr_CpuMillisecondsDelta =
            of_nat (cpuDelta (ag_exhaust a) tickMs nodes (sim_util d) (cs_usageMult (ag_sim a))),
          hr_MemoryMbSecondsDelta = of_nat (memDelta tickMs nodes (cs_usageMult (ag_sim a))),
          hr_SequenceNumber = ag_seq a, hr_LastAckSequence = ag_lastAck a\<rparr>)"

definition sim_tick :: "bool \<Rightarrow> draws \<Rightarrow> bool \<Rightarrow> agent \<Rightarrow> agent" where
  "sim_tick paused d sent a =
     (if paused then a
      else if cs_stopped (ag_sim a) then a
      else
        (let seq = ag_seq a + 1;
             recent = cs_recentSeqs (ag_sim a) @ [seq];
             recent = (if length recent > 10 then drop (length recent - 10) recent else recent);
             a = a\<lparr>ag_seq := seq, ag_sim := (ag_sim a)\<lparr>cs_recentSeqs := recent\<rparr>\<rparr>
         in if sent then a\<lparr>ag_sent := ag_sent a @ [(fresh_request d a, False)]\<rparr>
            else a\<lparr>ag_running := False\<rparr>))"

text \<open>
  The driver: clearing the kill switch, closing \<open>exhaustCh\<close> (closing it twice panics), and picking the
  first three recent numbers for replay, each put on the channel when it has a place.
\<close>

definition clear_stop :: "ClusterSim \<Rightarrow> ClusterSim" where
  "clear_stop sim = sim\<lparr>cs_stopped := False\<rparr>"

definition close_exhaust :: "ClusterSim \<Rightarrow> ClusterSim result" where
  "close_exhaust sim =
     (if cs_exhaustClosed sim then Inl (ErrPanic ''close of closed channel'') else Inr (sim\<lparr>cs_exhaustClosed := True\<rparr>))"

definition replay_seqs :: "ClusterSim \<Rightarrow> uint64 list" where
  "replay_seqs sim = (let seqs = cs_recentSeqs sim in if length seqs > 3 then take 3 seqs else seqs)"

definition replayChSize :: nat where "replayChSize = 8"

definition offer_replay :: "uint64 \<Rightarrow> ClusterSim \<Rightarrow> ClusterSim" where
  "offer_replay q sim = sim\<lparr>cs_replayCh := cs_replayCh sim @ [q]\<rparr>"

inductive agent_step :: "agent \<Rightarrow> agent \<Rightarrow> bool" where
  ramped: "ag_running a \<Longrightarrow> cs_exhaustClosed (ag_sim a) \<Longrightarrow> agent_step a (ramp_up a)"
| replayed: "ag_running a \<Longrightarrow> cs_replayCh (ag_sim a) = q # rest \<Longrightarrow> agent_step a (send_replay now sent q rest a)"
| ticked: "ag_running a \<Longrightarrow> drawn d \<Longrightarrow> agent_step a (sim_tick paused d sent a)"
| responded: "agent_step a (receive_response now resp a)"
| cleared: "agent_step a (a\<lparr>ag_sim := clear_stop (ag_sim a)\<rparr>)"
| exhausted: "close_exhaust (ag_sim a) = Inr sim \<Longrightarrow> agent_step a (a\<lparr>ag_sim := sim\<rparr>)"
| replay_asked: "agent_step a (a\<lparr>ag_offers := ag_offers a @ replay_seqs (ag_sim a)\<rparr>)"
| offered: "ag_offers a = q # qs \<Longrightarrow> length (cs_replayCh (ag_sim a)) < replayChSize \<Longrightarrow>
    agent_step a (a\<lparr>ag_offers := qs, ag_sim := offer_replay q (ag_sim a)\<rparr>)"
| shared: "agent_step a (a\<lparr>ag_tenant := t\<rparr>)"

abbreviation agent_reach :: "agent \<Rightarrow> agent \<Rightarrow> bool" where
  "agent_reach \<equiv> agent_step\<^sup>*\<^sup>*"

section \<open>Workloads are bounded\<close>

definition fl_val :: "fl \<Rightarrow> real" where
  "fl_val x = real (fst x) / 2 ^ snd x"

lemma fl_val_nonneg [simp]: "0 \<le> fl_val x"
  by (simp add: fl_val_def)

lemma fl_val_mult: "fl_val (fl_mult x y) \<le> 2 * fl_val x * fl_val y"
proof -
  have "real (float64_nat (fst x * fst y)) \<le> 2 * real (fst x) * real (fst y)"
    using float64_nat_le_double [of "fst x * fst y"] by (metis mult.assoc of_nat_le_iff of_nat_mult of_nat_numeral)
  then show ?thesis by (simp add: fl_val_def fl_mult_def power_add divide_simps)
qed

lemma fl_val_add: "fl_val (fl_add x y) \<le> 2 * (fl_val x + fl_val y)"
proof -
  let ?e = "max (snd x) (snd y)" and ?m = "\<lambda>z. fst z * 2 ^ (max (snd x) (snd y) - snd z)"
  have "fl_val z = real (?m z) / 2 ^ ?e" if "snd z \<le> ?e" for z
    using that by (simp add: fl_val_def divide_simps flip: power_add)
  then have "fl_val x + fl_val y = real (?m x + ?m y) / 2 ^ ?e" by (simp add: add_divide_distrib)
  moreover have "real (float64_nat (?m x + ?m y)) \<le> 2 * real (?m x + ?m y)"
    using float64_nat_le_double [of "?m x + ?m y"] by linarith
  ultimately show ?thesis by (simp add: fl_val_def fl_add_def Let_def divide_right_mono)
qed

lemma fl_trunc_le: "real (fl_trunc x) \<le> fl_val x"
proof -
  have "fst x div 2 ^ snd x * 2 ^ snd x \<le> fst x" by (rule div_times_less_eq_dividend)
  then have "real (fst x div 2 ^ snd x) * 2 ^ snd x \<le> real (fst x)"
    by (metis of_nat_le_iff of_nat_mult of_nat_numeral of_nat_power)
  then show ?thesis by (simp add: fl_val_def fl_trunc_def pos_le_divide_eq)
qed

lemma fl_val_mult_le:
  assumes "fl_val x \<le> a" "fl_val y \<le> b"
  shows "fl_val (fl_mult x y) \<le> 2 * a * b"
proof -
  have "fl_val x * fl_val y \<le> a * b" using assms by (intro mult_mono) (auto intro: order_trans [OF fl_val_nonneg])
  then show ?thesis using fl_val_mult [of x y] by simp
qed

lemma sim_util_le: "drawn d \<Longrightarrow> fl_val (sim_util d) \<le> 3"
proof -
  assume "drawn d"
  then have "fl_val (dr_Float64 d, 53) \<le> 1" by (simp add: fl_val_def drawn_def)
  moreover have "fl_val (3602879701896397, 53) \<le> 1 / 2" by (simp add: fl_val_def)
  ultimately have "fl_val (fl_mult (dr_Float64 d, 53) (3602879701896397, 53)) \<le> 2 * 1 * (1 / 2)" by (rule fl_val_mult_le)
  moreover have "fl_val (1, 1) = 1 / 2" by (simp add: fl_val_def)
  ultimately show ?thesis using fl_val_add [of "(1, 1)" "fl_mult (dr_Float64 d, 53) (3602879701896397, 53)"]
    by (simp add: sim_util_def)
qed

lemma cpuDelta_bound:
  assumes "drawn d" "tickMs \<le> 100" "nodes \<le> 22" "fl_val usageMult \<le> 1"
  shows "cpuDelta exhaust tickMs nodes (sim_util d) usageMult < 2 ^ 20"
proof -
  have ints: "fl_val (tickMs, 0) \<le> 100" "fl_val (2, 0) \<le> 2" "fl_val (8, 0) \<le> 8" "fl_val (nodes, 0) \<le> 22"
    using assms by (simp_all add: fl_val_def)
  note mult = fl_val_mult_le
  note util = sim_util_le [OF assms(1)]
  show ?thesis
  proof (cases exhaust)
    case True
    from mult [OF mult [OF mult [OF mult [OF ints(1,2)] ints(3)] ints(4)] assms(4)] True show ?thesis
      using fl_trunc_le [of "fl_mult (fl_mult (fl_mult (fl_mult (tickMs, 0) (2, 0)) (8, 0)) (nodes, 0)) usageMult"]
      by (simp add: cpuDelta_def)
  next
    case False
    from mult [OF mult [OF mult [OF mult [OF ints(1,2)] ints(4)] util] assms(4)] False show ?thesis
      using fl_trunc_le [of "fl_mult (fl_mult (fl_mult (fl_mult (tickMs, 0) (2, 0)) (nodes, 0)) (sim_util d)) usageMult"]
      by (simp add: cpuDelta_def)
  qed
qed

lemma fl_div_1000_le: "tickMs \<le> 100 \<Longrightarrow> fl_val (fl_div (tickMs, 0) (1000, 0)) \<le> 1"
proof -
  assume tick: "tickMs \<le> 100"
  let ?a = "tickMs * 2 ^ 128 :: nat"
  let ?n = "2 * (?a div 1000) + (if ?a mod 1000 = 0 then 0 else 1)"
  have "?a div 1000 \<le> 100 * 2 ^ 128 div 1000" using tick by (intro div_le_mono mult_le_mono1)
  then have "?n \<le> 2 * (100 * 2 ^ 128 div 1000) + 1" by simp
  then have "float64_nat ?n \<le> 2 * (2 * (100 * 2 ^ 128 div 1000) + 1)" by (intro order_trans [OF float64_nat_le_double] mult_le_mono2)
  also have "\<dots> \<le> 2 ^ 129" by simp
  finally have "real (float64_nat ?n) \<le> 2 ^ 129" by (metis of_nat_le_iff of_nat_numeral of_nat_power)
  then show ?thesis by (simp add: fl_val_def fl_div_def Let_def)
qed

lemma memDelta_bound:
  assumes "tickMs \<le> 100" "nodes \<le> 22" "fl_val usageMult \<le> 1"
  shows "memDelta tickMs nodes usageMult < 2 ^ 20"
proof -
  have ints: "fl_val (512, 0) \<le> 512" "fl_val (nodes, 0) \<le> 22" using assms by (simp_all add: fl_val_def)
  note mult = fl_val_mult_le
  from mult [OF mult [OF mult [OF fl_div_1000_le [OF assms(1)] ints(1)] ints(2)] assms(3)] show ?thesis
    using fl_trunc_le [of "fl_mult (fl_mult (fl_mult (fl_div (tickMs, 0) (1000, 0)) (512, 0)) (nodes, 0)) usageMult"]
    by (simp add: memDelta_def)
qed

section \<open>Sequence numbers\<close>

text \<open>
  \<open>well_numbered n\<close>: after \<open>n\<close> fresh heartbeats, the fresh ones are numbered \<open>n + 1, n + 2, \<dots>\<close>, and each
  replay repeats the number of a fresh one before it.
\<close>

fun well_numbered :: "nat \<Rightarrow> (HeartbeatRequest \<times> bool) list \<Rightarrow> bool" where
  "well_numbered n [] \<longleftrightarrow> True"
| "well_numbered n ((r, True) # rs) \<longleftrightarrow>
     1 \<le> unat (hr_SequenceNumber r) \<and> unat (hr_SequenceNumber r) \<le> n \<and> well_numbered n rs"
| "well_numbered n ((r, False) # rs) \<longleftrightarrow> unat (hr_SequenceNumber r) = n + 1 \<and> well_numbered (n + 1) rs"

definition fresh_count :: "(HeartbeatRequest \<times> bool) list \<Rightarrow> nat" where
  "fresh_count rs = length (filter (\<lambda>(_, replay). \<not> replay) rs)"

lemma fresh_count_simps [simp]:
  "fresh_count [] = 0"
  "fresh_count ((r, b) # rs) = (if b then fresh_count rs else fresh_count rs + 1)"
  "fresh_count (rs @ qs) = fresh_count rs + fresh_count qs"
  by (simp_all add: fresh_count_def)

lemma fresh_count_le: "fresh_count rs \<le> length rs"
  by (simp add: fresh_count_def)

lemma well_numbered_append:
  "well_numbered n (rs @ qs) \<longleftrightarrow> well_numbered n rs \<and> well_numbered (n + fresh_count rs) qs"
  by (induction n rs rule: well_numbered.induct) auto

definition plausible :: "string \<Rightarrow> HeartbeatRequest \<Rightarrow> bool" where
  "plausible i r \<longleftrightarrow> hr_ClusterId r = i \<and> hr_CpuMillisecondsDelta r < 2 ^ 20 \<and> hr_MemoryMbSecondsDelta r < 2 ^ 20 \<and>
     2 \<le> hr_ActiveNodes r \<and> hr_ActiveNodes r \<le> 22"

definition configured :: "ClusterSim \<Rightarrow> bool" where
  "configured sim \<longleftrightarrow> 0 \<le> cs_tickInterval sim \<and> cs_tickInterval sim \<le> 100 * Millisecond \<and> fl_val (cs_usageMult sim) \<le> 1"

definition issued :: "nat \<Rightarrow> uint64 list \<Rightarrow> bool" where
  "issued n qs \<longleftrightarrow> (\<forall>q \<in> set qs. 1 \<le> unat q \<and> unat q \<le> n)"

definition agent_ok :: "string \<Rightarrow> agent \<Rightarrow> bool" where
  "agent_ok i a \<longleftrightarrow>
     configured (ag_sim a) \<and> cs_id (ag_sim a) = i \<and> (\<forall>(r, _) \<in> set (ag_sent a). plausible i r) \<and>
     (length (ag_sent a) < 2 ^ 64 \<longrightarrow>
       well_numbered 0 (ag_sent a) \<and>
       (ag_running a \<longrightarrow>
          unat (ag_seq a) = fresh_count (ag_sent a) \<and>
          issued (unat (ag_seq a)) (cs_recentSeqs (ag_sim a) @ cs_replayCh (ag_sim a) @ ag_offers a)))"

lemma issued_simps [simp]:
  "issued n []" "issued n (q # qs) \<longleftrightarrow> 1 \<le> unat q \<and> unat q \<le> n \<and> issued n qs"
  "issued n (ps @ qs) \<longleftrightarrow> issued n ps \<and> issued n qs"
  by (auto simp: issued_def)

lemma issued_mono: "issued n qs \<Longrightarrow> n \<le> m \<Longrightarrow> issued m qs"
  by (auto simp: issued_def)

lemma issued_subset: "issued n qs \<Longrightarrow> set ps \<subseteq> set qs \<Longrightarrow> issued n ps"
  by (auto simp: issued_def)

lemma unat_of_nat_small: "n < 2 ^ LENGTH('a) \<Longrightarrow> unat (of_nat n :: 'a :: len word) = n"
  by (simp add: unsigned_of_nat take_bit_nat_eq_self)

lemma fresh_plausible:
  assumes "configured (ag_sim a)" "drawn d"
  shows "plausible (cs_id (ag_sim a)) (fresh_request d a)"
proof -
  let ?tick = "nat (cs_tickInterval (ag_sim a) div Millisecond)" and ?nodes = "sim_nodes (ag_exhaust a) d"
  let ?cpu = "cpuDelta (ag_exhaust a) ?tick ?nodes (sim_util d) (cs_usageMult (ag_sim a))"
  let ?mem = "memDelta ?tick ?nodes (cs_usageMult (ag_sim a))"
  have nodes: "2 \<le> ?nodes" "?nodes \<le> 22" using assms(2) by (auto simp: sim_nodes_def drawn_def)
  have tick: "?tick \<le> 100" using assms(1) by (auto simp: configured_def Millisecond_def)
  have mult: "fl_val (cs_usageMult (ag_sim a)) \<le> 1" using assms(1) by (simp add: configured_def)
  have "?cpu < 2 ^ 20" "?mem < 2 ^ 20"
    using cpuDelta_bound [OF assms(2) tick nodes(2) mult] memDelta_bound [OF tick nodes(2) mult] by simp_all
  then have "(of_nat ?cpu :: int64) < 2 ^ 20" "(of_nat ?mem :: int64) < 2 ^ 20"
    by (simp_all add: word_less_nat_alt unat_of_nat_small)
  moreover have "2 \<le> (of_nat ?nodes :: int32)" "(of_nat ?nodes :: int32) \<le> 22"
    using nodes by (simp_all add: word_le_nat_alt unat_of_nat_small)
  ultimately show ?thesis by (simp add: plausible_def fresh_request_def Let_def)
qed

text \<open>What the messages and counters leave alone.\<close>

lemma tell_fields [simp]:
  "ag_sim (tell m a) = ag_sim a" "ag_seq (tell m a) = ag_seq a" "ag_running (tell m a) = ag_running a"
  "ag_offers (tell m a) = ag_offers a" "ag_sent (tell m a) = ag_sent a" "ag_wasStopped (tell m a) = ag_wasStopped a"
  "ag_sim (on_tenant f a) = ag_sim a" "ag_seq (on_tenant f a) = ag_seq a" "ag_running (on_tenant f a) = ag_running a"
  "ag_offers (on_tenant f a) = ag_offers a" "ag_sent (on_tenant f a) = ag_sent a"
  "ag_wasStopped (on_tenant f a) = ag_wasStopped a"
  "ag_sim (tell_event now k s a) = ag_sim a" "ag_seq (tell_event now k s a) = ag_seq a"
  "ag_running (tell_event now k s a) = ag_running a" "ag_offers (tell_event now k s a) = ag_offers a"
  "ag_sent (tell_event now k s a) = ag_sent a" "ag_wasStopped (tell_event now k s a) = ag_wasStopped a"
  by (simp_all add: tell_def on_tenant_def tell_event_def split: prod.split)

lemma response_fields [simp]:
  "ag_seq (receive_response now resp a) = ag_seq a" "ag_running (receive_response now resp a) = ag_running a"
  "ag_offers (receive_response now resp a) = ag_offers a" "ag_sent (receive_response now resp a) = ag_sent a"
  "\<exists>b. ag_sim (receive_response now resp a) = (ag_sim a)\<lparr>cs_stopped := b\<rparr>"
proof -
  have "\<exists>b. ag_sim a = (ag_sim a)\<lparr>cs_stopped := b\<rparr>" by (rule exI [of _ "cs_stopped (ag_sim a)"]) simp
  then show "\<exists>b. ag_sim (receive_response now resp a) = (ag_sim a)\<lparr>cs_stopped := b\<rparr>"
    by (auto simp: receive_response_def obey_def set_stopped_def Let_def)
qed (simp_all add: receive_response_def obey_def set_stopped_def Let_def)

lemma agent_ok_same:
  assumes "agent_ok i a" "ag_seq b = ag_seq a" "ag_running b = ag_running a" "ag_sent b = ag_sent a"
    "cs_id (ag_sim b) = cs_id (ag_sim a)" "configured (ag_sim b) = configured (ag_sim a)"
    "set (cs_recentSeqs (ag_sim b) @ cs_replayCh (ag_sim b) @ ag_offers b) \<subseteq>
       set (cs_recentSeqs (ag_sim a) @ cs_replayCh (ag_sim a) @ ag_offers a)"
  shows "agent_ok i b"
  using assms issued_subset unfolding agent_ok_def by metis

lemma agent_ok_replay:
  assumes "agent_ok i a" "ag_running a" "cs_replayCh (ag_sim a) = q # rest"
  shows "agent_ok i (send_replay now sent q rest a)"
  using assms unfolding agent_ok_def send_replay_def
  by (auto simp: Let_def configured_def plausible_def well_numbered_append word_less_nat_alt word_le_nat_alt)

lemma agent_ok_tick:
  assumes "agent_ok i a" "ag_running a" "drawn d"
  shows "agent_ok i (sim_tick paused d sent a)"
proof (cases "paused \<or> cs_stopped (ag_sim a)")
  case True
  then show ?thesis using assms(1) by (auto simp: sim_tick_def)
next
  case False
  define recent where "recent = (let qs = cs_recentSeqs (ag_sim a) @ [ag_seq a + 1] in
    if length qs > 10 then drop (length qs - 10) qs else qs)"
  define b where "b = a\<lparr>ag_seq := ag_seq a + 1, ag_sim := (ag_sim a)\<lparr>cs_recentSeqs := recent\<rparr>\<rparr>"
  have tick: "sim_tick paused d sent a =
      (if sent then b\<lparr>ag_sent := ag_sent b @ [(fresh_request d b, False)]\<rparr> else b\<lparr>ag_running := False\<rparr>)"
    using False by (simp add: sim_tick_def b_def recent_def Let_def)
  have conf: "configured (ag_sim b)" "cs_id (ag_sim b) = i" "ag_sent b = ag_sent a"
    using assms(1) by (simp_all add: agent_ok_def b_def configured_def)
  have num: "unat (ag_seq b) = fresh_count (ag_sent a) + 1 \<and>
      issued (fresh_count (ag_sent a) + 1) (cs_recentSeqs (ag_sim b) @ cs_replayCh (ag_sim b) @ ag_offers b)"
    if "Suc (length (ag_sent a)) < 2 ^ 64"
  proof -
    have ok: "unat (ag_seq a) = fresh_count (ag_sent a)"
      "issued (unat (ag_seq a)) (cs_recentSeqs (ag_sim a) @ cs_replayCh (ag_sim a) @ ag_offers a)"
      using assms(1,2) Suc_lessD [OF that] unfolding agent_ok_def by blast+
    then have "unat (ag_seq a) + 1 < 2 ^ 64" using fresh_count_le [of "ag_sent a"] that by linarith
    then have seq: "unat (ag_seq a + 1) = unat (ag_seq a) + 1" by (simp add: unat_word_ariths)
    have "set recent \<subseteq> set (cs_recentSeqs (ag_sim a) @ [ag_seq a + 1])"
      by (auto simp: recent_def Let_def dest: in_set_dropD)
    moreover have old: "issued (unat (ag_seq a + 1)) (cs_recentSeqs (ag_sim a) @ cs_replayCh (ag_sim a) @ ag_offers a)"
      using issued_mono [OF ok(2)] seq by simp
    then have "issued (unat (ag_seq a + 1)) (cs_recentSeqs (ag_sim a) @ [ag_seq a + 1])" using seq by simp
    ultimately have "issued (unat (ag_seq a + 1)) recent" by (metis issued_subset)
    then show ?thesis using ok(1) seq old by (simp add: b_def)
  qed
  show ?thesis
  proof (cases sent)
    case True
    have "plausible i (fresh_request d b)" using fresh_plausible [OF conf(1) assms(3)] conf(2) by simp
    moreover have "hr_SequenceNumber (fresh_request d b) = ag_seq b" by (simp add: fresh_request_def Let_def)
    moreover have "well_numbered 0 (ag_sent a)" if "Suc (length (ag_sent a)) < 2 ^ 64"
      using assms(1) Suc_lessD [OF that] unfolding agent_ok_def by blast
    moreover have "\<forall>(r, _) \<in> set (ag_sent a). plausible i r" using assms(1) by (simp add: agent_ok_def)
    ultimately show ?thesis
      using True tick conf num by (simp add: agent_ok_def well_numbered_append)
  next
    case False
    then show ?thesis using tick conf assms(1) by (simp add: agent_ok_def)
  qed
qed

lemma agent_ok_step: "agent_step a b \<Longrightarrow> agent_ok i a \<Longrightarrow> agent_ok i b"
proof (induction rule: agent_step.induct)
  case (responded a now resp)
  obtain c where "ag_sim (receive_response now resp a) = (ag_sim a)\<lparr>cs_stopped := c\<rparr>" using response_fields(5) by blast
  then show ?case by (intro agent_ok_same [OF responded]) (simp_all add: configured_def)
next
  case (exhausted a sim)
  then have "sim = (ag_sim a)\<lparr>cs_exhaustClosed := True\<rparr>" by (simp add: close_exhaust_def split: if_splits)
  then show ?case by (intro agent_ok_same [OF exhausted(2)]) (simp_all add: configured_def)
next
  case (replay_asked a)
  have "set (replay_seqs (ag_sim a)) \<subseteq> set (cs_recentSeqs (ag_sim a))"
    by (auto simp: replay_seqs_def Let_def dest: in_set_takeD)
  then show ?case by (intro agent_ok_same [OF replay_asked]) auto
next
  case (offered a q qs)
  then show ?case by (intro agent_ok_same [OF offered(3)]) (auto simp: offer_replay_def configured_def)
next
  case (ramped a)
  then show ?case by (intro agent_ok_same [OF ramped(3)]) (auto simp: ramp_up_def configured_def)
next
  case (cleared a)
  then show ?case by (intro agent_ok_same [OF cleared]) (auto simp: clear_stop_def configured_def)
next
  case (shared a t)
  then show ?case by (intro agent_ok_same [OF shared]) auto
qed (blast intro: agent_ok_replay agent_ok_tick)+

lemma agent_ok_reach: "agent_reach a b \<Longrightarrow> agent_ok i a \<Longrightarrow> agent_ok i b"
  by (induction rule: rtranclp_induct) (auto intro: agent_ok_step)

lemma simulated_configured: "t \<in> set simulated_tenants \<Longrightarrow> sim \<in> set (tn_clusters t) \<Longrightarrow> configured sim"
  by (auto simp: simulated_tenants_def Let_def newClusterSim_def configured_def Millisecond_def fl_val_def)

text \<open>The high-water mark after a well-numbered prefix is the number of fresh heartbeats in it.\<close>

lemma dedup_run_snd:
  "snd (dedup_run check forget (Check e c q # evs) s) =
     (c, q, snd (check e c q s)) # snd (dedup_run check forget evs (fst (check e c q s)))"
  by (simp split: prod.split)

lemma dedup_well_numbered:
  assumes "well_numbered n rs" "n + fresh_count rs < 2 ^ 64" "length ts = length rs"
    "\<forall>(r, _) \<in> set rs. hr_ClusterId r = i"
    "case map_of (md_entries m) i of None \<Rightarrow> n = 0 | Some e \<Rightarrow> unat (de_seq e) = n"
  shows "snd (dedup_run mem_IsDuplicate mem_prune
      (map2 (\<lambda>t (r, _). Check t (hr_ClusterId r) (hr_SequenceNumber r)) ts rs) m) =
    map (\<lambda>(r, replay). (hr_ClusterId r, hr_SequenceNumber r, replay)) rs"
  using assms
proof (induction n rs arbitrary: ts m rule: well_numbered.induct)
  case (2 n r rs)
  then obtain t ts' where ts: "ts = t # ts'" by (cases ts) auto
  have "mem_IsDuplicate t i (hr_SequenceNumber r) m = (m, True)"
    using 2(2,6) by (auto simp: mem_IsDuplicate_def word_less_nat_alt split: option.splits)
  moreover have "snd (dedup_run mem_IsDuplicate mem_prune
      (map2 (\<lambda>t (r, _). Check t (hr_ClusterId r) (hr_SequenceNumber r)) ts' rs) m) =
    map (\<lambda>(r, replay). (hr_ClusterId r, hr_SequenceNumber r, replay)) rs"
    using 2 ts by (intro 2(1)) auto
  ultimately show ?case using 2(5) ts by (simp add: dedup_run_snd del: dedup_run.simps(2))
next
  case (3 n r rs)
  then obtain t ts' where ts: "ts = t # ts'" by (cases ts) auto
  let ?m = "m\<lparr>md_entries := AList.update i \<lparr>de_seq = hr_SequenceNumber r, de_seenAt = t\<rparr> (md_entries m)\<rparr>"
  have check: "mem_IsDuplicate t i (hr_SequenceNumber r) m = (?m, False)"
    using 3(2,6) by (auto simp: mem_IsDuplicate_def word_less_nat_alt split: option.splits)
  have "snd (dedup_run mem_IsDuplicate mem_prune
      (map2 (\<lambda>t (r, _). Check t (hr_ClusterId r) (hr_SequenceNumber r)) ts' rs) ?m) =
    map (\<lambda>(r, replay). (hr_ClusterId r, hr_SequenceNumber r, replay)) rs"
    using 3 ts by (intro 3(1)) (auto simp: update_conv)
  then show ?case using 3(5) ts check by (simp add: dedup_run_snd del: dedup_run.simps(2))
qed simp

text \<open>
  C30. The simulated clusters behave like agents the system can bill.  Whatever is drawn, answered,
  paused, ramped and replayed, each request of a cluster carries its own identifier and figures below
  \<open>2^20\<close> (so none is negative and none overflows), its fresh heartbeats are numbered 1, 2, 3 and so on
  without a gap, and the gateway's in-memory deduplication, as long as it forgets nothing, suppresses
  exactly the replays: the idempotency demonstration charges nothing twice.
\<close>

theorem simulated_cluster_deduplicated:
  assumes "tenant \<in> set simulated_tenants" and "sim \<in> set (tn_clusters tenant)"
    and "agent_reach (start_agent (sim\<lparr>cs_id := i\<rparr>) tenant) a"
    and "length (ag_sent a) < 2 ^ 64" and "length ts = length (ag_sent a)"
  shows "well_numbered 0 (ag_sent a) \<and> (\<forall>(r, _) \<in> set (ag_sent a). plausible i r) \<and>
    snd (dedup_run mem_IsDuplicate mem_prune
      (map2 (\<lambda>t (r, _). Check t (hr_ClusterId r) (hr_SequenceNumber r)) ts (ag_sent a)) (NewMemDedup ttl)) =
    map (\<lambda>(r, replay). (hr_ClusterId r, hr_SequenceNumber r, replay)) (ag_sent a)"
proof -
  have "configured (sim\<lparr>cs_id := i\<rparr>)" using simulated_configured [OF assms(1,2)] by (simp add: configured_def)
  moreover have "cs_recentSeqs sim = []" "cs_replayCh sim = []"
    using assms(1,2) by (auto simp: simulated_tenants_def Let_def newClusterSim_def)
  ultimately have "agent_ok i (start_agent (sim\<lparr>cs_id := i\<rparr>) tenant)" by (simp add: agent_ok_def start_agent_def)
  then have ok: "agent_ok i a" by (rule agent_ok_reach [OF assms(3)])
  then have numbered: "well_numbered 0 (ag_sent a)" and plausible: "\<forall>(r, _) \<in> set (ag_sent a). plausible i r"
    using assms(4) by (simp_all add: agent_ok_def)
  moreover have "0 + fresh_count (ag_sent a) < 2 ^ 64" using fresh_count_le [of "ag_sent a"] assms(4) by linarith
  ultimately show ?thesis
    using dedup_well_numbered [OF numbered _ assms(5), of i "NewMemDedup ttl"]
    by (auto simp: plausible_def NewMemDedup_def)
qed

definition demo_sim :: ClusterSim where
  "demo_sim = newClusterSim ''A'' 0 (25 * Millisecond) (1, 0)"

definition demo_beat :: "agent \<Rightarrow> agent" where
  "demo_beat = sim_tick False \<lparr>dr_N4 = 1, dr_N5 = 0, dr_Float64 = 7\<rparr> True"

definition demo_replay :: "agent \<Rightarrow> agent" where
  "demo_replay a =
     (let a = a\<lparr>ag_offers := ag_offers a @ replay_seqs (ag_sim a)\<rparr>;
          a = a\<lparr>ag_offers := tl (ag_offers a), ag_sim := offer_replay (hd (ag_offers a)) (ag_sim a)\<rparr>
      in send_replay 0 True (hd (cs_replayCh (ag_sim a))) (tl (cs_replayCh (ag_sim a))) a)"

lemma demo_beat_run:
  assumes "\<not> cs_stopped (ag_sim a)" "cs_recentSeqs (ag_sim a) = []" "ag_running a"
  shows "agent_step a (demo_beat a)" "ag_running (demo_beat a)" "cs_recentSeqs (ag_sim (demo_beat a)) = [ag_seq a + 1]"
    "ag_offers (demo_beat a) = ag_offers a" "cs_replayCh (ag_sim (demo_beat a)) = cs_replayCh (ag_sim a)"
    "cs_id (ag_sim (demo_beat a)) = cs_id (ag_sim a)"
    "\<exists>r. ag_sent (demo_beat a) = ag_sent a @ [(r, False)] \<and> hr_ClusterId r = cs_id (ag_sim a) \<and> hr_SequenceNumber r = ag_seq a + 1"
  using assms agent_step.ticked [of a "\<lparr>dr_N4 = 1, dr_N5 = 0, dr_Float64 = 7\<rparr>" False True]
  by (auto simp: demo_beat_def sim_tick_def drawn_def Let_def fresh_request_def)

lemma demo_replay_run:
  assumes "cs_recentSeqs (ag_sim a) = [q]" "ag_offers a = []" "cs_replayCh (ag_sim a) = []" "ag_running a"
  shows "agent_reach a (demo_replay a)"
    "\<exists>r. ag_sent (demo_replay a) = ag_sent a @ [(r, True)] \<and> hr_ClusterId r = cs_id (ag_sim a) \<and> hr_SequenceNumber r = q"
proof -
  let ?b = "a\<lparr>ag_offers := [q]\<rparr>"
  let ?c = "?b\<lparr>ag_offers := [], ag_sim := offer_replay q (ag_sim ?b)\<rparr>"
  have run: "demo_replay a = send_replay 0 True q [] ?c"
    using assms by (simp add: demo_replay_def replay_seqs_def offer_replay_def Let_def)
  have "agent_step a ?b" using agent_step.replay_asked [of a] assms by (simp add: replay_seqs_def Let_def)
  moreover have "agent_step ?b ?c" by (rule agent_step.offered) (simp_all add: assms replayChSize_def)
  moreover have "agent_step ?c (send_replay 0 True q [] ?c)"
    by (rule agent_step.replayed) (simp_all add: assms offer_replay_def)
  ultimately show "agent_reach a (demo_replay a)" unfolding run by (meson converse_rtranclp_into_rtranclp rtranclp.rtrancl_refl)
  show "\<exists>r. ag_sent (demo_replay a) = ag_sent a @ [(r, True)] \<and> hr_ClusterId r = cs_id (ag_sim a) \<and> hr_SequenceNumber r = q"
    unfolding run by (simp add: send_replay_def offer_replay_def Let_def)
qed

theorem simulated_cluster_deduplicated_witness:
  "\<exists>tenant a. agent_reach (start_agent (demo_sim\<lparr>cs_id := ''c''\<rparr>) tenant) a \<and> map snd (ag_sent a) = [False, True] \<and>
     snd (dedup_run mem_IsDuplicate mem_prune
       (map2 (\<lambda>t (r, _). Check t (hr_ClusterId r) (hr_SequenceNumber r)) [0, 1] (ag_sent a)) (NewMemDedup 10)) =
     [(''c'', 1, False), (''c'', 1, True)]"
proof -
  let ?tenant = "hd simulated_tenants"
  have tenant: "?tenant \<in> set simulated_tenants" "demo_sim \<in> set (tn_clusters ?tenant)"
    by (simp_all add: simulated_tenants_def demo_sim_def Let_def)
  let ?a = "start_agent (demo_sim\<lparr>cs_id := ''c''\<rparr>) ?tenant"
  have start: "\<not> cs_stopped (ag_sim ?a)" "cs_recentSeqs (ag_sim ?a) = []" "ag_running ?a"
    by (simp_all add: start_agent_def demo_sim_def newClusterSim_def)
  note beat = demo_beat_run [OF start]
  have idle: "ag_offers (demo_beat ?a) = []" "cs_replayCh (ag_sim (demo_beat ?a)) = []" "cs_id (ag_sim (demo_beat ?a)) = ''c''"
    unfolding beat by (simp_all add: start_agent_def demo_sim_def newClusterSim_def)
  note replay = demo_replay_run [OF beat(3) idle(1,2) beat(2)]
  have run: "agent_reach ?a (demo_replay (demo_beat ?a))"
    using beat(1) replay(1) by (rule converse_rtranclp_into_rtranclp)
  obtain r q where sent: "ag_sent (demo_replay (demo_beat ?a)) = [(r, False), (q, True)]"
    "hr_ClusterId r = ''c''" "hr_SequenceNumber r = 1" "hr_ClusterId q = ''c''" "hr_SequenceNumber q = 1"
    using beat(7) replay(2) idle(3) by (auto simp: start_agent_def)
  show ?thesis
    using simulated_cluster_deduplicated [OF tenant run, of "[0, 1]" 10] run sent by (intro exI conjI) auto
qed

section \<open>The kill switch\<close>

text \<open>
  While nobody else touches the switch it follows the responses: the agent is stopped exactly when
  the last response carried a shutdown command, and a stopped agent sends no heartbeat.
\<close>

lemma kill_switch_obeyed:
  assumes "cs_stopped (ag_sim a) = ag_wasStopped a"
  shows "cs_stopped (ag_sim (receive_response now resp a)) = hasKill resp"
    "ag_wasStopped (receive_response now resp a) = hasKill resp"
  using assms by (auto simp: receive_response_def obey_def set_stopped_def Let_def)

lemma stopped_sends_nothing: "cs_stopped (ag_sim a) \<Longrightarrow> sim_tick paused d sent a = a"
  by (simp add: sim_tick_def)

text \<open>
  But \<open>stepExhaust\<close> clears the switch of a stopped agent behind the back of the receive goroutine, which
  then takes the agent for stopped already: however many further shutdown commands arrive, the agent
  keeps sending, until a response without one has come.
\<close>

lemma kill_switch_ignored:
  assumes "ag_wasStopped a" and "\<not> cs_stopped (ag_sim a)" and "list_all hasKill resps"
  shows "\<exists>r. ag_sent (sim_tick False d True (fold (receive_response now) resps a)) = ag_sent a @ [(r, False)]"
proof -
  have "ag_wasStopped (fold (receive_response now) resps a) \<and> \<not> cs_stopped (ag_sim (fold (receive_response now) resps a)) \<and>
      ag_sent (fold (receive_response now) resps a) = ag_sent a"
    using assms
  proof (induction resps arbitrary: a)
    case (Cons resp resps)
    have "ag_wasStopped (receive_response now resp a)" "\<not> cs_stopped (ag_sim (receive_response now resp a))"
      using Cons.prems by (simp_all add: receive_response_def obey_def Let_def)
    then show ?case using Cons.IH [of "receive_response now resp a"] Cons.prems(3) by simp
  qed simp
  then show ?thesis by (simp add: sim_tick_def Let_def)
qed

end
