(* ===== verification/Admin_Gateway.thy ===== *)
theory Admin_Gateway
  imports Heartbeat_Gateway Credit_System "HOL-Library.Multiset"
begin

text \<open>
  \<open>internal/gateway/admin_handler.go\<close>: credits issued through a Temporal update, and the reads and
  soft deletions of the dashboard.  The update client is the record \<open>admin_temporal\<close>, the order in
  which Go ranges over the returned balances is the parameter \<open>iter\<close>, and a database call runs on the
  \<open>pg\<close> of theory \<open>PG_Store\<close>.
\<close>

section \<open>Issuing credit\<close>

record IssueTenantCreditRequest =
  cr_TenantId :: string
  cr_ResourceType :: string
  cr_Amount :: int64
  cr_Reason :: string

record ('w, 'h) admin_temporal =
  ad_UpdateWorkflow :: "string \<Rightarrow> QuotaAdjustmentSignal \<Rightarrow> 'w \<Rightarrow> 'w \<times> 'h result"
  ad_Get :: "'h \<Rightarrow> 'w \<Rightarrow> 'w \<times> (string, QuotaSnapshotData) gomap result"

definition credit_signal :: "IssueTenantCreditRequest \<Rightarrow> QuotaAdjustmentSignal" where
  "credit_signal r =
     \<lparr>adj_ResourceType = cr_ResourceType r, adj_Amount = cr_Amount r, adj_Reason = cr_Reason r,
      adj_Code = CodeQuotaAdjustment\<rparr>"

definition balance_quota :: "string \<times> QuotaSnapshotData \<Rightarrow> QuotaInfo" where
  "balance_quota = (\<lambda>(resourceType, snap).
     let avail = CreditsTotal snap - qs_DebitsPosted snap - qs_DebitsPending snap;
         used = used_of resourceType (qs_DebitsPosted snap) (qs_DebitsPending snap)
     in \<lparr>qi_ResourceType = resourceType, qi_Used = used, qi_Limit = CreditsTotal snap, qi_Available = avail,
         qi_Status = quota_status False (Some avail) used (CreditsTotal snap)\<rparr>)"

definition IssueTenantCredit ::
    "('w, 'h) admin_temporal \<Rightarrow> ((string, QuotaSnapshotData) gomap \<Rightarrow> (string, QuotaSnapshotData) gomap) \<Rightarrow>
     IssueTenantCreditRequest \<Rightarrow> 'w \<Rightarrow> 'w \<times> QuotaInfo list result" where
  "IssueTenantCredit tc iter r w =
     (if sint (cr_Amount r) \<le> 0 then (w, Inl (Wrap ''invalid_argument'' (Msg ''amount must be positive'')))
      else
        (case ad_UpdateWorkflow tc (AccountingWorkflowID (cr_TenantId r)) (credit_signal r) w of
           (w1, Inl e) \<Rightarrow> (w1, Inl (Wrap ''internal'' (Wrap ''update workflow'' e)))
         | (w1, Inr h) \<Rightarrow>
           (case ad_Get tc h w1 of
              (w2, Inl e) \<Rightarrow> (w2, Inl (Wrap ''internal'' (Wrap ''update result'' e)))
            | (w2, Inr balances) \<Rightarrow> (w2, Inr (map balance_quota (iter balances))))))"

section \<open>Reads\<close>

text \<open>The identifier of a request is parsed first, and the answer of a query wrapped.\<close>

definition admin_call ::
    "uuid_parser \<Rightarrow> string \<Rightarrow> string \<Rightarrow> string \<Rightarrow> (bytes16 \<Rightarrow> pg \<Rightarrow> pg \<times> 'a result) \<Rightarrow> pg \<Rightarrow> pg \<times> 'a result" where
  "admin_call parse label name i f db =
     (case parse i of
        Inl e \<Rightarrow> (db, Inl (Wrap ''invalid_argument'' (Wrap label e)))
      | Inr u \<Rightarrow>
        (case f u db of
           (db1, Inl e) \<Rightarrow> (db1, Inl (Wrap ''internal'' (Wrap name e)))
         | (db1, Inr x) \<Rightarrow> (db1, Inr x)))"

definition on_result :: "('a \<Rightarrow> 'b) \<Rightarrow> pg \<times> 'a result \<Rightarrow> pg \<times> 'b result" where
  "on_result f p = (fst p, case snd p of Inl e \<Rightarrow> Inl e | Inr x \<Rightarrow> Inr (f x))"

definition ListTenantQuotas :: "uuid_parser \<Rightarrow> string \<Rightarrow> pg \<Rightarrow> pg \<times> QuotaInfo list result" where
  "ListTenantQuotas parse tenantId db =
     on_result (map (snapshot_quota (\<lambda>_. False)))
       (admin_call parse ''invalid tenant ID'' ''GetQuotaSnapshots'' tenantId q_GetQuotaSnapshots db)"

record TenantSummary =
  ts_Id :: string
  ts_Name :: string
  ts_BillingTier :: string
  ts_Status :: string
  ts_CreatedAt :: string

definition tenant_summary :: "(bytes16 \<Rightarrow> string) \<Rightarrow> Tenant \<Rightarrow> TenantSummary" where
  "tenant_summary ustr t =
     \<lparr>ts_Id = ustr (t_ID t), ts_Name = t_Name t, ts_BillingTier = t_BillingTier t, ts_Status = t_Status t,
      ts_CreatedAt = format_utc (t_CreatedAt t)\<rparr>"

definition ListTenants :: "(bytes16 \<Rightarrow> string) \<Rightarrow> pg \<Rightarrow> pg \<times> TenantSummary list result" where
  "ListTenants ustr db =
     (case q_ListTenants db of
        (db1, Inl e) \<Rightarrow> (db1, Inl (Wrap ''internal'' (Wrap ''ListTenants'' e)))
      | (db1, Inr rows) \<Rightarrow> (db1, Inr (map (tenant_summary ustr) rows)))"

record CreditAdjustmentEntry =
  ce_Id :: string
  ce_ResourceType :: string
  ce_Amount :: int64
  ce_Reason :: string
  ce_TransferId :: string
  ce_CreatedAt :: string

definition adjustment_entry :: "(bytes16 \<Rightarrow> string) \<Rightarrow> CreditAdjustment \<Rightarrow> CreditAdjustmentEntry" where
  "adjustment_entry ustr r =
     \<lparr>ce_Id = ustr (ca_ID r), ce_ResourceType = ca_ResourceType r, ce_Amount = ca_Amount r,
      ce_Reason = (case ca_Reason r of None \<Rightarrow> '''' | Some reason \<Rightarrow> reason),
      ce_TransferId = (if length (ca_TbTransferID r) = 16 then hex_encode (ca_TbTransferID r) else ''''),
      ce_CreatedAt = format_utc (ca_CreatedAt r)\<rparr>"

definition ListCreditAdjustments ::
    "uuid_parser \<Rightarrow> (bytes16 \<Rightarrow> string) \<Rightarrow> string \<Rightarrow> pg \<Rightarrow> pg \<times> CreditAdjustmentEntry list result" where
  "ListCreditAdjustments parse ustr tenantId db =
     on_result (map (adjustment_entry ustr))
       (admin_call parse ''invalid tenant ID'' ''ListCreditAdjustmentsByTenant'' tenantId q_ListCreditAdjustmentsByTenant db)"

record ClusterSummary =
  cl_Id :: string
  cl_TenantId :: string
  cl_CloudProvider :: string
  cl_Region :: string
  cl_Status :: string
  cl_LastHeartbeat :: string
  cl_AgentVersion :: string

definition cluster_summary :: "(bytes16 \<Rightarrow> string) \<Rightarrow> WorkloadCluster \<Rightarrow> ClusterSummary" where
  "cluster_summary ustr c =
     \<lparr>cl_Id = ustr (wc_ID c), cl_TenantId = ustr (wc_TenantID c), cl_CloudProvider = wc_CloudProvider c,
      cl_Region = wc_Region c, cl_Status = wc_Status c,
      cl_LastHeartbeat = (case wc_LastHeartbeat c of None \<Rightarrow> '''' | Some t \<Rightarrow> format_utc t),
      cl_AgentVersion = (case wc_AgentVersion c of None \<Rightarrow> '''' | Some v \<Rightarrow> v)\<rparr>"

definition ListClusters ::
    "uuid_parser \<Rightarrow> (bytes16 \<Rightarrow> string) \<Rightarrow> string \<Rightarrow> pg \<Rightarrow> pg \<times> ClusterSummary list result" where
  "ListClusters parse ustr tenantId db =
     on_result (map (cluster_summary ustr))
       (admin_call parse ''invalid tenant ID'' ''ListClustersByTenant'' tenantId q_ListClustersByTenant db)"

section \<open>Soft deletions\<close>

definition admin_DeleteTenant :: "uuid_parser \<Rightarrow> string \<Rightarrow> pg \<Rightarrow> pg \<times> unit result" where
  "admin_DeleteTenant parse tenantId db =
     admin_call parse ''invalid tenant ID'' ''DeleteTenant'' tenantId q_DeleteTenant db"

definition admin_DeregisterCluster :: "uuid_parser \<Rightarrow> string \<Rightarrow> pg \<Rightarrow> pg \<times> unit result" where
  "admin_DeregisterCluster parse clusterId db =
     admin_call parse ''invalid cluster ID'' ''DeregisterCluster'' clusterId q_DeregisterCluster db"

section \<open>Credit on the ledger\<close>

text \<open>
  The activities of the accounting workflow in a deployment: each under \<open>MaximumAttempts\<close> 5, on the
  ledger or the database of the world.
\<close>

definition deployed_activities ::
    "'tb tb_client \<Rightarrow> uuid_parser \<Rightarrow> hash \<Rightarrow> ((string, HeartbeatSignal) gomap \<Rightarrow> (string, HeartbeatSignal) gomap) \<Rightarrow>
     'tb world activities" where
  "deployed_activities c parse H ord =
     \<lparr>act_SubmitTBBatch = \<lambda>i. with_retries 4 (on_tb (SubmitTBBatch c H ord i)),
      act_SubmitAllocationTransfers = \<lambda>i. with_retries 4 (on_tb (SubmitAllocationTransfers c i)),
      act_LookupAccountBalances = \<lambda>m. with_retries 4 (on_tb (\<lambda>s. (s, LookupAccountBalances c m s))),
      act_UpdateQuotaSnapshots = \<lambda>i. with_retries 4 (on_pg (UpdateQuotaSnapshots parse i)),
      act_CheckSoftLimits = \<lambda>i. with_retries 4 (on_pg (\<lambda>db. case CheckSoftLimits parse i db of (db', _, r) \<Rightarrow> (db', r))),
      act_ResetSoftLimitAlert = \<lambda>i. with_retries 4 (on_pg (ResetSoftLimitAlert parse i))\<rparr>"

text \<open>
  What is relied on of an update: it runs the validator and the handler of the workflow that has the
  identifier, and its answer is the handler's.  \<open>live\<close> gives the state of a running workflow.
\<close>

definition runs_updates ::
    "('w, 'h) admin_temporal \<Rightarrow> ('w \<Rightarrow> string \<Rightarrow> TenantAccountingState option) \<Rightarrow> hash \<Rightarrow> 'w activities \<Rightarrow> bool" where
  "runs_updates tc live H acts \<longleftrightarrow>
     (\<forall>i sig w w1 h w2 balances. ad_UpdateWorkflow tc i sig w = (w1, Inr h) \<longrightarrow> ad_Get tc h w1 = (w2, Inr balances) \<longrightarrow>
        (\<exists>st st'. live w i = Some st \<and> validate_adjustment st sig = Inr () \<and>
           handle_update H acts sig st w = (st', w2, Inr balances)))"

lemma allocated:
  assumes "tb_laws c v" "with_retries n (SubmitAllocationTransfers c input) s = (s', Inr ())"
    "collect (map (allocation_of_credit input) (ai_Credits input)) = [a]" "at_TransferID a \<noteq> 0"
  shows "committed v s' (at_TransferID a) \<noteq> None \<or> burnt v s' (at_TransferID a)"
proof -
  obtain s0 where "SubmitAllocationTransfers c input s0 = (s', Inr ())"
    using with_retries_last [OF assms(2), of "\<lambda>_. True"] by blast
  then obtain rs where call: "SubmitAllocations c [a] s0 = (s', Inr rs)"
    using assms(3) by (auto simp: SubmitAllocationTransfers_def split: prod.splits sum.splits)
  show ?thesis
    using allocation.results(2,5,6) [OF assms(1) _ call, of 0] assms(4) by auto
qed

lemma read_only_retries: "with_retries n (\<lambda>s. (s, f s)) s = (s, f s)"
  by (induction n arbitrary: s) (auto split: sum.splits)

lemma deployed_allocation:
  "act_SubmitAllocationTransfers (deployed_activities c parse H ord) i w =
     on_tb (with_retries 4 (SubmitAllocationTransfers c i)) w"
  by (simp add: deployed_activities_def retries_on_tb)

lemma looked_up:
  assumes "act_LookupAccountBalances (deployed_activities c parse H ord) m w = (w', r)"
  shows "w' = w" "r = LookupAccountBalances c m (w_tb w)"
  using assms by (auto simp: deployed_activities_def retries_on_tb on_tb_def read_only_retries split: prod.splits)

lemma projected:
  assumes "adjust_project (deployed_activities c parse H ord) sig st w = (w', balances)"
  shows "w_tb w' = w_tb w" "balances \<noteq> [] \<Longrightarrow> LookupAccountBalances c (AccountMap st) (w_tb w) = Inr balances"
proof -
  have pg: "w_tb (fst (with_retries 4 (on_pg f) x)) = w_tb x" for f :: "pg \<Rightarrow> pg \<times> unit result" and x :: "'a world"
    by (simp add: retries_on_pg on_pg_def split: prod.split)
  have look: "act_LookupAccountBalances (deployed_activities c parse H ord) (AccountMap st) w =
      (w, LookupAccountBalances c (AccountMap st) (w_tb w))"
    using looked_up by (metis surj_pair)
  show "w_tb w' = w_tb w"
  proof (cases "LookupAccountBalances c (AccountMap st) (w_tb w)")
    case (Inr b)
    then have "w' = fst (with_retries 4 (on_pg (ResetSoftLimitAlert parse
        \<lparr>rs_TenantID = st_TenantID st, rs_ResourceType = adj_ResourceType sig\<rparr>))
        (fst (with_retries 4 (on_pg (UpdateQuotaSnapshots parse (snapshots_input st b))) w)))"
      using assms look by (auto simp: adjust_project_def) (simp add: deployed_activities_def)
    then show ?thesis by (simp only: pg)
  qed (use assms look in \<open>simp add: adjust_project_def\<close>)
  show "LookupAccountBalances c (AccountMap st) (w_tb w) = Inr balances" if "balances \<noteq> []"
    using assms look that
    by (cases "LookupAccountBalances c (AccountMap st) (w_tb w)") (auto simp: adjust_project_def)
qed

text \<open>The steps of a credit update that succeeded.\<close>

lemma update_steps:
  assumes "handle_update H (deployed_activities c parse H ord) sig st w = (st', w', Inr balances)"
  obtains input where "adjust_begin H sig st = (st\<lparr>FlushSeqNo := FlushSeqNo st + 1\<rparr>, Inr input)"
    "with_retries 4 (SubmitAllocationTransfers c input) (w_tb w) = (w_tb w', Inr ())"
    "balances \<noteq> [] \<longrightarrow> LookupAccountBalances c (AccountMap st) (w_tb w') = Inr balances"
proof -
  let ?st1 = "st\<lparr>FlushSeqNo := FlushSeqNo st + 1\<rparr>"
  obtain r where ab: "adjust_begin H sig st = (?st1, r)" by (simp add: adjust_begin_def Let_def)
  obtain input w1 where input: "r = Inr input"
    and sub: "on_tb (with_retries 4 (SubmitAllocationTransfers c input)) w = (w1, Inr ())"
    and proj: "adjust_project (deployed_activities c parse H ord) sig (adjust_commit sig ?st1) w1 = (w', balances)"
    using assms
    by (auto simp: handle_update_def flushAdjustment_def ab deployed_allocation Let_def split: prod.splits sum.splits)
  have "AccountMap (adjust_commit sig (st\<lparr>FlushSeqNo := FlushSeqNo st + 1\<rparr>)) = AccountMap st"
    by (simp add: adjust_commit_def)
  then show ?thesis
    using that [of input] ab input on_tbD [OF sub] projected [OF proj] by simp
qed

lemma credit_allocation:
  assumes "adjust_begin H sig st = (st', Inr input)" "LedgerID (adj_ResourceType sig) = Inr l"
  shows "\<exists>a. collect (map (allocation_of_credit input) (ai_Credits input)) = [a] \<and>
    at_TransferID a = DeriveAllocationTransferID H (st_TenantUUID st) (FlushSeqNo st + 1) l \<and> at_Amount a = adj_Amount sig"
  using assms
  by (auto simp: adjust_begin_def Let_def allocation_of_credit_def UUIDToUint128_def Uint128ToBytes_def)

text \<open>A quota built from the balances that were read.\<close>

lemma live_quota:
  assumes "tb_laws c v" "distinct (map fst m)" "LookupAccountBalances c m s = Inr balances"
    and "q \<in> balance_quota ` set balances"
  shows "\<exists>j a. map_of m (qi_ResourceType q) = Some j \<and> acct v s j = Some a \<and>
    qi_Limit q = bs_CreditsPosted (snapshot_of a) \<and>
    qi_Used q = used_of (qi_ResourceType q) (bs_DebitsPosted (snapshot_of a)) (bs_DebitsPending (snapshot_of a))"
proof -
  obtain bs where look: "LookupBalances c m s = Inr bs"
    and bal: "balances = map (\<lambda>(r, b). (r, \<lparr>CreditsTotal = bs_CreditsPosted b, qs_DebitsPosted = bs_DebitsPosted b,
      qs_DebitsPending = bs_DebitsPending b\<rparr>)) bs"
    using assms(3) by (auto simp: LookupAccountBalances_def split: sum.splits)
  obtain res b where b: "(res, b) \<in> set bs" "qi_ResourceType q = res" "qi_Limit q = bs_CreditsPosted b"
    "qi_Used q = used_of res (bs_DebitsPosted b) (bs_DebitsPending b)"
    using assms(4) by (auto simp: bal balance_quota_def Let_def)
  have "map_of bs res = Some b" using b(1) balances_distinct [OF look] by simp
  then show ?thesis
    using balances_exact [OF assms(1,2) look, of res] b by (auto split: option.splits)
qed

section \<open>Properties of the admin calls\<close>


text \<open>A client that runs the update of one workflow at once.\<close>

definition direct_updates ::
    "TenantAccountingState \<Rightarrow> hash \<Rightarrow> 'w activities \<Rightarrow> ('w, (string, QuotaSnapshotData) gomap result) admin_temporal" where
  "direct_updates st H acts =
     \<lparr>ad_UpdateWorkflow = \<lambda>i sig w.
        (case validate_adjustment st sig of
           Inl e \<Rightarrow> (w, Inl e)
         | Inr _ \<Rightarrow> (case handle_update H acts sig st w of (st', w', r) \<Rightarrow> (w', Inr r))),
      ad_Get = \<lambda>h w. (w, h)\<rparr>"

lemma direct_updates_run: "runs_updates (direct_updates st H acts) (\<lambda>w i. Some st) H acts"
  by (auto simp: runs_updates_def direct_updates_def split: prod.splits sum.splits)

definition demo_credit :: IssueTenantCreditRequest where
  "demo_credit = \<lparr>cr_TenantId = ''t'', cr_ResourceType = ResourceCPUHours, cr_Amount = 40, cr_Reason = ''promo''\<rparr>"

definition demo_account_state :: TenantAccountingState where
  "demo_account_state = initial_state (demo_customer\<lparr>in_AccountMap := [(ResourceCPUHours, 12)],
     in_GlobalOperatorIDs := [(ResourceCPUHours, 10)]\<rparr>)"

definition demo_credit_world :: "ref_tb world" where
  "demo_credit_world = \<lparr>w_tb = demo_ledger, w_pg = demo_pg [], w_workflows = [], w_signals = []\<rparr>"

abbreviation demo_updates :: "(ref_tb world, (string, QuotaSnapshotData) gomap result) admin_temporal" where
  "demo_updates \<equiv> direct_updates demo_account_state demo_hash
     (deployed_activities ref_client demo_parse demo_hash (\<lambda>m. m))"

text \<open>An update whose allocation succeeds at once succeeds.\<close>

lemma direct_update_succeeds:
  assumes "0 < sint (cr_Amount r)" "validate_adjustment st (credit_signal r) = Inr ()"
    "adjust_begin H (credit_signal r) st = (st1, Inr input)"
    "\<not> isl (snd (SubmitAllocationTransfers c input (w_tb w)))"
  shows "\<exists>w' quotas. IssueTenantCredit (direct_updates st H (deployed_activities c parse H ord)) iter r w = (w', Inr quotas)"
proof -
  obtain s' where "SubmitAllocationTransfers c input (w_tb w) = (s', Inr ())"
    using returned [OF assms(4)] by auto
  then have "on_tb (with_retries 4 (SubmitAllocationTransfers c input)) w = (w\<lparr>w_tb := s'\<rparr>, Inr ())"
    by (simp add: on_tb_def with_retries_first)
  then have "\<exists>st' w' b. handle_update H (deployed_activities c parse H ord) (credit_signal r) st w = (st', w', Inr b)"
    by (simp add: handle_update_def flushAdjustment_def assms(3) deployed_allocation Let_def split: prod.split)
  then show ?thesis
    using assms(1,2) by (auto simp: IssueTenantCredit_def direct_updates_def)
qed

lemma demo_credit_steps:
  "validate_adjustment demo_account_state (credit_signal demo_credit) = Inr ()"
  "case snd (adjust_begin demo_hash (credit_signal demo_credit) demo_account_state) of
     Inl e \<Rightarrow> False | Inr input \<Rightarrow> \<not> isl (snd (SubmitAllocationTransfers ref_client input demo_ledger))"
  "DeriveAllocationTransferID demo_hash (st_TenantUUID demo_account_state) (FlushSeqNo demo_account_state + 1) 1 \<noteq> 0"
  by code_simp+


section \<open>Deleted tenants\<close>

definition is_deleted :: "bytes16 \<Rightarrow> pg \<Rightarrow> bool" where
  "is_deleted u db \<longleftrightarrow> tenant_exists u db \<and> (\<forall>t \<in> set (tenants db). t_ID t = u \<longrightarrow> t_DeletedAt t \<noteq> None)"

lemma deleted_script [simp]: "is_deleted u (db\<lparr>pg_script := os\<rparr>) = is_deleted u db"
  by (simp add: is_deleted_def tenant_exists_def)

lemma update_where_ids:
  "(\<And>r. k (f r) = k r) \<Longrightarrow> (\<exists>r \<in> set (update_where p f rows). k r = i) \<longleftrightarrow> (\<exists>r \<in> set rows. k r = i)"
  by (induction rows) (auto simp: update_where_def)

lemma deleted_statement:
  "(\<And>db. is_deleted u db \<Longrightarrow> is_deleted u (fst (body db))) \<Longrightarrow> is_deleted u db \<Longrightarrow> is_deleted u (fst (statement body db))"
  by (rule statement_invariant [where P = "is_deleted u"]) simp_all

lemma deleted_same: "tenants db' = tenants db \<Longrightarrow> is_deleted u db \<Longrightarrow> is_deleted u db'"
  by (simp add: is_deleted_def tenant_exists_def)

interpretation deletion: pg_invariant "is_deleted u" for u
proof
  fix db t n b
  assume del: "is_deleted u db"
  show "is_deleted u (fst (q_InsertTenant t n b db))"
    unfolding q_InsertTenant_def using _ del
    by (rule deleted_statement) (auto simp: is_deleted_def tenant_exists_def Let_def)
  show "is_deleted u (fst (q_DeleteTenant t db))"
    unfolding q_DeleteTenant_def using _ del
    by (rule deleted_statement) (auto simp: is_deleted_def tenant_exists_def update_where_ids update_where_set)
qed (simp,
  unfold q_InsertCluster_def q_InsertTBAccountMapping_def q_UpsertQuotaSnapshot_def q_InsertCreditAdjustment_def
    q_MarkSoftLimitAlertSent_def q_ResetSoftLimitAlert_def q_UpdateClusterStatus_def q_DeregisterCluster_def,
  (erule deleted_statement [rotated], erule deleted_same [rotated],
   simp add: Let_def upsert_snapshot_def set_alert_def split: option.split)+)

lemma delete_deletes:
  assumes "admin_DeleteTenant parse i db = (db', Inr ())" "parse i = Inr u" "tenant_exists u db"
  shows "is_deleted u db'" "workload_clusters db' = workload_clusters db"
proof -
  have "q_DeleteTenant u db = (db', Inr ())"
    using assms(1,2) by (auto simp: admin_DeleteTenant_def admin_call_def split: prod.splits sum.splits)
  then have "tenants db' = update_where (\<lambda>t. t_ID t = u)
      (\<lambda>t. t\<lparr>t_Status := ''deregistered'', t_DeletedAt := Some (pg_now db)\<rparr>) (tenants db)"
    "workload_clusters db' = workload_clusters db"
    unfolding q_DeleteTenant_def by (auto elim!: statement_Inr)
  then show "is_deleted u db'" "workload_clusters db' = workload_clusters db"
    using assms(3) by (auto simp: is_deleted_def tenant_exists_def update_where_ids update_where_set)
qed

text \<open>
  C38. A deleted tenant stays deleted.  After a successful \<open>DeleteTenant\<close> no listing shows the tenant
  again, whatever activities run on the database from then on (not even its provisioning, retried,
  brings it back).  Its clusters are left registered: deletion does not touch them.
\<close>

theorem deleted_tenant_hidden:
  assumes "admin_DeleteTenant parse i db = (db1, Inr ())" and "parse i = Inr u" and "tenant_exists u db" and "inj ustr"
    and "ListTenants ustr (fold (run_pg_attempt parse) attempts db1) = (db2, Inr ts)"
  shows "ustr u \<notin> ts_Id ` set ts \<and> workload_clusters db1 = workload_clusters db"
proof -
  let ?db = "fold (run_pg_attempt parse) attempts db1"
  have del: "is_deleted u ?db"
    using delete_deletes(1) [OF assms(1-3)] by (rule deletion.attempts_keep)
  obtain rows where rows: "q_ListTenants ?db = (db2, Inr rows)" "ts = map (tenant_summary ustr) rows"
    using assms(5) by (auto simp: ListTenants_def split: prod.splits sum.splits)
  then have "\<forall>t \<in> set rows. t \<in> set (tenants ?db) \<and> t_DeletedAt t = None"
    unfolding q_ListTenants_def by (auto elim!: query_Inr)
  then have "\<forall>t \<in> set rows. t_ID t \<noteq> u" using del by (auto simp: is_deleted_def)
  then have "ustr u \<notin> ts_Id ` set ts" using injD [OF assms(4)] by (fastforce simp: rows(2) tenant_summary_def)
  then show ?thesis using delete_deletes(2) [OF assms(1-3)] by blast
qed

definition demo_print :: "bytes16 \<Rightarrow> string" where
  "demo_print u = decimal (unat u)"

lemma demo_print_inj: "inj demo_print"
  unfolding demo_print_def by (rule inj_on_inverseI [where g = "of_nat \<circ> undecimal"]) simp

definition demo_deleted :: pg where
  "demo_deleted = fst (admin_DeleteTenant demo_parse ''t'' (demo_pg []))"

definition demo_again :: pg_attempt where
  "demo_again = TenantAttempt \<lparr>it_TenantID = ''t'', it_Name = ''acme'', it_BillingTier = ''pro''\<rparr>"

lemma demo_deleted_run:
  "snd (admin_DeleteTenant demo_parse ''t'' (demo_pg [])) = Inr ()"
  "\<not> isl (snd (ListTenants demo_print (fold (run_pg_attempt demo_parse) [demo_again] demo_deleted)))"
  by (simp_all add: admin_DeleteTenant_def admin_call_def demo_parse_def q_DeleteTenant_def ListTenants_def q_ListTenants_def
      demo_deleted_def demo_again_def demo_pg_def InsertTenant_def with_uuid_def q_InsertTenant_def tenant_exists_def
      update_where_def billing_tiers_def)

theorem deleted_tenant_hidden_witness:
  "\<exists>db2 ts. ListTenants demo_print (fold (run_pg_attempt demo_parse) [demo_again] demo_deleted) = (db2, Inr ts) \<and>
     demo_print 7 \<notin> ts_Id ` set ts"
proof -
  have del: "admin_DeleteTenant demo_parse ''t'' (demo_pg []) = (demo_deleted, Inr ())"
    using demo_deleted_run(1) by (simp add: demo_deleted_def prod_eq_iff)
  obtain db2 ts where list: "ListTenants demo_print (fold (run_pg_attempt demo_parse) [demo_again] demo_deleted) = (db2, Inr ts)"
    using returned [OF demo_deleted_run(2)] by blast
  have "demo_parse ''t'' = Inr 7" "tenant_exists 7 (demo_pg [])"
    by (simp_all add: demo_parse_def demo_pg_def tenant_exists_def)
  from deleted_tenant_hidden [OF del this demo_print_inj list] list show ?thesis by blast
qed

section \<open>The audit trail\<close>

lemma hex_digit_char: "n < 16 \<Longrightarrow> hex_digit (hex_char n) = Some (of_nat n)"
  by (auto simp: hex_digit_def hex_char_def Let_def)

lemma two_digits: "16 * of_nat (unat b div 16) + of_nat (unat b mod 16) = b" for b :: byte
proof -
  have "16 * of_nat (unat b div 16) + of_nat (unat b mod 16) = (of_nat (16 * (unat b div 16) + unat b mod 16) :: byte)"
    by (simp only: of_nat_add of_nat_mult of_nat_numeral)
  also have "\<dots> = of_nat (unat b)" by (simp only: mult_div_mod_eq)
  also have "\<dots> = b" by simp
  finally show ?thesis .
qed

lemma hex_roundtrip: "hex_decode (hex_encode bs) = bs"
proof (induction bs)
  case (Cons b bs)
  have "unat b < 256" using unsigned_less [where 'a = nat, of b] by simp
  then have "unat b div 16 < 16" by (simp add: less_mult_imp_div_less)
  then have "hex_digit (hex_char (unat b div 16)) = Some (of_nat (unat b div 16))"
    "hex_digit (hex_char (unat b mod 16)) = Some (of_nat (unat b mod 16))"
    by (intro hex_digit_char; simp)+
  moreover have "hex_encode (b # bs) = hex_char (unat b div 16) # hex_char (unat b mod 16) # hex_encode bs"
    by (simp add: hex_encode_def)
  ultimately show ?case using Cons by (simp only: hex_decode.simps prod.case option.case two_digits)
qed (simp add: hex_encode_def)

definition four_digit_year :: "int \<Rightarrow> bool" where
  "four_digit_year ns \<longleftrightarrow> (let y = fst (civil_date (ns div 1000000000 div 86400)) in 0 \<le> y \<and> y \<le> 9999)"

text \<open>What an entry of the audit trail tells of its row.\<close>

definition tells :: "CreditAdjustment \<Rightarrow> CreditAdjustmentEntry \<Rightarrow> bool" where
  "tells a e \<longleftrightarrow> ce_ResourceType e = ca_ResourceType a \<and> ce_Amount e = ca_Amount a \<and>
     (length (ca_TbTransferID a) = 16 \<longrightarrow> hex_decode (ce_TransferId e) = ca_TbTransferID a) \<and>
     (four_digit_year (ca_CreatedAt a) \<longrightarrow> read_utc (ce_CreatedAt e) = ca_CreatedAt a div 1000000000)"

lemma entry_tells: "tells a (adjustment_entry ustr a)"
proof -
  have "read_utc (format_utc ns) = ns div 1000000000" if "four_digit_year ns" for ns
    using that read_format_utc [of ns] by (cases "civil_date (ns div 1000000000 div 86400)") (auto simp: four_digit_year_def Let_def)
  then show ?thesis by (simp add: tells_def adjustment_entry_def hex_roundtrip)
qed

text \<open>
  C39. The audit trail can be read back.  \<open>ListCreditAdjustments\<close> answers with one entry per adjustment
  of the tenant, newest first.  Each entry carries the resource and the amount, a hexadecimal string
  that decodes to the 16 bytes of the transfer identifier, and a time that reads back as the second
  the row was written in, for years of four digits.
\<close>

theorem audit_trail_reads_back:
  assumes "parse tenantId = Inr t" and "ListCreditAdjustments parse ustr tenantId db = (db', Inr entries)"
  shows "\<exists>rows. mset rows = mset (filter (\<lambda>a. ca_TenantID a = t) (credit_adjustments db)) \<and>
    sorted_wrt (\<lambda>a b. ca_CreatedAt b \<le> ca_CreatedAt a) rows \<and> list_all2 tells rows entries"
proof -
  obtain rows where q: "q_ListCreditAdjustmentsByTenant t db = (db', Inr rows)"
    and entries: "entries = map (adjustment_entry ustr) rows"
    using assms by (auto simp: ListCreditAdjustments_def admin_call_def on_result_def split: prod.splits sum.splits)
  let ?mine = "filter (\<lambda>a. ca_TenantID a = t) (credit_adjustments db)"
  have rows: "rows = sort_key (\<lambda>a. - ca_CreatedAt a) ?mine"
    using q unfolding q_ListCreditAdjustmentsByTenant_def by (auto elim!: query_Inr)
  have "sorted (map (\<lambda>a. - ca_CreatedAt a) rows)" unfolding rows by (rule sorted_sort_key)
  then have "sorted_wrt (\<lambda>a b. ca_CreatedAt b \<le> ca_CreatedAt a) rows" by (simp add: sorted_wrt_map)
  moreover have "list_all2 tells rows entries" by (simp add: entries list_all2_conv_all_nth entry_tells)
  moreover have "mset rows = mset ?mine" by (simp add: rows)
  ultimately show ?thesis by blast
qed

definition demo_audit :: pg where
  "demo_audit = (demo_pg [])\<lparr>credit_adjustments :=
     [\<lparr>ca_ID = 1, ca_TenantID = 7, ca_ResourceType = ''cpu_hours'', ca_Amount = 40, ca_Reason = None,
       ca_TbTransferID = le_bytes 16 (601 :: bytes16), ca_CreatedAt = 0\<rparr>]\<rparr>"

theorem audit_trail_reads_back_witness:
  "\<exists>db' e. ListCreditAdjustments demo_parse demo_print ''t'' demo_audit = (db', Inr [e]) \<and> ce_Amount e = 40 \<and>
     hex_decode (ce_TransferId e) = le_bytes 16 (601 :: bytes16)"
proof -
  obtain db' e where list: "ListCreditAdjustments demo_parse demo_print ''t'' demo_audit = (db', Inr [e])"
    by (simp add: ListCreditAdjustments_def admin_call_def on_result_def demo_parse_def demo_audit_def demo_pg_def
        q_ListCreditAdjustmentsByTenant_def)
  have "demo_parse ''t'' = Inr 7" by (simp add: demo_parse_def)
  from audit_trail_reads_back [OF this list] list show ?thesis
    by (auto simp: demo_audit_def demo_pg_def list_all2_Cons2 tells_def le_bytes_def)
qed

end
