(* ===== verification/Simulator_Scenario.thy ===== *)
theory Simulator_Scenario
  imports Cluster_Simulator Provisioning_Gateway Admin_Gateway
begin

text \<open>
  The scenario of \<open>cmd/simulator\<close>: the driver's steps (\<open>main.go\<close>), the list of steps (\<open>scenario.go\<close>) and the
  update function of the terminal program (\<open>ui.go\<close>).

  \<^item> The services are called through \<open>rpc\<close>, a record of functions on a world \<open>'w\<close>; \<open>show\<close> prints an error.
  \<^item> A step returns the messages it sends, the returned one last, or a panic.
  \<^item> The widgets of the terminal library (progress bars, viewports) and the rendering are left out; the
    polled statistics are one opaque value.
\<close>

section \<open>The driver\<close>

record ScenarioDriver =
  dv_tenantID :: string
  dv_tenants :: "TenantSim list"

definition NewScenarioDriver :: ScenarioDriver where
  "NewScenarioDriver = \<lparr>dv_tenantID = [], dv_tenants = simulated_tenants\<rparr>"

record 'w rpc =
  rpc_RegisterTenant :: "RegisterTenantRequest \<Rightarrow> 'w \<Rightarrow> 'w \<times> string result"
  rpc_RegisterCluster :: "RegisterClusterRequest \<Rightarrow> 'w \<Rightarrow> 'w \<times> string result"
  rpc_IssueTenantCredit :: "IssueTenantCreditRequest \<Rightarrow> 'w \<Rightarrow> 'w \<times> unit result"

definition event_for :: "int \<Rightarrow> int \<Rightarrow> EventKind \<Rightarrow> string \<Rightarrow> ui_msg" where
  "event_for now idx kind s = eventMsg \<lparr>ev_Timestamp = now, ev_TenantIdx = idx, ev_Kind = kind, ev_Message = s\<rparr>"

definition errMsg :: "(error \<Rightarrow> string) \<Rightarrow> int \<Rightarrow> int \<Rightarrow> string \<Rightarrow> error \<Rightarrow> ui_msg" where
  "errMsg show now idx label e = event_for now idx EventInfo (''ERROR ['' @ label @ '']: '' @ show e)"

definition set_tenant :: "nat \<Rightarrow> (TenantSim \<Rightarrow> TenantSim) \<Rightarrow> ScenarioDriver \<Rightarrow> ScenarioDriver" where
  "set_tenant k f d = d\<lparr>dv_tenants := (dv_tenants d)[k := f (dv_tenants d ! k)]\<rparr>"

definition set_cluster :: "nat \<Rightarrow> nat \<Rightarrow> (ClusterSim \<Rightarrow> ClusterSim) \<Rightarrow> ScenarioDriver \<Rightarrow> ScenarioDriver" where
  "set_cluster k j f = set_tenant k (\<lambda>t. t\<lparr>tn_clusters := (tn_clusters t)[j := f (tn_clusters t ! j)]\<rparr>)"

definition provisioned_msg :: "int \<Rightarrow> int \<Rightarrow> string \<Rightarrow> string \<Rightarrow> ui_msg" where
  "provisioned_msg now idx name tenantID =
     event_for now idx EventInfo
       (''Tenant '' @ name @ '' provisioned '' @ em_dash @ '' wallets loaded tenant='' @ take 8 tenantID)"

definition stepProvision ::
    "'w rpc \<Rightarrow> (error \<Rightarrow> string) \<Rightarrow> int \<Rightarrow> ScenarioDriver \<Rightarrow> 'w \<Rightarrow> ('w \<times> ScenarioDriver) \<times> ui_msg list result" where
  "stepProvision rpc show now d w =
     (case rpc_RegisterTenant rpc
             \<lparr>rt_Name = ''Acme Corp'', rt_BillingTier = ''pro'', rt_CpuHoursCredits = 1500000,
              rt_MemoryGbHoursCredits = 1000000, rt_ActiveNodesLimit = 20\<rparr> w of
        (w1, Inl e) \<Rightarrow> ((w1, d), Inr [errMsg show now 0 ''RegisterTenant Acme'' e])
      | (w1, Inr a) \<Rightarrow>
        (let d = (set_tenant 0 (\<lambda>t. t\<lparr>tn_tenantID := a\<rparr>) d)\<lparr>dv_tenantID := a\<rparr> in
         case rpc_RegisterTenant rpc
                \<lparr>rt_Name = ''Globex Inc'', rt_BillingTier = ''starter'', rt_CpuHoursCredits = 500000,
                 rt_MemoryGbHoursCredits = 500000, rt_ActiveNodesLimit = 10\<rparr> w1 of
           (w2, Inl e) \<Rightarrow> ((w2, d), Inr [errMsg show now 1 ''RegisterTenant Globex'' e])
         | (w2, Inr g) \<Rightarrow>
           (let d = set_tenant 1 (\<lambda>t. t\<lparr>tn_tenantID := g\<rparr>) d in
            if length g < 8 \<or> length a < 8 then ((w2, d), Inl (ErrPanic ''slice bounds out of range''))
            else ((w2, d), Inr [provisioned_msg now 1 ''Globex Inc'' g, provisioned_msg now 0 ''Acme Corp'' a]))))"

text \<open>The clusters in the order they are registered: tenant, position, region.\<close>

definition cluster_plan :: "(nat \<times> nat \<times> string) list" where
  "cluster_plan = [(0, 0, ''us-east-1''), (0, 1, ''eu-west-1''), (0, 2, ''ap-south-1''), (1, 0, ''us-west-2''), (1, 1, ''ca-central-1'')]"

fun register_clusters ::
    "'w rpc \<Rightarrow> (nat \<times> nat \<times> string) list \<Rightarrow> ScenarioDriver \<Rightarrow> 'w \<Rightarrow> ('w \<times> ScenarioDriver) \<times> (nat \<times> string \<times> error) option" where
  "register_clusters rpc [] d w = ((w, d), None)"
| "register_clusters rpc ((k, j, region) # rest) d w =
     (case rpc_RegisterCluster rpc
             \<lparr>rq_TenantId = tn_tenantID (dv_tenants d ! k), rq_CloudProvider = ''aws'', rq_Region = region\<rparr> w of
        (w1, Inl e) \<Rightarrow> ((w1, d), Some (k, cs_label (tn_clusters (dv_tenants d ! k) ! j), e))
      | (w1, Inr i) \<Rightarrow> register_clusters rpc rest (set_cluster k j (\<lambda>s. s\<lparr>cs_id := i\<rparr>) d) w1)"

definition connected_cluster :: "string \<Rightarrow> string \<Rightarrow> string \<Rightarrow> int \<Rightarrow> ClusterState" where
  "connected_cluster name region speed interval =
     \<lparr>cl_Name = name, cl_Region = region, cl_Speed = speed, cl_Connected = True, cl_Seq = 0, cl_AckSeq = 0,
      cl_RateDesc = rateDesc interval, cl_LastSeen = zero_time\<rparr>"

text \<open>The third component is the list of clusters whose \<open>run\<close> is started.\<close>

definition stepStartClusters ::
    "'w rpc \<Rightarrow> (error \<Rightarrow> string) \<Rightarrow> int \<Rightarrow> ScenarioDriver \<Rightarrow> 'w \<Rightarrow> ('w \<times> ScenarioDriver) \<times> ui_msg list \<times> ClusterSim list" where
  "stepStartClusters rpc show now d w =
     (case register_clusters rpc cluster_plan d w of
        (wd, Some (k, label, e)) \<Rightarrow> (wd, [errMsg show now (int k) (''RegisterCluster '' @ label) e], [])
      | (wd, None) \<Rightarrow>
          (wd,
           [clusterUpdateMsg 1
              [connected_cluster ''Cluster D'' ''us-west-2'' ''fast'' (50 * Millisecond),
               connected_cluster ''Cluster E'' ''ca-central-1'' ''slow'' (100 * Millisecond)],
            clusterUpdateMsg 0
              [connected_cluster ''Cluster A'' ''us-east-1'' ''fast'' (25 * Millisecond),
               connected_cluster ''Cluster B'' ''eu-west-1'' ''medium'' (50 * Millisecond),
               connected_cluster ''Cluster C'' ''ap-south-1'' ''slow'' (100 * Millisecond)]],
           tn_clusters (dv_tenants (snd wd) ! 0) @ tn_clusters (dv_tenants (snd wd) ! 1)))"

definition stepExhaust :: "int \<Rightarrow> ScenarioDriver \<Rightarrow> (ScenarioDriver \<times> ui_msg list) result" where
  "stepExhaust now d =
     (let d = set_tenant 0 (\<lambda>t. t\<lparr>tn_clusters := map clear_stop (tn_clusters t)\<rparr>) d in
      case close_exhaust (tn_clusters (dv_tenants d ! 0) ! 0) of
        Inl e \<Rightarrow> Inl e
      | Inr sim \<Rightarrow>
          Inr (set_cluster 0 0 (\<lambda>_. sim) d,
            [event_for now 0 EventSoftLimit (''Cluster A ramping CPU '' @ em_dash @ '' driving toward hard limit...'')]))"

definition stepSurgePack :: "'w rpc \<Rightarrow> (error \<Rightarrow> string) \<Rightarrow> int \<Rightarrow> ScenarioDriver \<Rightarrow> 'w \<Rightarrow> 'w \<times> ui_msg list" where
  "stepSurgePack rpc show now d w =
     (case rpc_IssueTenantCredit rpc
             \<lparr>cr_TenantId = dv_tenantID d, cr_ResourceType = ''cpu_hours'', cr_Amount = 500000,
              cr_Reason = ''Emergency surge pack''\<rparr> w of
        (w1, Inl e) \<Rightarrow> (w1, [event_for now 0 EventSurgePack (''Surge pack error: '' @ show e)])
      | (w1, Inr _) \<Rightarrow>
          (w1, [event_for now 0 EventSurgePack
             (''Surge pack applied '' @ em_dash @ '' CPU wallet +500K credits; clusters will auto-resume'')]))"

text \<open>The second component is put on the replay channel of cluster A, one number after the other.\<close>

definition stepIdempotency :: "int \<Rightarrow> ScenarioDriver \<Rightarrow> ui_msg list \<times> uint64 list" where
  "stepIdempotency now d =
     (let seqs = replay_seqs (tn_clusters (dv_tenants d ! 0) ! 0) in
      ([event_for now 0 EventInfo
          (''Replaying '' @ decimal (length seqs) @ '' sequences on real stream '' @ em_dash @
           '' dedup enforced by processedSeqs'')], seqs))"

text \<open>A step: its messages, the clusters it starts and the numbers it replays, or a panic.\<close>

definition runStep ::
    "'w rpc \<Rightarrow> (error \<Rightarrow> string) \<Rightarrow> int \<Rightarrow> int \<Rightarrow> ScenarioDriver \<Rightarrow> 'w \<Rightarrow>
     ('w \<times> ScenarioDriver) \<times> (ui_msg list \<times> ClusterSim list \<times> uint64 list) result" where
  "runStep rpc show now step d w =
     (if step = 0 then
        (case stepProvision rpc show now d w of
           (wd, Inl e) \<Rightarrow> (wd, Inl e) | (wd, Inr msgs) \<Rightarrow> (wd, Inr (msgs, [], [])))
      else if step = 1 then
        (case stepStartClusters rpc show now d w of (wd, msgs, sims) \<Rightarrow> (wd, Inr (msgs, sims, [])))
      else if step = 2 then
        ((w, d), Inr ([event_for now 0 EventInfo
           (''Recording usage '' @ em_dash @ '' quota bars filling from real heartbeats...'')], [], []))
      else if step = 3 then
        (case stepExhaust now d of
           Inl e \<Rightarrow> ((w, d), Inl e) | Inr (d1, msgs) \<Rightarrow> ((w, d1), Inr (msgs, [], [])))
      else if step = 4 then
        (case stepSurgePack rpc show now d w of (w1, msgs) \<Rightarrow> ((w1, d), Inr (msgs, [], [])))
      else if step = 5 then
        (case stepIdempotency now d of (msgs, seqs) \<Rightarrow> ((w, d), Inr (msgs, [], seqs)))
      else if step = 6 then
        ((w, d), Inr ([event_for now 0 EventInfo
           (''Demo complete '' @ em_dash @ '' all success criteria met.'')], [], []))
      else ((w, d), Inr ([], [], [])))"

section \<open>The steps\<close>

record ScenarioStep =
  sc_Name :: string
  sc_AutoAdvance :: bool
  sc_Duration :: int

definition Scenario :: "ScenarioStep list" where
  "Scenario =
     [\<lparr>sc_Name = ''Provision tenant wallets'', sc_AutoAdvance = True, sc_Duration = 3 * Second\<rparr>,
      \<lparr>sc_Name = ''Start clusters streaming'', sc_AutoAdvance = True, sc_Duration = 3 * Second\<rparr>,
      \<lparr>sc_Name = ''Record usage'', sc_AutoAdvance = False, sc_Duration = 0\<rparr>,
      \<lparr>sc_Name = ''Drive to exhaustion'', sc_AutoAdvance = False, sc_Duration = 0\<rparr>,
      \<lparr>sc_Name = ''Surge pack top-up'', sc_AutoAdvance = False, sc_Duration = 0\<rparr>,
      \<lparr>sc_Name = ''Idempotency proof'', sc_AutoAdvance = False, sc_Duration = 0\<rparr>,
      \<lparr>sc_Name = ''Final summary'', sc_AutoAdvance = False, sc_Duration = 0\<rparr>]"

section \<open>The terminal program\<close>

record tenantUIState =
  tu_name :: string
  tu_tier :: string
  tu_quotas :: "QuotaState list"
  tu_clusters :: "ClusterState list"
  tu_tbStats :: TBStats
  tu_events :: "Event list"

record 's Model =
  mo_width :: int
  mo_height :: int
  mo_currentStep :: int
  mo_stepStart :: int
  mo_paused :: bool
  mo_elapsed :: int
  mo_tenants :: "tenantUIState list"
  mo_selectedTenant :: nat
  mo_serverStats :: 's
  mo_driverPaused :: bool

definition newTenantUIState :: "string \<Rightarrow> string \<Rightarrow> QuotaState list \<Rightarrow> tenantUIState" where
  "newTenantUIState name tier quotas =
     \<lparr>tu_name = name, tu_tier = tier, tu_quotas = quotas, tu_clusters = [],
      tu_tbStats = \<lparr>tb_TransfersTotal = 0, tb_Rejected = 0, tb_Idempotent = 0\<rparr>, tu_events = []\<rparr>"

definition initialModel :: "'s \<Rightarrow> int \<Rightarrow> 's Model" where
  "initialModel stats now =
     (let quota = (\<lambda>(resource, limit). \<lparr>qt_Resource = resource, qt_Used = 0, qt_Limit = limit, qt_Available = 0,
                                       qt_Pct = None, qt_Status = []\<rparr>) in
      \<lparr>mo_width = 0, mo_height = 0, mo_currentStep = 0, mo_stepStart = now, mo_paused = False, mo_elapsed = 0,
       mo_tenants =
         [newTenantUIState ''Acme Corp'' ''pro''
            (map quota [(''cpu_hours'', 1500000), (''memory_gb_hours'', 1000000), (''active_nodes'', 20)]),
          newTenantUIState ''Globex Inc'' ''starter''
            (map quota [(''cpu_hours'', 500000), (''memory_gb_hours'', 500000), (''active_nodes'', 10)])],
       mo_selectedTenant = 0, mo_serverStats = stats, mo_driverPaused = False\<rparr>)"

datatype 's tea_msg =
    KeyMsg string
  | WindowSizeMsg int int
  | tickMsg
  | stepAdvanceMsg int
  | programMsg ui_msg
  | serverStatsMsg 's

datatype tea_cmd = Quit | StepCmd int | tickCmd | serverStatsPollCmd

definition go_to :: "int \<Rightarrow> int \<Rightarrow> 's Model \<Rightarrow> 's Model" where
  "go_to now step m = m\<lparr>mo_currentStep := step, mo_stepStart := now\<rparr>"

definition update_key :: "int \<Rightarrow> string \<Rightarrow> 's Model \<Rightarrow> 's Model \<times> tea_cmd list" where
  "update_key now key m =
     (if key \<in> {''q'', ''Q'', ''ctrl+c''} then (m, [Quit])
      else if key = '' '' then (m\<lparr>mo_paused := \<not> mo_paused m, mo_driverPaused := \<not> mo_paused m\<rparr>, [])
      else if key = ''tab'' then
        (m\<lparr>mo_selectedTenant := (mo_selectedTenant m + 1) mod (length (mo_tenants m) + 1)\<rparr>, [])
      else if key \<in> {''n'', ''N''} then
        (let next = (if mo_currentStep m \<ge> int (length Scenario) - 1 then 3 else mo_currentStep m + 1) in
         (go_to now next m, [StepCmd next]))
      else if key \<in> {''r'', ''R''} then (go_to now 0 m, [StepCmd 0])
      else (m, []))"

definition update_tick :: "int \<Rightarrow> 's Model \<Rightarrow> ('s Model \<times> tea_cmd list) result" where
  "update_tick now m =
     (if mo_paused m then Inr (m, [tickCmd])
      else
        (let m = m\<lparr>mo_elapsed := time_Sub now (mo_stepStart m)\<rparr> in
         if mo_currentStep m < 0 \<or> mo_currentStep m \<ge> int (length Scenario) then Inl (ErrPanic ''index out of range'')
         else
           (let step = Scenario ! nat (mo_currentStep m) in
            if sc_AutoAdvance step \<and> sc_Duration step > 0 \<and> mo_elapsed m \<ge> sc_Duration step \<and>
               mo_currentStep m < int (length Scenario) - 1
            then Inr (go_to now (mo_currentStep m + 1) m, [StepCmd (mo_currentStep m + 1), tickCmd])
            else Inr (m, [tickCmd]))))"

definition on_tenant_ui :: "int \<Rightarrow> (tenantUIState \<Rightarrow> tenantUIState) \<Rightarrow> 's Model \<Rightarrow> 's Model" where
  "on_tenant_ui idx f m =
     (if 0 \<le> idx \<and> idx < int (length (mo_tenants m))
      then m\<lparr>mo_tenants := (mo_tenants m)[nat idx := f (mo_tenants m ! nat idx)]\<rparr> else m)"

definition add_event :: "Event \<Rightarrow> tenantUIState \<Rightarrow> tenantUIState" where
  "add_event e t =
     (let events = tu_events t @ [e] in
      t\<lparr>tu_events := (if length events > 50 then drop (length events - 50) events else events)\<rparr>)"

fun update_program :: "ui_msg \<Rightarrow> 's Model \<Rightarrow> 's Model" where
  "update_program (eventMsg e) m = on_tenant_ui (ev_TenantIdx e) (add_event e) m"
| "update_program (quotaUpdateMsg idx quotas) m = on_tenant_ui idx (\<lambda>t. t\<lparr>tu_quotas := quotas\<rparr>) m"
| "update_program (clusterUpdateMsg idx clusters) m = on_tenant_ui idx (\<lambda>t. t\<lparr>tu_clusters := clusters\<rparr>) m"
| "update_program (clusterHeartbeatMsg idx label seq ackSeq lastSeen) m =
     on_tenant_ui idx
       (\<lambda>t. t\<lparr>tu_clusters :=
          map (\<lambda>c. if cl_Name c = ''Cluster '' @ label
                   then c\<lparr>cl_Seq := seq, cl_AckSeq := ackSeq, cl_LastSeen := lastSeen\<rparr> else c) (tu_clusters t)\<rparr>) m"
| "update_program (tbStatsUpdateMsg idx stats) m = on_tenant_ui idx (\<lambda>t. t\<lparr>tu_tbStats := stats\<rparr>) m"

fun Update :: "int \<Rightarrow> 's tea_msg \<Rightarrow> 's Model \<Rightarrow> ('s Model \<times> tea_cmd list) result" where
  "Update now (KeyMsg key) m = Inr (update_key now key m)"
| "Update now (WindowSizeMsg w h) m = Inr (m\<lparr>mo_width := w, mo_height := h\<rparr>, [])"
| "Update now tickMsg m = update_tick now m"
| "Update now (stepAdvanceMsg step) m = Inr (go_to now step m, [])"
| "Update now (programMsg p) m = Inr (update_program p m, [])"
| "Update now (serverStatsMsg s) m = Inr (m\<lparr>mo_serverStats := s\<rparr>, [serverStatsPollCmd])"

section \<open>The terminal program stays in range\<close>

definition ui_ok :: "'s Model \<Rightarrow> bool" where
  "ui_ok m \<longleftrightarrow> 0 \<le> mo_currentStep m \<and> mo_currentStep m < int (length Scenario) \<and> length (mo_tenants m) = 2 \<and>
     mo_selectedTenant m \<le> length (mo_tenants m) \<and> mo_driverPaused m = mo_paused m \<and>
     (\<forall>t \<in> set (mo_tenants m). length (tu_events t) \<le> 50)"

lemma length_Scenario [simp]: "length Scenario = 7"
  by (simp add: Scenario_def)

lemma ui_ok_tenant:
  assumes "ui_ok m" "\<And>t. length (tu_events t) \<le> 50 \<Longrightarrow> length (tu_events (f t)) \<le> 50"
  shows "ui_ok (on_tenant_ui idx f m)"
proof (cases "0 \<le> idx \<and> idx < int (length (mo_tenants m))")
  case True
  then have "nat idx < length (mo_tenants m)" by linarith
  then have "length (tu_events (f (mo_tenants m ! nat idx))) \<le> 50" using assms by (simp add: ui_ok_def)
  then show ?thesis using assms(1) True by (auto simp: ui_ok_def on_tenant_ui_def dest!: set_update_subset_insert [THEN subsetD])
qed (use assms(1) in \<open>auto simp: on_tenant_ui_def\<close>)

lemma ui_ok_program: "ui_ok m \<Longrightarrow> ui_ok (update_program p m)"
  by (cases p) (auto intro!: ui_ok_tenant simp: add_event_def Let_def)

definition in_range :: "'s Model \<times> tea_cmd list \<Rightarrow> bool" where
  "in_range r \<longleftrightarrow> ui_ok (fst r) \<and> (\<forall>step. StepCmd step \<in> set (snd r) \<longrightarrow> 0 \<le> step \<and> step < 7 \<and> mo_currentStep (fst r) = step)"

lemma key_in_range: "ui_ok m \<Longrightarrow> in_range (update_key now key m)"
  using mod_less_divisor [of 3 "Suc (mo_selectedTenant m)"]
  by (simp add: update_key_def go_to_def in_range_def ui_ok_def Let_def less_Suc_eq_le del: mod_less_divisor)

lemma tick_in_range: "ui_ok m \<Longrightarrow> \<exists>r. update_tick now m = Inr r \<and> in_range r"
  by (simp add: update_tick_def go_to_def in_range_def ui_ok_def Let_def)

text \<open>
  Keys, ticks and messages never make the program index out of range: the current step is one of the
  seven, the steps it commands are, the selected tab is a tenant or the statistics, and each event log
  holds at most fifty entries.
\<close>

lemma ui_stays_in_range:
  assumes "ui_ok m" and "\<And>step. msg \<noteq> stepAdvanceMsg step"
  shows "\<exists>r. Update now msg m = Inr r \<and> in_range r"
proof (cases msg)
  case (programMsg p)
  then show ?thesis using ui_ok_program [OF assms(1)] by (simp add: in_range_def)
next
  case (stepAdvanceMsg step)
  then show ?thesis using assms(2) by simp
qed (use assms(1) key_in_range tick_in_range in \<open>simp_all add: in_range_def ui_ok_def\<close>)

lemma initial_in_range: "ui_ok (initialModel stats now)"
  by (simp add: ui_ok_def initialModel_def newTenantUIState_def Let_def)

text \<open>
  Pressing N in the summary leads back to the exhaustion step; when cluster A has not taken the first
  ramp-up signal by then (because its stream was never started, or has ended) the program panics.
\<close>

lemma second_exhaust_panics:
  assumes "stepExhaust now d = Inr (d', msgs)" and "length (dv_tenants d) = 2" and "tn_clusters (dv_tenants d ! 0) \<noteq> []"
  shows "stepExhaust now' d' = Inl (ErrPanic ''close of closed channel'')"
proof -
  obtain t ts where "dv_tenants d = t # ts" using assms(2) by (cases "dv_tenants d") auto
  moreover obtain c cs where "tn_clusters t = c # cs" using assms(3) calculation by (cases "tn_clusters t") auto
  ultimately show ?thesis
    using assms(1)
    by (auto simp: stepExhaust_def set_tenant_def set_cluster_def close_exhaust_def clear_stop_def Let_def split: if_splits)
qed

end
