(* ===== verification/Spec2Isabelle.thy ===== *)
theory Spec2Isabelle
  imports Stream_Session Server_Process Simulator_Scenario
begin

text \<open>
  \<^bold>\<open>A verification library for the cloud credit system.\<close>

  The program meters the resources that workload clusters consume and charges them to prepaid wallets.
  A cluster sends heartbeats with its CPU and memory deltas and its node count to the \<^emph>\<open>gateway\<close>, over a
  stream or one by one.  The gateway drops duplicates and signals the \<^emph>\<open>accounting workflow\<close> of the
  cluster's tenant, which Temporal runs.  The workflow collects heartbeats into batches and flushes them
  through \<^emph>\<open>activities\<close> to TigerBeetle, the \<^emph>\<open>ledger\<close> that enforces the hard limit; PostgreSQL keeps the
  tenants, clusters, account mappings and a projection of the balances for display.  Tenants and clusters
  are created by two \<^emph>\<open>provisioning workflows\<close>; administrators issue credit through an update of the
  accounting workflow.  A \<^emph>\<open>server process\<close> wires the parts together, and a \<^emph>\<open>simulator\<close> plays five clusters
  against it.

  \<^bold>\<open>Conventions\<close> (\<open>Credit_Prelude\<close>).  A Go integer is a word of its width, read with \<open>unat\<close> or \<open>sint\<close>; a
  \<open>[16]byte\<close> and a TigerBeetle identifier are 128-bit words.  A Go map is an association list, and the order
  of a range over it is an argument where it matters.  A fallible call returns \<open>error + 'a\<close>, panics included;
  a stateful one returns the new state beside it.  Times are nanoseconds since the epoch.  Mutexes and
  channels are atomic steps.  What the clock, the random source, a context or a remote service does is an
  argument of the operation that depends on it.

  \<^bold>\<open>Theories and sources\<close> (paths under \<open>src/\<close>).

  \<^item> \<open>Domain_Model\<close>: \<open>internal/domain\<close>, the resources, ledgers and codes.  Ledger numbers and resources
    correspond one to one.
  \<^item> \<open>Ledger_Ids\<close>: \<open>internal/ledger/ids.go\<close>.  The hash blake3 is the parameter \<open>H\<close>; identifiers of different
    events differ if \<open>H\<close> has no collision among the messages in play, since the messages are injective
    (locales \<open>id_encoding\<close>, \<open>id_layout\<close>).
  \<^item> \<open>TB_Client\<close>, \<open>TB_Invariants\<close>, \<open>TB_Batches\<close>, \<open>Reference_Ledger\<close>: the interface of the TigerBeetle client.  It
    is a record of functions on an abstract state with a view of accounts and transfers; \<open>tb_laws\<close> states
    its documented behaviour (each event is decided in order, an identifier is used once, a flagged
    account never has more debits than credits, a call may fail before or after it took effect).  The
    laws hold for an executable reference ledger, on which the witnesses run.  Locale \<open>ledger_invariant\<close>
    lifts invariants of one event to calls, \<open>ledger_call\<close> to the operations built on them.
  \<^item> \<open>Ledger_Accounts\<close>, \<open>Ledger_Transfers\<close>, \<open>Ledger_Submission\<close>, \<open>Ledger_Gauge\<close>: \<open>internal/ledger/accounts.go\<close> and
    \<open>transfers.go\<close>.  Usage and allocation batches share the contract \<open>batch_submission\<close>: results are what
    the ledger decided, balances move by exactly the newly accepted amounts, resubmission changes
    nothing, and a refused batch fails when it is submitted again.  A gauge update replaces the
    reservation of a wallet.
  \<^item> \<open>TB_Activities\<close>, \<open>Billing\<close>: \<open>internal/accounting/activities_tb.go\<close>.  Over any sequence of attempts the
    hard limit holds, the balances are the sums of the transfers, and a heartbeat is charged at most once.
  \<^item> \<open>PG_Store\<close>, \<open>PG_Activities\<close>: the schema of \<open>sql/migrations\<close>, the generated queries of
    \<open>internal/db/sqlcgen\<close> and \<open>activities_pg.go\<close>.  A script of outcomes says for each statement whether it
    fails, commits, or commits and loses its answer.  Attempts keep keys, checks, references and the
    generated column (locale \<open>pg_invariant\<close>), and retried writes are exact (locale \<open>row_writer\<close>).
  \<^item> \<open>Accounting_Workflow\<close>, \<open>Workflow_Machine\<close>: \<open>workflow_accounting.go\<close>, first as functions, then as the step
    relation \<open>wf_step\<close> in which the main loop, the flush with its activities, credit updates and
    continue-as-new interleave.  It refines an abstract machine of marks and committed batches;
    heartbeats are committed in order and accounted for, acknowledgements are those of committed
    heartbeats, and waiting heartbeats can be committed (locale \<open>wf_invariant\<close>).
  \<^item> \<open>Provisioning_Workflow\<close>: \<open>workflow_provisioning.go\<close>, on a world of a ledger and a database.
  \<^item> \<open>Credit_System\<close>: the workflow and the ledger as one system.  A wallet is never debited for more than was
    reported, and the ledger has decided each charge of a committed heartbeat.
  \<^item> \<open>Go_Float\<close>, \<open>Go_Time\<close>: the parts of \<open>float64\<close>, \<open>fmt\<close> and \<open>time\<close> the handlers use.
  \<^item> \<open>Gateway_Dedup\<close>, \<open>Gateway_Streams\<close>: \<open>internal/gateway/dedup.go\<close>, \<open>stream_manager.go\<close> and the counters of
    \<open>heartbeat_handler.go\<close>.  Both deduplicators keep a high-water mark (locales \<open>high_water\<close>,
    \<open>exact_high_water\<close>) and suppress no news; Valkey is a parameter.
  \<^item> \<open>Heartbeat_Gateway\<close>, \<open>Stream_Session\<close>: the rest of \<open>heartbeat_handler.go\<close>; the three goroutines of a stream
    are the step relation \<open>stream_step\<close>.  Signals go to the right tenant exactly once or an error is
    returned; a stream loses nothing silently; responses are consistent.
  \<^item> \<open>Provisioning_Gateway\<close>, \<open>Admin_Gateway\<close>, \<open>Web_UI\<close>: the other handlers, with Temporal's calls as parameters
    that run the workflows modelled here.
  \<^item> \<open>Server_Process\<close>: \<open>internal/config\<close>, \<open>internal/db\<close> and, of \<open>cmd/server/main.go\<close>, the connection loops, the
    account maps, the choice of the deduplicator, the routes and the bearer token.
  \<^item> \<open>Cluster_Simulator\<close>, \<open>Simulator_Scenario\<close>: \<open>cmd/simulator\<close>, the agent as the step relation \<open>agent_step\<close>, the
    driver's steps, and the update function of the terminal program.

  \<^bold>\<open>Bounds.\<close>  No operation runs on fuel: the loops of the program are structural or bounded by constants of
  the code (three lookups of a cluster, four attempts of a stream's signal, 30 dials at startup), and
  \<open>function\<close> definitions have their termination proofs.  Temporal's activity retries are a bounded
  repetition with any bound.  Bounds on counters appear as hypotheses where wrap-around would matter: fewer
  than \<open>2^64\<close> requests of a simulated cluster, sequence numbers up to \<open>2^53\<close> for Valkey's float scores.

  \<^bold>\<open>Hypotheses on other software.\<close>  \<open>tb_laws\<close> (TigerBeetle), \<open>valkey_laws\<close> (Valkey), absence of collisions
  (blake3), that parsing a printed UUID gives it back, and that Temporal runs the workflow it is asked to
  run.  Each property that has one has a witness with a concrete instance.

  \<^bold>\<open>Not modelled.\<close>

  \<^item> TigerBeetle, PostgreSQL, Temporal, Valkey, blake3 and the UUID library themselves: they are not part of
    the repository and enter as parameters.
  \<^item> \<open>internal/ledger/client.go\<close>, \<open>internal/accounting/worker.go\<close>, \<open>cmd/worker\<close>, \<open>internal/compress\<close>: dialling, name
    resolution, registration and codec constructors, which only call libraries.
  \<^item> The connect stubs and protobuf plumbing under \<open>gen/\<close>: generated; the messages are records here.
  \<^item> Logging, profiling, the debug server, listening and shutdown in \<open>cmd/server/main.go\<close>, and the rendering
    and widgets in \<open>cmd/simulator/ui.go\<close>: input and output without state of the system.
  \<^item> Float percentages and rates that are only displayed are given by their operands, and the figures of the
    Go runtime are one opaque value.
  \<^item> Data races (\<open>clusterID\<close> in \<open>HeartbeatStream\<close>, \<open>recentSeqs\<close> in the simulator): steps are atomic.
\<close>

end
